(* ===== verification/Kernel_Prelude.thy ===== *)
theory Kernel_Prelude
  imports Main "HOL-Library.Word"
begin

text \<open>
  Shared vocabulary of the development: the machine integer types of the kernel, the
  ways a kernel function can end, the sequencing of fallible computations, and the generic
  lemmas on words and lists that several components use.

  A function that always comes back to its caller, or stops the kernel, has type
  \<open>'a res\<close>: \<open>Inl\<close> is a stop (a \<open>KPanic\<close>, or an access through a pointer that designates
  no object), \<open>Inr\<close> a normal return. A function with a loop that need not end has type
  \<open>'a run\<close>: \<open>None\<close> means that it never returns.
\<close>

type_synonym u8 = "8 word"
type_synonym u16 = "16 word"
type_synonym u32 = "32 word"
type_synonym u64 = "64 word"

text \<open>Pointers are 32-bit addresses; \<open>NULL\<close> is address 0.\<close>

type_synonym ptr = u32

abbreviation (input) NULL :: ptr where "NULL \<equiv> 0"

text \<open>Byte memory, as the string functions of libc see it.\<close>

type_synonym bytes = "ptr \<Rightarrow> u8"

datatype halt =
    Panic string       \<comment> \<open>\<open>KPanic\<close> was called: the kernel prints the reason and halts\<close>
  | BadAccess ptr      \<comment> \<open>a dereference of a pointer to no object, undefined in C\<close>

type_synonym 'a res = "halt + 'a"
type_synonym 'a run = "'a res option"

named_theorems run_simps \<open>how sequenced computations compute\<close>

definition rbind :: "'a res \<Rightarrow> ('a \<Rightarrow> 'b res) \<Rightarrow> 'b res" where
  "rbind m f = (case m of Inl e \<Rightarrow> Inl e | Inr x \<Rightarrow> f x)"

definition mbind :: "'a run \<Rightarrow> ('a \<Rightarrow> 'b run) \<Rightarrow> 'b run" where
  "mbind m f = (case m of None \<Rightarrow> None | Some (Inl e) \<Rightarrow> Some (Inl e) | Some (Inr x) \<Rightarrow> f x)"

definition ret :: "'a \<Rightarrow> 'a run" where
  "ret x = Some (Inr x)"

definition panic :: "string \<Rightarrow> 'a run" where
  "panic why = Some (Inl (Panic why))"

text \<open>\<open>KAssert\<close>: \<open>KPanic\<close> when the condition is zero. (The reason also carries the file and
  line, which are not modelled.)\<close>

definition KAssert :: "bool \<Rightarrow> string \<Rightarrow> unit run" where
  "KAssert c why = (if c then ret () else panic (''Assertion failed: '' @ why))"

definition KAssert_res :: "bool \<Rightarrow> string \<Rightarrow> unit res" where
  "KAssert_res c why = (if c then Inr () else Inl (Panic (''Assertion failed: '' @ why)))"

lemma rbind_cong [fundef_cong]:
  "m = m' \<Longrightarrow> (\<And>x. m' = Inr x \<Longrightarrow> f x = f' x) \<Longrightarrow> rbind m f = rbind m' f'"
  by (cases m') (auto simp: rbind_def)

lemma rbind_simps [simp, run_simps]:
  "rbind (Inl e) f = Inl e" "rbind (Inr x) f = f x"
  by (simp_all add: rbind_def)

lemma mbind_simps [simp, run_simps]:
  "mbind None f = None" "mbind (Some (Inl e)) f = Some (Inl e)" "mbind (Some (Inr x)) f = f x"
  "mbind (ret x) f = f x" "mbind (panic why) g = panic why"
  by (simp_all add: mbind_def ret_def panic_def)

lemma KAssert_simps [simp, run_simps]:
  "c \<Longrightarrow> KAssert c why = ret ()" "\<not> c \<Longrightarrow> KAssert c why = panic (''Assertion failed: '' @ why)"
  by (simp_all add: KAssert_def)

lemma KAssert_res_simps [simp, run_simps]:
  "c \<Longrightarrow> KAssert_res c why = Inr ()"
  "\<not> c \<Longrightarrow> KAssert_res c why = Inl (Panic (''Assertion failed: '' @ why))"
  by (simp_all add: KAssert_res_def)

lemma ret_eq_iff [simp]: "ret x = ret y \<longleftrightarrow> x = y"
  by (simp add: ret_def)

lemma ret_panic_neq [simp]: "ret x \<noteq> panic why" "panic why \<noteq> ret x"
  by (simp_all add: ret_def panic_def)

lemma ret_not_None [simp]: "ret x \<noteq> None" "panic why \<noteq> None"
  by (simp_all add: ret_def panic_def)

lemma rbind_eq_Inr: "rbind m f = Inr y \<longleftrightarrow> (\<exists>x. m = Inr x \<and> f x = Inr y)"
  by (cases m) auto

lemma mbind_eq_ret: "mbind m f = ret y \<longleftrightarrow> (\<exists>x. m = ret x \<and> f x = ret y)"
  by (auto simp: mbind_def ret_def split: option.splits sum.splits)

lemma mbind_eq_retE:
  assumes "mbind m f = ret y"
  obtains x where "m = ret x" "f x = ret y"
  using assms by (auto simp: mbind_eq_ret)

lemma KAssert_eq_ret [simp]: "KAssert c why = ret u \<longleftrightarrow> c"
  by (cases c) auto

lemma mbind_KAssert_eq_ret: "mbind (KAssert c why) f = ret y \<longleftrightarrow> c \<and> f () = ret y"
  by (cases c) auto

subsection \<open>Link-time constants\<close>

text \<open>
  What the linker decides (\<open>mcpgos.ld\<close> over the built object files): the size of the kernel
  image in pages and the addresses of the static objects whose address the code takes.
  \<open>_VirtualAddress\<close> itself is fixed by the linker script.
\<close>

record linker =
  KernelSizePages :: u32
  addr_KernelPageTables :: ptr
  addr_ZeroIdentityPage :: ptr
  addr_VirtualAddress :: ptr
  malloc_caller :: ptr     \<comment> \<open>\<open>__builtin_return_address(0)\<close>, only ever printed\<close>

text \<open>An image such as the build produces, for concrete runs.\<close>

definition sample_image :: linker where
  "sample_image = \<lparr>KernelSizePages = 230, addr_KernelPageTables = 0xE0010000,
     addr_ZeroIdentityPage = 0xE0090000, addr_VirtualAddress = 0xE0009010, malloc_caller = 0xE0002000\<rparr>"

lemma sample_image_simps [simp]:
  "KernelSizePages sample_image = 230" "addr_KernelPageTables sample_image = 0xE0010000"
  "addr_ZeroIdentityPage sample_image = 0xE0090000" "addr_VirtualAddress sample_image = 0xE0009010"
  by (simp_all add: sample_image_def)

definition VirtualAddress :: u32 where
  "VirtualAddress = 0xE0000000"

definition PhysicalAddress :: u32 where
  "PhysicalAddress = 0x100000"

subsection \<open>Words\<close>

lemma unat_inc32:
  fixes i n :: "'a::len word"
  assumes "i < n"
  shows "unat (i + 1) = Suc (unat i)"
proof -
  have "unat i < unat n" using assms by (simp add: word_less_nat_alt)
  also have "unat n < 2 ^ LENGTH('a)" by (rule unsigned_less)
  finally have "Suc (unat i) < 2 ^ LENGTH('a)
      \<or> Suc (unat i) = 2 ^ LENGTH('a) \<and> unat n = 2 ^ LENGTH('a)"
    using assms \<open>unat n < 2 ^ LENGTH('a)\<close> by (simp add: word_less_nat_alt del: unsigned_less)
  then show ?thesis
    using \<open>unat n < 2 ^ LENGTH('a)\<close> by (auto simp: unat_plus_if' simp del: unsigned_less)
qed

lemma measure_up32: "i < n \<Longrightarrow> unat n - unat (i + 1) < unat n - unat i" for i n :: "'a::len word"
  by (simp add: unat_inc32 word_less_nat_alt)

lemma unat_dec32: "0 < n \<Longrightarrow> unat (n - 1) < unat n" for n :: "'a::len word"
  by (metis diff_less less_numeral_extra(1) less_numeral_extra(3) unat_minus_one unat_eq_0 word_less_nat_alt
      unat_0 neq0_conv)

lemma word_less_dec_iff: "0 < n \<Longrightarrow> x < n \<longleftrightarrow> x < n - 1 \<or> x = n - 1" for n x :: "'a::len word"
  using unat_minus_one [of n] by (auto simp: word_less_nat_alt word_unat_eq_iff)

lemma word_inc_le_iff: "i < n \<Longrightarrow> i \<le> x \<longleftrightarrow> i + 1 \<le> x \<or> x = i" for i n x :: "'a::len word"
  using unat_inc32 [of i n] by (auto simp: word_le_nat_alt word_unat_eq_iff)

lemma unat_of_nat32: "k < 4294967296 \<Longrightarrow> unat (of_nat k :: u32) = k"
  by (simp add: unsigned_of_nat take_bit_nat_eq_self)

lemma of_nat32_inject:
  "j < 4294967296 \<Longrightarrow> k < 4294967296 \<Longrightarrow> (of_nat j :: u32) = of_nat k \<longleftrightarrow> j = k"
  by (metis unat_of_nat32)

subsection \<open>Lists of pointers\<close>

text \<open>The first element of a segment, or what follows the segment if it is empty.\<close>

definition head_or :: "ptr \<Rightarrow> ptr list \<Rightarrow> ptr" where
  "head_or nx xs = (case xs of [] \<Rightarrow> nx | x # _ \<Rightarrow> x)"

definition last_or :: "ptr \<Rightarrow> ptr list \<Rightarrow> ptr" where
  "last_or pv xs = (if xs = [] then pv else last xs)"

lemma head_or_simps [simp]: "head_or nx [] = nx" "head_or nx (x # xs) = x"
  by (simp_all add: head_or_def)

lemma head_or_append [simp]: "head_or nx (xs @ ys) = head_or (head_or nx ys) xs"
  by (cases xs) simp_all

lemma last_or_simps [simp]: "last_or pv [] = pv" "last_or pv (x # xs) = last_or x xs"
  by (auto simp: last_or_def)

lemma last_or_append [simp]: "last_or pv (xs @ ys) = last_or (last_or pv xs) ys"
  by (auto simp: last_or_def)

section \<open>Invariants of step relations\<close>

text \<open>What every step keeps holds in every state reached.\<close>

locale preserved =
  fixes step :: "'s \<Rightarrow> 's \<Rightarrow> bool" and inv :: "'s \<Rightarrow> bool"
  assumes step: "step s s' \<Longrightarrow> inv s \<Longrightarrow> inv s'"
begin

lemma steps: "step\<^sup>*\<^sup>* s s' \<Longrightarrow> inv s \<Longrightarrow> inv s'"
  by (induction rule: rtranclp_induct) (auto dest: step)

end

end
