(* ===== verification/Libc.thy ===== *)
theory Libc
  imports Kernel_Prelude
begin

text \<open>
  The four string functions of libc (\<open>libc/src/string\<close>), over a flat byte memory.
  \<open>strlen\<close> and \<open>strcmp\<close> run until they meet a terminator and may never do so: they are
  partial. \<open>cstr m p s\<close> says that \<open>p\<close> points to the zero-terminated string \<open>s\<close>.
\<close>

subsection \<open>memset and memcpy\<close>

text \<open>\<open>for (; n > 0; n--) ((uint8_t*) ptr)[n - 1] = val;\<close>\<close>

function memset :: "bytes \<Rightarrow> ptr \<Rightarrow> u32 \<Rightarrow> u32 \<Rightarrow> bytes" where
  "memset m p val n =
     (if n > 0 then memset (m(p + (n - 1) := ucast val)) p val (n - 1) else m)"
  by pat_completeness auto
termination
  by (relation "measure (\<lambda>(m, p, val, n). unat n)") (auto simp: unat_dec32)

text \<open>\<open>for (i = 0; i < n; i++) dest[i] = src[i];\<close> (\<open>i\<close> is compared as unsigned)\<close>

function memcpy_loop :: "bytes \<Rightarrow> ptr \<Rightarrow> ptr \<Rightarrow> u32 \<Rightarrow> u32 \<Rightarrow> bytes" where
  "memcpy_loop m dest src n i =
     (if i < n then memcpy_loop (m(dest + i := m (src + i))) dest src n (i + 1) else m)"
  by pat_completeness auto
termination
  by (relation "measure (\<lambda>(m, dest, src, n, i). unat n - unat i)")
     (auto simp: measure_up32)

definition memcpy :: "bytes \<Rightarrow> ptr \<Rightarrow> ptr \<Rightarrow> u32 \<Rightarrow> bytes" where
  "memcpy m dest src n = memcpy_loop m dest src n 0"

declare memset.simps [simp del] memcpy_loop.simps [simp del]

text \<open>Exactly the bytes at distance less than \<open>n\<close> from \<open>p\<close> are set, for every \<open>n\<close>.\<close>

lemma memset_apply: "memset m p val n a = (if a - p < n then ucast val else m a)"
proof (induction m p val n rule: memset.induct)
  case (1 m p val n)
  show ?case
  proof (cases "n > 0")
    case True
    have "a - p < n \<longleftrightarrow> a - p < n - 1 \<or> a = p + (n - 1)"
      using word_less_dec_iff [OF True] by (auto simp: algebra_simps)
    with 1 True show ?thesis by (simp add: memset.simps [of m p val n] fun_upd_def)
  next
    case False
    then have "n = 0" by (simp add: word_gt_0)
    then show ?thesis by (simp add: memset.simps)
  qed
qed

text \<open>A copy between ranges that do not meet moves the bytes and changes nothing else.\<close>

definition ranges_disjoint :: "ptr \<Rightarrow> ptr \<Rightarrow> u32 \<Rightarrow> bool" where
  "ranges_disjoint p q n \<longleftrightarrow> (\<forall>a. \<not> (a - p < n \<and> a - q < n))"

lemma memcpy_loop_apply:
  assumes "ranges_disjoint dest src n" and "i \<le> n"
  shows "memcpy_loop m dest src n i a =
    (if a - dest < n \<and> i \<le> a - dest then m (src + (a - dest)) else m a)"
  using assms
proof (induction m dest src n i rule: memcpy_loop.induct)
  case (1 m dest src n i)
  show ?case
  proof (cases "i < n")
    case True
    have src: "src + (a - dest) \<noteq> dest + i" if "a - dest < n"
      using 1(2) that True unfolding ranges_disjoint_def
      by (metis add_diff_cancel_left')
    have step: "i + 1 \<le> n" using True by (rule inc_le)
    have split: "i \<le> a - dest \<longleftrightarrow> i + 1 \<le> a - dest \<or> a = dest + i"
      using word_inc_le_iff [OF True] by (auto simp: algebra_simps)
    have notin: "\<not> i + 1 \<le> i" using unat_inc32 [OF True] by (simp add: word_le_nat_alt)
    from 1(1) [OF True 1(2) step] True src split notin show ?thesis
      by (auto simp: memcpy_loop.simps [of m dest src n i] fun_upd_def)
  next
    case False
    with 1(3) have "i = n" by simp
    then show ?thesis by (auto simp: memcpy_loop.simps)
  qed
qed

lemma memcpy_apply:
  "ranges_disjoint dest src n \<Longrightarrow>
    memcpy m dest src n a = (if a - dest < n then m (src + (a - dest)) else m a)"
  by (simp add: memcpy_def memcpy_loop_apply)

subsection \<open>Zero-terminated strings\<close>

partial_function (option) strlen_loop :: "bytes \<Rightarrow> ptr \<Rightarrow> u32 \<Rightarrow> u32 run" where
  "strlen_loop m str result =
     (if m str \<noteq> 0 then strlen_loop m (str + 1) (result + 1) else ret result)"

definition strlen :: "bytes \<Rightarrow> ptr \<Rightarrow> u32 run" where
  "strlen m str = strlen_loop m str 0"

text \<open>\<open>char\<close> is signed on this target: the final comparison is on signed bytes.\<close>

partial_function (option) strcmp :: "bytes \<Rightarrow> ptr \<Rightarrow> ptr \<Rightarrow> int run" where
  "strcmp m s1 s2 =
     (if m s1 = m s2
      then (if m s1 = 0 then ret 0 else strcmp m (s1 + 1) (s2 + 1))
      else ret (if sint (m s1) < sint (m s2) then -1 else 1))"

primrec cstr :: "bytes \<Rightarrow> ptr \<Rightarrow> u8 list \<Rightarrow> bool" where
  "cstr m p [] \<longleftrightarrow> m p = 0"
| "cstr m p (c # cs) \<longleftrightarrow> c \<noteq> 0 \<and> m p = c \<and> cstr m (p + 1) cs"

lemma strlen_loop_cstr: "cstr m p s \<Longrightarrow> strlen_loop m p k = ret (k + of_nat (length s))"
  by (induction s arbitrary: p k) (simp_all add: strlen_loop.simps [of m p] strlen_loop.simps)

lemma strlen_cstr [simp]: "cstr m p s \<Longrightarrow> strlen m p = ret (of_nat (length s))"
  by (simp add: strlen_def strlen_loop_cstr)

text \<open>The order \<open>strcmp\<close> decides: lexicographic on the signed bytes, a proper prefix compared
  by its terminator.\<close>

fun strcmp_spec :: "u8 list \<Rightarrow> u8 list \<Rightarrow> int" where
  "strcmp_spec [] [] = 0"
| "strcmp_spec [] (d # ds) = (if 0 < sint d then -1 else 1)"
| "strcmp_spec (c # cs) [] = (if sint c < 0 then -1 else 1)"
| "strcmp_spec (c # cs) (d # ds) =
     (if c = d then strcmp_spec cs ds else if sint c < sint d then -1 else 1)"

lemma strcmp_cstr:
  "cstr m p s \<Longrightarrow> cstr m q t \<Longrightarrow> strcmp m p q = ret (strcmp_spec s t)"
  by (induction s t arbitrary: p q rule: strcmp_spec.induct)
     (auto simp: strcmp.simps)

lemma strcmp_spec_eq_0: "strcmp_spec s t = 0 \<longleftrightarrow> s = t"
  by (induction s t rule: strcmp_spec.induct) auto

lemma cstr_unique: "cstr m p s \<Longrightarrow> cstr m p t \<Longrightarrow> s = t"
  by (induction s t arbitrary: p rule: list_induct2') auto

end
