(* ===== verification/Frame_Source.thy ===== *)
theory Frame_Source
  imports Kernel_Prelude
begin

text \<open>
  The interface a client of the physical allocator relies on: \<open>alloc\<close> hands out page frames
  and a mark \<open>top\<close> separates the frames already passed over from those that can still be
  handed out. Every handed-out frame lies between the old and the new mark. A client that asks
  for several frames gets them in strictly increasing order, hence pairwise distinct.
\<close>

text \<open>Asking for \<open>n\<close> frames in a row, stopping where the allocator stops.\<close>

fun alloc_frames :: "('s \<Rightarrow> (u32 \<times> 's) res) \<Rightarrow> nat \<Rightarrow> 's \<Rightarrow> (u32 list \<times> 's) res" where
  "alloc_frames alloc 0 s = Inr ([], s)"
| "alloc_frames alloc (Suc n) s =
     rbind (alloc s) (\<lambda>(p, s1). rbind (alloc_frames alloc n s1) (\<lambda>(ps, s2). Inr (p # ps, s2)))"

lemma alloc_frames_length:
  "alloc_frames alloc n s = Inr (ps, s') \<Longrightarrow> length ps = n"
  by (induction n arbitrary: s ps s') (auto simp: rbind_eq_Inr)

locale frame_source =
  fixes alloc :: "'s \<Rightarrow> (u32 \<times> 's) res" and top :: "'s \<Rightarrow> nat"
  assumes alloc_between:
    "alloc s = Inr (p, s') \<Longrightarrow> top s \<le> unat p div 4096 \<and> unat p div 4096 < top s'"
  and alloc_aligned: "alloc s = Inr (p, s') \<Longrightarrow> unat p mod 4096 = 0"
begin

lemma alloc_frames_between:
  "alloc_frames alloc n s = Inr (ps, s') \<Longrightarrow>
     top s \<le> top s' \<and> (\<forall>p \<in> set ps. top s \<le> unat p div 4096 \<and> unat p div 4096 < top s')"
proof (induction n arbitrary: s ps)
  case 0
  then show ?case by simp
next
  case (Suc n)
  then obtain p s1 qs where p: "alloc s = Inr (p, s1)" and ps: "ps = p # qs"
    and qs: "alloc_frames alloc n s1 = Inr (qs, s')"
    by (auto simp: rbind_eq_Inr)
  from alloc_between [OF p] Suc.IH [OF qs] show ?case by (fastforce simp: ps)
qed

lemma alloc_frames_aligned:
  "alloc_frames alloc n s = Inr (ps, s') \<Longrightarrow> \<forall>p \<in> set ps. unat p mod 4096 = 0"
  by (induction n arbitrary: s ps s') (auto simp: rbind_eq_Inr dest: alloc_aligned)

lemma alloc_frames_increasing:
  "alloc_frames alloc n s = Inr (ps, s') \<Longrightarrow> sorted_wrt (<) (map (\<lambda>p. unat p div 4096) ps)"
proof (induction n arbitrary: s ps)
  case 0
  then show ?case by simp
next
  case (Suc n)
  then obtain p s1 qs where p: "alloc s = Inr (p, s1)" and ps: "ps = p # qs"
    and qs: "alloc_frames alloc n s1 = Inr (qs, s')"
    by (auto simp: rbind_eq_Inr)
  from alloc_between [OF p] alloc_frames_between [OF qs] Suc.IH [OF qs] show ?case
    by (fastforce simp: ps)
qed

lemma alloc_frames_distinct:
  "alloc_frames alloc n s = Inr (ps, s') \<Longrightarrow> distinct ps"
  by (drule alloc_frames_increasing) (simp add: strict_sorted_iff distinct_map)

end

end
