(* ===== verification/PhysicalMemory.thy ===== *)
theory PhysicalMemory
  imports Libc Frame_Source
begin

unbundle bit_operations_syntax

text \<open>
  The physical page allocator (\<open>kernel/src/MM/PhysicalMemory.c\<close>): a bitmap with two bits per
  page frame, four frames to a byte, and a search start \<open>MmPmBitmapTop\<close>. The array is a
  function of its index with the bound \<open>MM_BITMAP_SIZE / 4\<close> checked on every access.
\<close>

subsection \<open>State and operations\<close>

record pm_state =
  MmPmBitmap :: bytes
  MmPmBitmapTop :: u32

definition MM_BITMAP_SIZE :: u32 where "MM_BITMAP_SIZE = 1048576"

definition MmPmPageFree :: u8 where "MmPmPageFree = 0"
definition MmPmPageUsed :: u8 where "MmPmPageUsed = 1"
definition MmPmPageUnusable :: u8 where "MmPmPageUnusable = 2"

text \<open>\<open>(index & 3) * 2\<close>, the shift of a frame's field in its byte.\<close>

definition pm_shift :: "u32 \<Rightarrow> nat" where
  "pm_shift index = unat ((index AND 3) * 2)"

definition MmPmSetBitmapValue :: "bytes \<Rightarrow> u32 \<Rightarrow> u8 \<Rightarrow> bytes res" where
  "MmPmSetBitmapValue bm index val =
     (let b = drop_bit 2 index in
      if b < MM_BITMAP_SIZE div 4 then
        (let bm1 = bm(b := bm b AND push_bit (pm_shift index) 3);
             bm2 = (if val > 0 then bm1(b := bm1 b OR push_bit (pm_shift index) val) else bm1)
         in Inr bm2)
      else Inl (BadAccess b))"

definition MmPmGetBitmapValue :: "bytes \<Rightarrow> u32 \<Rightarrow> u8 res" where
  "MmPmGetBitmapValue bm index =
     (let b = drop_bit 2 index in
      if b < MM_BITMAP_SIZE div 4 then Inr (drop_bit (pm_shift index) (bm b) AND 3)
      else Inl (BadAccess b))"

definition MmPmInitAllocator :: "linker \<Rightarrow> 'z pm_state_scheme \<Rightarrow> 'z pm_state_scheme" where
  "MmPmInitAllocator L s =
     (let bm1 = memset (MmPmBitmap s) 0 (ucast MmPmPageFree) (MM_BITMAP_SIZE div 4);
          bm2 = memset bm1 0 (ucast MmPmPageUnusable) 64;
          bm3 = memset bm2 64 (ucast MmPmPageUsed) (KernelSizePages L)
      in s\<lparr>MmPmBitmap := bm3, MmPmBitmapTop := 64 + KernelSizePages L\<rparr>)"

text \<open>The search loop of \<open>MmPmAllocate\<close>: the first free frame from \<open>i\<close> on.\<close>

function pm_search :: "bytes \<Rightarrow> u32 \<Rightarrow> u32 option res" where
  "pm_search bm i =
     (if i < MM_BITMAP_SIZE then
        rbind (MmPmGetBitmapValue bm i) (\<lambda>v.
          if v = MmPmPageFree then Inr (Some i) else pm_search bm (i + 1))
      else Inr None)"
  by pat_completeness auto
termination
  by (relation "measure (\<lambda>(bm, i). unat MM_BITMAP_SIZE - unat i)") (auto simp: measure_up32)

declare pm_search.simps [simp del]

definition MmPmAllocate :: "'z pm_state_scheme \<Rightarrow> (u32 \<times> 'z pm_state_scheme) res" where
  "MmPmAllocate s =
     rbind (pm_search (MmPmBitmap s) (MmPmBitmapTop s)) (\<lambda>found.
       case found of
         None \<Rightarrow> Inl (Panic ''Could not allocate physical page!'')
       | Some i \<Rightarrow>
           rbind (MmPmSetBitmapValue (MmPmBitmap s) i MmPmPageUsed) (\<lambda>bm.
             Inr (push_bit 12 i, s\<lparr>MmPmBitmapTop := i + 1, MmPmBitmap := bm\<rparr>)))"

definition MmPmFree :: "'z pm_state_scheme \<Rightarrow> u32 \<Rightarrow> 'z pm_state_scheme res" where
  "MmPmFree s phys =
     (let pageIndex = drop_bit 10 phys in
      rbind (MmPmGetBitmapValue (MmPmBitmap s) pageIndex) (\<lambda>v.
        if v \<noteq> MmPmPageUsed
        then Inl (Panic ''Attempting to free page not marked as used!'')
        else rbind (MmPmSetBitmapValue (MmPmBitmap s) pageIndex MmPmPageFree) (\<lambda>bm.
          Inr (s\<lparr>MmPmBitmap := bm,
                 MmPmBitmapTop :=
                   (if MmPmBitmapTop s > pageIndex then pageIndex else MmPmBitmapTop s)\<rparr>))))"

subsection \<open>Fields of the bitmap\<close>

text \<open>\<open>pm_field bm i\<close> is the two-bit value the bitmap holds for frame \<open>i\<close>.\<close>

lemma three_mask: "(3 :: 'a::len word) = mask 2"
  by (simp add: mask_eq_exp_minus_1)

lemma pm_shift: "pm_shift i = 2 * (unat i mod 4)"
  by (simp add: pm_shift_def three_mask unat_word_ariths take_bit_eq_mask [symmetric]
      unsigned_take_bit_eq take_bit_eq_mod)

lemma field_keep:
  "j < 4 \<Longrightarrow> k < 4 \<Longrightarrow> drop_bit (2 * k) (b AND push_bit (2 * j) 3) AND 3
     = (if j = k then drop_bit (2 * k) b AND 3 else 0)" for b :: u8 and j k :: nat
  unfolding three_mask by (rule bit_word_eqI) (auto simp: bit_simps)

lemma field_new:
  fixes v :: u8
  assumes "j < 4" "k < 4" "v < 4"
  shows "drop_bit (2 * k) (push_bit (2 * j) v) AND 3 = (if j = k then v else 0)"
proof -
  have v: "take_bit 2 v = v"
    using less_mask_eq [of v 2] assms by (simp add: take_bit_eq_mask)
  have low: "n < 2" if "bit v n" for n
    using v that by (metis bit_take_bit_iff)
  then show ?thesis
    using assms unfolding three_mask by (intro bit_word_eqI) (auto simp: bit_simps dest: low)
qed

definition pm_field :: "bytes \<Rightarrow> u32 \<Rightarrow> u8" where
  "pm_field bm i = drop_bit (pm_shift i) (bm (drop_bit 2 i)) AND 3"

lemma unat_drop2: "unat (drop_bit 2 i) = unat i div 4" for i :: u32
  by (simp add: drop_bit_eq_div unat_div)

lemma pm_field_less [simp]: "pm_field bm i < 4" 
  unfolding pm_field_def three_mask by (rule le_less_trans [OF word_and_le1]) (simp add: mask_eq_exp_minus_1)
lemma drop2_mod4: "drop_bit 2 i = drop_bit 2 j \<Longrightarrow> unat i mod 4 = unat j mod 4 \<Longrightarrow> i = j" for i j :: u32
  by (metis unat_drop2 div_mult_mod_eq word_unat_eq_iff)
lemma in_bounds: "drop_bit 2 i < MM_BITMAP_SIZE div 4 \<longleftrightarrow> i < MM_BITMAP_SIZE"
  by (auto simp: MM_BITMAP_SIZE_def word_less_nat_alt unat_drop2)

lemma Get_eq: "MmPmGetBitmapValue bm i =
    (if i < MM_BITMAP_SIZE then Inr (pm_field bm i) else Inl (BadAccess (drop_bit 2 i)))"
  by (simp add: MmPmGetBitmapValue_def Let_def in_bounds pm_field_def)

text \<open>
  What \<open>MmPmSetBitmapValue\<close> really does: the mask keeps the frame's own field instead of the
  other three, so the new value is or-ed into the old one and the neighbours in the byte are
  cleared.
\<close>

definition pm_write :: "bytes \<Rightarrow> u32 \<Rightarrow> u8 \<Rightarrow> bytes" where
  "pm_write bm i v =
     bm(drop_bit 2 i := (bm (drop_bit 2 i) AND push_bit (pm_shift i) 3) OR push_bit (pm_shift i) v)"

lemma Set_eq: "MmPmSetBitmapValue bm i v =
    (if i < MM_BITMAP_SIZE then Inr (pm_write bm i v) else Inl (BadAccess (drop_bit 2 i)))"
  by (auto simp: MmPmSetBitmapValue_def Let_def in_bounds pm_write_def word_gt_0)

lemma field_write:
  assumes "v < 4"
  shows "pm_field (pm_write bm i v) j =
    (if j = i then pm_field bm i OR v
     else if drop_bit 2 j = drop_bit 2 i then 0 else pm_field bm j)"
proof (cases "drop_bit 2 j = drop_bit 2 i")
  case True
  have lt: "unat i mod 4 < 4" "unat j mod 4 < 4" by simp_all
  have same: "j = i \<longleftrightarrow> unat i mod 4 = unat j mod 4"
    using drop2_mod4 True by metis
  from True show ?thesis
    by (simp add: pm_field_def pm_write_def pm_shift bit.conj_disj_distrib2 same
        field_keep [OF lt] field_new [OF lt assms] del: drop_bit_and)
next
  case False
  then show ?thesis by (auto simp: pm_field_def pm_write_def)
qed

lemmas pm_values = MmPmPageFree_def MmPmPageUsed_def MmPmPageUnusable_def

text \<open>The abstract view of a state: the status of every frame.\<close>

definition page_status :: "'z pm_state_scheme \<Rightarrow> u32 \<Rightarrow> u8" where
  "page_status s i = pm_field (MmPmBitmap s) i"

subsection \<open>The search\<close>

lemma pm_search_cases:
  "(case pm_search bm i of
      Inl e \<Rightarrow> False
    | Inr None \<Rightarrow> \<forall>j. i \<le> j \<and> j < MM_BITMAP_SIZE \<longrightarrow> pm_field bm j \<noteq> MmPmPageFree
    | Inr (Some k) \<Rightarrow> i \<le> k \<and> k < MM_BITMAP_SIZE \<and> pm_field bm k = MmPmPageFree \<and>
        (\<forall>j. i \<le> j \<and> j < k \<longrightarrow> pm_field bm j \<noteq> MmPmPageFree))"
proof (induction bm i rule: pm_search.induct)
  case (1 bm i)
  consider (out) "\<not> i < MM_BITMAP_SIZE"
    | (hit) "i < MM_BITMAP_SIZE" "pm_field bm i = MmPmPageFree"
    | (go) "i < MM_BITMAP_SIZE" "pm_field bm i \<noteq> MmPmPageFree"
    by blast
  then show ?case
  proof cases
    case go
    have le: "i \<le> j \<longleftrightarrow> i + 1 \<le> j \<or> j = i" for j
      using word_inc_le_iff [OF go(1)] .
    have rec: "pm_search bm i = pm_search bm (i + 1)"
      using go by (simp add: pm_search.simps [of bm i] Get_eq)
    have "i \<le> k" if "i + 1 \<le> k" for k
      using that le by blast
    with 1 [OF go(1), of "pm_field bm i"] go show ?thesis
      unfolding rec by (auto simp: Get_eq le split: sum.splits option.splits)
  qed (auto simp: pm_search.simps [of bm i] Get_eq)
qed

lemma pm_search_not_Inl [simp]: "pm_search bm i \<noteq> Inl e"
  using pm_search_cases [of i bm] by auto

lemma pm_search_Some:
  "pm_search bm i = Inr (Some k) \<Longrightarrow>
    i \<le> k \<and> k < MM_BITMAP_SIZE \<and> pm_field bm k = MmPmPageFree \<and>
    (\<forall>j. i \<le> j \<and> j < k \<longrightarrow> pm_field bm j \<noteq> MmPmPageFree)"
  using pm_search_cases [of i bm] by simp

lemma pm_search_None:
  "pm_search bm i = Inr None \<Longrightarrow> i \<le> j \<Longrightarrow> j < MM_BITMAP_SIZE \<Longrightarrow> pm_field bm j \<noteq> MmPmPageFree"
  using pm_search_cases [of i bm] by simp

subsection \<open>Allocation\<close>

lemma MmPmAllocate_eq: "MmPmAllocate s =
    (case pm_search (MmPmBitmap s) (MmPmBitmapTop s) of
       Inr (Some i) \<Rightarrow>
         Inr (push_bit 12 i, s\<lparr>MmPmBitmapTop := i + 1, MmPmBitmap := pm_write (MmPmBitmap s) i 1\<rparr>)
     | _ \<Rightarrow> Inl (Panic ''Could not allocate physical page!''))"
  by (auto simp: MmPmAllocate_def Set_eq pm_values dest: pm_search_Some
      split: sum.splits option.splits)

lemma MmPmAllocate_InrE:
  assumes "MmPmAllocate s = Inr (p, s')"
  obtains i where "p = push_bit 12 i" "MmPmBitmapTop s \<le> i" "i < MM_BITMAP_SIZE"
    "page_status s i = MmPmPageFree"
    "\<forall>j. MmPmBitmapTop s \<le> j \<and> j < i \<longrightarrow> page_status s j \<noteq> MmPmPageFree"
    "s' = s\<lparr>MmPmBitmapTop := i + 1, MmPmBitmap := pm_write (MmPmBitmap s) i 1\<rparr>"
  using assms by (auto simp: MmPmAllocate_eq page_status_def dest!: pm_search_Some
      split: sum.splits option.splits)

lemma frame_number:
  "i < MM_BITMAP_SIZE \<Longrightarrow> unat (push_bit 12 i) = unat i * 4096"
  by (simp add: MM_BITMAP_SIZE_def push_bit_eq_mult unat_word_ariths word_less_nat_alt)

lemma next_frame: "i < MM_BITMAP_SIZE \<Longrightarrow> unat (i + 1) = Suc (unat i)"
  by (rule unat_inc32)

interpretation pm: frame_source
  "MmPmAllocate :: 'z pm_state_scheme \<Rightarrow> (u32 \<times> 'z pm_state_scheme) res"
  "\<lambda>s. unat (MmPmBitmapTop s)"
proof (unfold_locales, goal_cases)
  case (1 s p s')
  then show ?case
    by (elim MmPmAllocate_InrE) (simp add: frame_number next_frame word_le_nat_alt)
next
  case (2 s p s')
  then show ?case by (elim MmPmAllocate_InrE) (simp add: frame_number)
qed

lemma status_write:
  "v < 4 \<Longrightarrow> page_status (s\<lparr>MmPmBitmapTop := t, MmPmBitmap := pm_write (MmPmBitmap s) i v\<rparr>) j =
    (if j = i then page_status s i OR v
     else if drop_bit 2 j = drop_bit 2 i then 0 else page_status s j)"
  by (simp add: page_status_def field_write)



text \<open>
  C25. However many frames are allocated in a row, they are pairwise distinct, in increasing
  order, page aligned, and none of them lies below the mark at the start: without a
  \<open>MmPmFree\<close> in between no frame is handed out twice, although each allocation clears the
  fields of the neighbouring frames.
\<close>

theorem allocated_frames_distinct:
  assumes "alloc_frames MmPmAllocate n s = Inr (ps, s')"
  shows "length ps = n \<and> distinct ps \<and> sorted_wrt (<) (map (\<lambda>p. unat p div 4096) ps) \<and>
    (\<forall>p \<in> set ps. unat p mod 4096 = 0 \<and> unat (MmPmBitmapTop s) \<le> unat p div 4096)"
  using alloc_frames_length [OF assms] pm.alloc_frames_distinct [OF assms]
    pm.alloc_frames_increasing [OF assms] pm.alloc_frames_aligned [OF assms]
    pm.alloc_frames_between [OF assms]
  by blast

theorem allocated_frames_distinct_witness:
  "\<exists>s'. alloc_frames MmPmAllocate 3 \<lparr>MmPmBitmap = (\<lambda>_. 0), MmPmBitmapTop = 5\<rparr>
      = Inr ([0x5000, 0x6000, 0x7000], s') \<and> distinct [0x5000, 0x6000, 0x7000 :: u32]"
proof -
  let ?s = "\<lparr>MmPmBitmap = (\<lambda>_. 0), MmPmBitmapTop = 5\<rparr> :: pm_state"
  obtain s' where eq: "alloc_frames MmPmAllocate 3 ?s = Inr ([0x5000, 0x6000, 0x7000], s')"
    by (simp add: numeral_3_eq_3 MmPmAllocate_eq pm_search.simps Get_eq pm_field_def pm_shift
        MM_BITMAP_SIZE_def pm_values pm_write_def push_bit_eq_mult)
  from allocated_frames_distinct [OF eq] eq show ?thesis by blast
qed

subsection \<open>Freeing\<close>

text \<open>The three ways \<open>MmPmFree\<close> ends, by the status of the frame number it computes.\<close>

lemma MmPmFree_eq: "MmPmFree s phys =
    (let i = drop_bit 10 phys in
     if \<not> i < MM_BITMAP_SIZE then Inl (BadAccess (drop_bit 2 i))
     else if page_status s i \<noteq> MmPmPageUsed
     then Inl (Panic ''Attempting to free page not marked as used!'')
     else Inr (s\<lparr>MmPmBitmap := pm_write (MmPmBitmap s) i MmPmPageFree,
                 MmPmBitmapTop := (if MmPmBitmapTop s > i then i else MmPmBitmapTop s)\<rparr>))"
  by (simp add: MmPmFree_def Let_def Get_eq Set_eq page_status_def)

text \<open>
  C29. A successful \<open>MmPmFree\<close> does not free: the frame whose number it computed keeps the
  status \<open>used\<close>, because \<open>MmPmSetBitmapValue\<close> masks with the field instead of its complement.
  What it does change is that the other three frames of the same bitmap byte become free,
  whatever they were, and that the mark moves down to the frame at the latest.
\<close>

theorem MmPmFree_keeps_used_and_clears_neighbours:
  assumes "MmPmFree s phys = Inr s'"
  shows "page_status s' (drop_bit 10 phys) = MmPmPageUsed \<and>
    (\<forall>j. j \<noteq> drop_bit 10 phys \<and> drop_bit 2 j = drop_bit 12 phys \<longrightarrow> page_status s' j = MmPmPageFree) \<and>
    (\<forall>j. drop_bit 2 j \<noteq> drop_bit 12 phys \<longrightarrow> page_status s' j = page_status s j) \<and>
    MmPmBitmapTop s' \<le> drop_bit 10 phys"
  using assms
  by (auto simp: MmPmFree_eq Let_def page_status_def field_write pm_values split: if_splits)

theorem MmPmFree_keeps_used_and_clears_neighbours_witness:
  "\<exists>s'. MmPmFree \<lparr>MmPmBitmap = (\<lambda>_. 0x55), MmPmBitmapTop = 500\<rparr> 0x4000 = Inr s' \<and>
     page_status s' 16 = MmPmPageUsed \<and> page_status s' 17 = MmPmPageFree \<and>
     page_status s' 20 = MmPmPageUsed \<and> MmPmBitmapTop s' \<le> 16"
proof -
  let ?s = "\<lparr>MmPmBitmap = (\<lambda>_. 0x55), MmPmBitmapTop = 500\<rparr> :: pm_state"
  obtain s' where eq: "MmPmFree ?s 0x4000 = Inr s'"
    by (simp add: MmPmFree_eq page_status_def pm_field_def pm_shift MM_BITMAP_SIZE_def pm_values)
  have "page_status ?s 20 = MmPmPageUsed"
    by (simp add: page_status_def pm_field_def pm_shift pm_values)
  with MmPmFree_keeps_used_and_clears_neighbours [OF eq] eq show ?thesis
    by (auto intro!: exI [of _ s'])
qed

subsection \<open>The state at boot\<close>

text \<open>The image has to fit the bitmap for the \<open>memset\<close> calls to stay inside it.\<close>

definition image_fits :: "linker \<Rightarrow> bool" where
  "image_fits L \<longleftrightarrow> unat (KernelSizePages L) < 262080"

lemma boot_byte:
  assumes "image_fits L" "unat b < 262144"
  shows "MmPmBitmap (MmPmInitAllocator L s) b =
    (if unat b < 64 then 2 else if unat b < 64 + unat (KernelSizePages L) then 1 else 0)"
proof -
  have "b - 64 < KernelSizePages L \<longleftrightarrow> 64 \<le> unat b \<and> unat b < 64 + unat (KernelSizePages L)"
    using assms by (auto simp: image_fits_def word_less_nat_alt unat_sub_if')
  with assms show ?thesis
    by (auto simp: MmPmInitAllocator_def Let_def memset_apply pm_values MM_BITMAP_SIZE_def
        word_less_nat_alt)
qed

lemma boot_status:
  assumes "image_fits L" "i < MM_BITMAP_SIZE"
  shows "page_status (MmPmInitAllocator L s) i =
    (if unat i mod 4 \<noteq> 0 then MmPmPageFree
     else if unat i < 256 then MmPmPageUnusable
     else if unat i < 4 * (64 + unat (KernelSizePages L)) then MmPmPageUsed else MmPmPageFree)"
proof -
  have b: "unat (drop_bit 2 i) < 262144"
    using assms(2) by (simp add: unat_drop2 MM_BITMAP_SIZE_def word_less_nat_alt)
  have "unat i mod 4 = 0 \<or> unat i mod 4 = 1 \<or> unat i mod 4 = 2 \<or> unat i mod 4 = 3" by arith
  then show ?thesis
    by (auto simp: page_status_def pm_field_def boot_byte [OF assms(1) b] pm_shift pm_values
        unat_drop2)
qed

text \<open>
  The frame number the first allocation after boot returns: \<open>MmPmInitAllocator\<close> gives byte
  counts where frame counts are meant, so the mark is \<open>64 + KernelSizePages\<close> although the
  kernel image starts at frame 256, and only every fourth frame of it is marked.
\<close>

definition first_boot_frame :: "linker \<Rightarrow> u32" where
  "first_boot_frame L =
     (if unat (KernelSizePages L) mod 4 = 0 then 65 + KernelSizePages L else 64 + KernelSizePages L)"

lemma unat_first_boot_frame:
  "image_fits L \<Longrightarrow> unat (first_boot_frame L) =
    (if unat (KernelSizePages L) mod 4 = 0 then 65 else 64) + unat (KernelSizePages L)"
  by (auto simp: first_boot_frame_def image_fits_def unat_word_ariths)

lemma boot_search:
  assumes "image_fits L"
  shows "pm_search (MmPmBitmap (MmPmInitAllocator L s)) (64 + KernelSizePages L)
    = Inr (Some (first_boot_frame L))"
proof -
  let ?bm = "MmPmBitmap (MmPmInitAllocator L s)" and ?i = "64 + KernelSizePages L"
  have u: "unat ?i = 64 + unat (KernelSizePages L)"
    "unat (65 + KernelSizePages L) = 65 + unat (KernelSizePages L)"
    using assms by (auto simp: image_fits_def unat_word_ariths)
  have b: "?i < MM_BITMAP_SIZE" "65 + KernelSizePages L < MM_BITMAP_SIZE"
    using assms u by (simp_all add: image_fits_def MM_BITMAP_SIZE_def word_less_nat_alt)
  have f: "pm_field ?bm i = page_status (MmPmInitAllocator L s) i" for i
    by (simp add: page_status_def)
  have next_i: "?i + 1 = 65 + KernelSizePages L" by simp
  have mod4: "(64 + k) mod 4 = k mod 4" "k mod 4 = 0 \<Longrightarrow> (65 + k) mod 4 = 1" for k :: nat
    by presburger+
  show ?thesis
  proof (cases "unat (KernelSizePages L) mod 4 = 0")
    case True
    with assms b u show ?thesis
      by (simp add: pm_search.simps [of ?bm ?i] pm_search.simps [of ?bm "65 + KernelSizePages L"]
        Get_eq f boot_status first_boot_frame_def pm_values mod4 next_i)
  next
    case False
    with assms b u show ?thesis
      by (simp add: pm_search.simps [of ?bm ?i] Get_eq f boot_status first_boot_frame_def pm_values
        mod4)
  qed
qed

lemma boot_allocate:
  "image_fits L \<Longrightarrow> MmPmAllocate (MmPmInitAllocator L s) =
    Inr (push_bit 12 (first_boot_frame L),
         (MmPmInitAllocator L s)\<lparr>MmPmBitmapTop := first_boot_frame L + 1,
            MmPmBitmap := pm_write (MmPmBitmap (MmPmInitAllocator L s)) (first_boot_frame L) 1\<rparr>)"
  using boot_search [of L s] by (simp add: MmPmAllocate_eq MmPmInitAllocator_def Let_def)

text \<open>
  For every kernel image of 192 pages or more that fits the bitmap, the first page the
  physical allocator hands out after boot lies inside the kernel image itself
  (\<open>PhysicalAddress\<close> up to \<open>PhysicalAddress + KernelSizePages * 4096\<close>).
\<close>

lemma first_page_lies_in_the_kernel_image:
  assumes "image_fits L" "192 \<le> unat (KernelSizePages L)"
  shows "\<exists>p s'. MmPmAllocate (MmPmInitAllocator L s) = Inr (p, s') \<and>
    unat PhysicalAddress \<le> unat p \<and>
    unat p < unat PhysicalAddress + unat (KernelSizePages L) * 4096"
proof -
  have "first_boot_frame L < MM_BITMAP_SIZE"
    using assms by (simp add: word_less_nat_alt unat_first_boot_frame image_fits_def MM_BITMAP_SIZE_def)
  then show ?thesis
    using assms
    by (simp add: boot_allocate frame_number unat_first_boot_frame PhysicalAddress_def)
qed

lemma first_page_lies_in_the_kernel_image_witness:
  "\<exists>p s'. MmPmAllocate (MmPmInitAllocator
       sample_image \<lparr>MmPmBitmap = (\<lambda>_. 0), MmPmBitmapTop = 0\<rparr>) = Inr (p, s') \<and>
     unat PhysicalAddress \<le> unat p \<and> unat p < unat PhysicalAddress + 230 * 4096"
  using first_page_lies_in_the_kernel_image
    [of sample_image "\<lparr>MmPmBitmap = (\<lambda>_. 0), MmPmBitmapTop = 0\<rparr>"]
  by (simp add: image_fits_def)

text \<open>
  Giving the first page straight back never succeeds: \<open>MmPmFree\<close> shifts by 10 where the
  page number is the address shifted by 12, looks at the frame with four times the number, and
  panics because that frame is not marked used.
\<close>

lemma freeing_the_first_page_panics:
  assumes "image_fits L" "unat (KernelSizePages L) < 262000"
    and "MmPmAllocate (MmPmInitAllocator L s) = Inr (p, s')"
  shows "MmPmFree s' p = Inl (Panic ''Attempting to free page not marked as used!'')"
proof -
  let ?f = "first_boot_frame L" and ?b = "MmPmInitAllocator L s"
  have uf: "unat ?f \<ge> 64 + unat (KernelSizePages L)" "unat ?f < 262144"
    using assms by (auto simp: unat_first_boot_frame)
  have p: "p = push_bit 12 ?f"
    and s': "s' = ?b\<lparr>MmPmBitmapTop := ?f + 1, MmPmBitmap := pm_write (MmPmBitmap ?b) ?f 1\<rparr>"
    using assms by (simp_all add: boot_allocate)
  have lt: "?f < MM_BITMAP_SIZE"
    using uf by (simp add: word_less_nat_alt MM_BITMAP_SIZE_def)
  have idx: "unat (drop_bit 10 p) = 4 * unat ?f"
    using frame_number [OF lt] by (simp add: p drop_bit_eq_div unat_div)
  then have idx_lt: "drop_bit 10 p < MM_BITMAP_SIZE"
    using uf by (simp add: word_less_nat_alt MM_BITMAP_SIZE_def)
  have other: "drop_bit 2 (drop_bit 10 p) \<noteq> drop_bit 2 ?f"
  proof
    assume "drop_bit 2 (drop_bit 10 p) = drop_bit 2 ?f"
    then have "unat (drop_bit 10 p) div 4 = unat ?f div 4" by (metis unat_drop2)
    then show False using idx uf by simp
  qed
  then have "drop_bit 10 p \<noteq> ?f" by metis
  with other have "page_status s' (drop_bit 10 p) = page_status ?b (drop_bit 10 p)"
    by (auto simp: s' status_write)
  also have "\<dots> = MmPmPageFree"
    using uf by (simp add: boot_status [OF assms(1) idx_lt] idx)
  finally show ?thesis
    using idx_lt by (simp add: MmPmFree_eq Let_def pm_values)
qed

lemma freeing_the_first_page_panics_witness:
  "\<exists>p s'. MmPmAllocate (MmPmInitAllocator
       sample_image \<lparr>MmPmBitmap = (\<lambda>_. 0), MmPmBitmapTop = 0\<rparr>) = Inr (p, s') \<and>
     MmPmFree s' p = Inl (Panic ''Attempting to free page not marked as used!'')"
proof -
  let ?s = "\<lparr>MmPmBitmap = (\<lambda>_. 0), MmPmBitmapTop = 0\<rparr> :: pm_state"
  have fits: "image_fits sample_image" "unat (KernelSizePages sample_image) < 262000"
    by (simp_all add: image_fits_def)
  show ?thesis
    using boot_allocate [OF fits(1), of ?s] freeing_the_first_page_panics [OF fits, of ?s] by blast
qed

end
