(* ===== verification/PageTables.thy ===== *)
theory PageTables
  imports PhysicalMemory
begin

text \<open>
  The paging structures and the functions that read them (\<open>kernel/include/MM/Paging.h\<close>, first
  half of \<open>kernel/src/MM/Paging.c\<close>). Physical memory is a map from the address of a word to the
  word. The statically allocated tables (\<open>KernelPageTables\<close>, \<open>ZeroIdentityPage\<close>) live in the
  kernel image, which the linker script places at \<open>PhysicalAddress\<close>; they are reached at their
  physical place. Pointers that are computed at run time are dereferenced through the processor's
  own two-level page walk, \<open>mmu_walk\<close>, so the aliasing between a table and the memory it maps is
  part of the model.
\<close>

unbundle bit_operations_syntax

record mm_state = pm_state +
  pmem :: "u32 \<Rightarrow> u32"
  cr3 :: u32
  CurrentPageDirectoryPhys :: u32
  CurrentPageDirectory :: ptr

subsection \<open>Entries\<close>

text \<open>
  \<open>PageTableEntry\<close> and \<open>PageDirectoryEntry\<close> are unions of a raw word and its bit fields: bit 0
  \<open>Present\<close>, bit 1 \<open>Writable\<close>, bit 2 \<open>User\<close>, bits 12 to 31 \<open>PhysAddress\<close>.
\<close>

definition Present :: "u32 \<Rightarrow> bool" where "Present r = bit r 0"
definition Writable :: "u32 \<Rightarrow> bool" where "Writable r = bit r 1"
definition User :: "u32 \<Rightarrow> bool" where "User r = bit r 2"
definition PhysAddress :: "u32 \<Rightarrow> u32" where "PhysAddress r = drop_bit 12 r"

definition put_bit :: "nat \<Rightarrow> bool \<Rightarrow> u32 \<Rightarrow> u32" where
  "put_bit n b r = (if b then set_bit n r else unset_bit n r)"

definition set_Present :: "bool \<Rightarrow> u32 \<Rightarrow> u32" where "set_Present b r = put_bit 0 b r"
definition set_Writable :: "bool \<Rightarrow> u32 \<Rightarrow> u32" where "set_Writable b r = put_bit 1 b r"
definition set_User :: "bool \<Rightarrow> u32 \<Rightarrow> u32" where "set_User b r = put_bit 2 b r"
definition set_PhysAddress :: "u32 \<Rightarrow> u32 \<Rightarrow> u32" where
  "set_PhysAddress v r = (r AND mask 12) OR push_bit 12 v"

lemmas entry_defs = Present_def Writable_def User_def PhysAddress_def
  set_Present_def set_Writable_def set_User_def set_PhysAddress_def put_bit_def

lemma entry_bits [simp]:
  "Present (set_Present b r) = b" "Present (set_Writable b r) = Present r"
  "Present (set_User b r) = Present r" "Present (set_PhysAddress v r) = Present r"
  "Writable (set_Present b r) = Writable r" "Writable (set_Writable b r) = b"
  "Writable (set_User b r) = Writable r" "Writable (set_PhysAddress v r) = Writable r"
  "User (set_Present b r) = User r" "User (set_Writable b r) = User r"
  "User (set_User b r) = b" "User (set_PhysAddress v r) = User r"
  by (auto simp: entry_defs bit_simps)

lemma entry_frame [simp]:
  "PhysAddress (set_Present b r) = PhysAddress r" "PhysAddress (set_Writable b r) = PhysAddress r"
  "PhysAddress (set_User b r) = PhysAddress r"
  by (auto simp: entry_defs intro!: bit_word_eqI) (auto simp: bit_simps)

lemma PhysAddress_set: "PhysAddress (set_PhysAddress v r) = take_bit 20 v"
  by (auto simp: entry_defs intro!: bit_word_eqI) (auto simp: bit_simps)

subsection \<open>Addresses\<close>

definition K_VIRT_TO_PHYS :: "u32 \<Rightarrow> u32" where
  "K_VIRT_TO_PHYS virt = virt - 0xE0000000 + 0x100000"

definition K_PHYS_TO_VIRT :: "u32 \<Rightarrow> u32" where
  "K_PHYS_TO_VIRT phys = phys + 0xE0000000 - 0x100000"

definition KERNEL_PAGES :: nat where "KERNEL_PAGES = 131072"

text \<open>\<open>KernelPageTables[i]\<close>.\<close>

definition kpt_addr :: "linker \<Rightarrow> nat \<Rightarrow> u32" where
  "kpt_addr L i = K_VIRT_TO_PHYS (addr_KernelPageTables L + of_nat (4 * i))"

definition kpt :: "linker \<Rightarrow> 'z mm_state_scheme \<Rightarrow> nat \<Rightarrow> u32" where
  "kpt L s i = pmem s (kpt_addr L i)"

definition kpt_put :: "linker \<Rightarrow> nat \<Rightarrow> u32 \<Rightarrow> 'z mm_state_scheme \<Rightarrow> 'z mm_state_scheme" where
  "kpt_put L i w s = s\<lparr>pmem := (pmem s)(kpt_addr L i := w)\<rparr>"

lemma kpt_addr_inj:
  assumes "i < KERNEL_PAGES" "j < KERNEL_PAGES"
  shows "kpt_addr L i = kpt_addr L j \<longleftrightarrow> i = j"
proof -
  have "kpt_addr L i = kpt_addr L j \<longleftrightarrow> (of_nat (4 * i) :: u32) = of_nat (4 * j)"
    by (simp add: kpt_addr_def K_VIRT_TO_PHYS_def)
  also have "\<dots> \<longleftrightarrow> 4 * i = 4 * j"
    using assms by (intro of_nat32_inject) (simp_all add: KERNEL_PAGES_def)
  finally show ?thesis by simp
qed

lemma kpt_put [simp]:
  "i < KERNEL_PAGES \<Longrightarrow> j < KERNEL_PAGES \<Longrightarrow>
    kpt L (kpt_put L i w s) j = (if j = i then w else kpt L s j)"
  by (simp add: kpt_def kpt_put_def kpt_addr_inj)

lemma kpt_bitmap [simp]:
  "kpt L (s\<lparr>MmPmBitmap := b\<rparr>) i = kpt L s i" "kpt L (s\<lparr>MmPmBitmapTop := t\<rparr>) i = kpt L s i"
  by (simp_all add: kpt_def)

lemma bitmap_kpt_put [simp]:
  "MmPmBitmap (kpt_put L i w s) = MmPmBitmap s" "MmPmBitmapTop (kpt_put L i w s) = MmPmBitmapTop s"
  by (simp_all add: kpt_put_def)

subsection \<open>Memory access through the paging unit\<close>

text \<open>
  What the processor does with a linear address (32-bit paging, 4 KiB pages, supervisor mode with
  write protection off, as \<open>_start\<close> leaves it): the directory entry, then the table entry, both
  of which must be present.
\<close>

definition frame_of :: "u32 \<Rightarrow> u32" where
  "frame_of r = r AND 0xFFFFF000"

definition mmu_walk :: "(u32 \<Rightarrow> u32) \<Rightarrow> u32 \<Rightarrow> u32 \<Rightarrow> u32 option" where
  "mmu_walk mem dir virt =
     (let pde = mem (frame_of dir + 4 * drop_bit 22 virt) in
      if \<not> Present pde then None
      else let pte = mem (frame_of pde + 4 * (drop_bit 12 virt AND 1023)) in
           if \<not> Present pte then None
           else Some (frame_of pte + (virt AND 0xFFF)))"

definition load :: "'z mm_state_scheme \<Rightarrow> ptr \<Rightarrow> u32 res" where
  "load s p = (case mmu_walk (pmem s) (cr3 s) p of
      None \<Rightarrow> Inl (BadAccess p) | Some a \<Rightarrow> Inr (pmem s a))"

definition store :: "'z mm_state_scheme \<Rightarrow> ptr \<Rightarrow> u32 \<Rightarrow> 'z mm_state_scheme res" where
  "store s p w = (case mmu_walk (pmem s) (cr3 s) p of
      None \<Rightarrow> Inl (BadAccess p) | Some a \<Rightarrow> Inr (s\<lparr>pmem := (pmem s)(a := w)\<rparr>))"

subsection \<open>Walking the tables in software\<close>

text \<open>\<open>MmKernelPhysToVirt\<close>: the loop over the 131072 entries of \<open>KernelPageTables\<close>.\<close>

function phys_to_virt_loop :: "linker \<Rightarrow> 'z mm_state_scheme \<Rightarrow> u32 \<Rightarrow> nat \<Rightarrow> ptr" where
  "phys_to_virt_loop L s phys i =
     (if i < KERNEL_PAGES then
        (if kpt L s i AND NOT 0xFFF = phys AND NOT 0xFFF
         then (kpt L s i AND NOT 0xFFF) + (phys AND 0xFFF)
         else phys_to_virt_loop L s phys (Suc i))
      else NULL)"
  by pat_completeness auto
termination
  by (relation "measure (\<lambda>(L, s, phys, i). KERNEL_PAGES - i)") auto

declare phys_to_virt_loop.simps [simp del]

definition MmKernelPhysToVirt :: "linker \<Rightarrow> 'z mm_state_scheme \<Rightarrow> u32 \<Rightarrow> ptr" where
  "MmKernelPhysToVirt L s phys = phys_to_virt_loop L s phys 0"

definition MmGetTable :: "linker \<Rightarrow> 'z mm_state_scheme \<Rightarrow> ptr \<Rightarrow> int \<Rightarrow> ptr res" where
  "MmGetTable L s pde index =
     rbind (KAssert_res (0 \<le> index \<and> index \<le> 1023) ''index >= 0 && index <= 1023'') (\<lambda>_.
     rbind (load s (pde + 4 * of_int index)) (\<lambda>raw.
       if \<not> Present raw then Inr NULL
       else Inr (MmKernelPhysToVirt L s (raw AND 0xFFFFF000))))"

definition MmGetTableAddr :: "linker \<Rightarrow> 'z mm_state_scheme \<Rightarrow> ptr \<Rightarrow> u32 \<Rightarrow> ptr res" where
  "MmGetTableAddr L s pde virt = MmGetTable L s pde (uint (drop_bit 22 virt))"

definition MmGetTableEntry :: "linker \<Rightarrow> 'z mm_state_scheme \<Rightarrow> ptr \<Rightarrow> u32 \<Rightarrow> ptr res" where
  "MmGetTableEntry L s pde virt =
     rbind (MmGetTableAddr L s pde virt) (\<lambda>pte.
       Inr (if pte \<noteq> NULL then pte + 4 * (drop_bit 12 virt AND 1023) else NULL))"

definition MmVirtToPhys :: "linker \<Rightarrow> 'z mm_state_scheme \<Rightarrow> ptr \<Rightarrow> u32 \<Rightarrow> u32 res" where
  "MmVirtToPhys L s pde virt =
     rbind (KAssert_res (pde \<noteq> NULL) ''pde != NULL'') (\<lambda>_.
     rbind (MmGetTableEntry L s pde virt) (\<lambda>pte.
       if pte = NULL then Inr 0
       else rbind (load s pte) (\<lambda>raw. Inr (push_bit 12 (PhysAddress raw) + (virt AND 0xFFF)))))"

definition MmIsPresent :: "linker \<Rightarrow> 'z mm_state_scheme \<Rightarrow> u32 \<Rightarrow> bool res" where
  "MmIsPresent L s virt =
     rbind (MmGetTableEntry L s (CurrentPageDirectory s) virt) (\<lambda>pte.
       if pte = NULL then Inr False else rbind (load s pte) (\<lambda>raw. Inr (Present raw)))"

definition MmIsWritable :: "linker \<Rightarrow> 'z mm_state_scheme \<Rightarrow> u32 \<Rightarrow> bool res" where
  "MmIsWritable L s virt =
     rbind (MmGetTableEntry L s (CurrentPageDirectory s) virt) (\<lambda>pte.
       if pte = NULL then Inr False else rbind (load s pte) (\<lambda>raw. Inr (Writable raw)))"

definition MmIsUser :: "linker \<Rightarrow> 'z mm_state_scheme \<Rightarrow> u32 \<Rightarrow> bool res" where
  "MmIsUser L s virt =
     rbind (MmGetTableEntry L s (CurrentPageDirectory s) virt) (\<lambda>pte.
       if pte = NULL then Inr False else rbind (load s pte) (\<lambda>raw. Inr (User raw)))"

subsection \<open>What the software walk computes\<close>

lemma frame_split: "(x AND NOT 0xFFF) + (x AND 0xFFF) = x" for x :: u32
proof -
  have m: "(0xFFF :: u32) = mask 12" by (simp add: mask_eq_exp_minus_1)
  have "(x AND NOT (mask 12)) + (x AND mask 12) = (x AND NOT (mask 12)) OR (x AND mask 12)"
    by (rule disjunctive_add) (simp add: bit_simps)
  also have "\<dots> = x" by (rule bit_word_eqI) (auto simp: bit_simps)
  finally show ?thesis unfolding m .
qed

text \<open>Some page of kernel space is backed by the frame of \<open>phys\<close>.\<close>

definition in_kernel_tables :: "linker \<Rightarrow> 'z mm_state_scheme \<Rightarrow> u32 \<Rightarrow> bool" where
  "in_kernel_tables L s phys \<longleftrightarrow> (\<exists>i < KERNEL_PAGES. kpt L s i AND NOT 0xFFF = phys AND NOT 0xFFF)"

lemma frame_of_eq: "frame_of r = r AND NOT (mask 12)"
proof -
  have "(0xFFFFF000 :: u32) = NOT (mask 12)" by (simp add: mask_eq_exp_minus_1)
  then show ?thesis by (simp only: frame_of_def)
qed

lemma phys_to_virt_loop_eq:
  "phys_to_virt_loop L s phys i =
    (if \<exists>j < KERNEL_PAGES. i \<le> j \<and> kpt L s j AND NOT 0xFFF = phys AND NOT 0xFFF then phys else NULL)"
proof (induction L s phys i rule: phys_to_virt_loop.induct)
  case (1 L s phys i)
  show ?case
  proof (cases "i < KERNEL_PAGES")
    case True
    show ?thesis
    proof (cases "kpt L s i AND NOT 0xFFF = phys AND NOT 0xFFF")
      case hit: True
      with True have "\<exists>j < KERNEL_PAGES. i \<le> j \<and> kpt L s j AND NOT 0xFFF = phys AND NOT 0xFFF" by blast
      then show ?thesis using True hit frame_split [of phys]
        by (subst phys_to_virt_loop.simps) (simp only: if_True hit)
    next
      case False
      then have "(\<exists>j < KERNEL_PAGES. i \<le> j \<and> kpt L s j AND NOT 0xFFF = phys AND NOT 0xFFF) \<longleftrightarrow>
          (\<exists>j < KERNEL_PAGES. Suc i \<le> j \<and> kpt L s j AND NOT 0xFFF = phys AND NOT 0xFFF)"
        by (metis Suc_leD le_antisym not_less_eq_eq)
      with 1 [OF True False] True False show ?thesis
        by (subst phys_to_virt_loop.simps) (simp only: if_True if_False)
    qed
  next
    case False
    then show ?thesis by (subst phys_to_virt_loop.simps) auto
  qed
qed

lemma MmKernelPhysToVirt_eq: "MmKernelPhysToVirt L s phys = (if in_kernel_tables L s phys then phys else NULL)"
  by (simp add: MmKernelPhysToVirt_def phys_to_virt_loop_eq in_kernel_tables_def)

text \<open>
  \<open>MmKernelPhysToVirt\<close> finds whether some kernel page is backed by the frame of the address,
  but what it then returns is the physical address it was given, not the virtual address of
  that page; so the result is never another address.
\<close>

lemma MmKernelPhysToVirt_returns_its_argument:
  "MmKernelPhysToVirt L s phys =
     (if \<exists>i < KERNEL_PAGES. frame_of (kpt L s i) = frame_of phys then phys else NULL)"
proof -
  have "frame_of r = r AND NOT 0xFFF" for r
    unfolding frame_of_eq by (simp add: mask_eq_exp_minus_1)
  then show ?thesis by (simp only: MmKernelPhysToVirt_eq in_kernel_tables_def)
qed

text \<open>The table of \<open>virt\<close> is reached, entry by entry, at its physical address: either there is
  none, or its frame is identity mapped and known to the kernel tables.\<close>

definition table_frame :: "'z mm_state_scheme \<Rightarrow> u32 \<Rightarrow> u32" where
  "table_frame s virt = frame_of (pmem s (frame_of (cr3 s) + 4 * drop_bit 22 virt))"

definition dir_entry :: "'z mm_state_scheme \<Rightarrow> u32 \<Rightarrow> u32" where
  "dir_entry s virt = pmem s (frame_of (cr3 s) + 4 * drop_bit 22 virt)"

text \<open>\<open>d\<close> is a linear address of the current directory, as far as the entry of \<open>virt\<close> goes.\<close>

definition sees_directory :: "'z mm_state_scheme \<Rightarrow> ptr \<Rightarrow> u32 \<Rightarrow> bool" where
  "sees_directory s d virt \<longleftrightarrow> d \<noteq> NULL \<and>
     mmu_walk (pmem s) (cr3 s) (d + 4 * drop_bit 22 virt) = Some (frame_of (cr3 s) + 4 * drop_bit 22 virt)"

definition sees_table :: "linker \<Rightarrow> 'z mm_state_scheme \<Rightarrow> u32 \<Rightarrow> bool" where
  "sees_table L s virt \<longleftrightarrow>
     (let F = table_frame s virt; a = F + 4 * (drop_bit 12 virt AND 1023) in
      in_kernel_tables L s F \<and> F \<noteq> NULL \<and> a \<noteq> NULL \<and> mmu_walk (pmem s) (cr3 s) a = Some a)"

lemma index_bounds: "0 \<le> uint (drop_bit 22 v)" "uint (drop_bit 22 v) \<le> 1023" for v :: u32
proof -
  have "unat (drop_bit 22 v) = unat v div 4194304" by (simp add: drop_bit_eq_div unat_div)
  moreover have "unat v < 1024 * 4194304" using unsigned_less [of v] by simp
  then have "unat v div 4194304 < 1024" by (rule less_mult_imp_div_less)
  ultimately have "unat (drop_bit 22 v) \<le> 1023" by linarith
  moreover have "uint (drop_bit 22 v) = int (unat (drop_bit 22 v))" by (rule uint_nat)
  ultimately show "uint (drop_bit 22 v) \<le> 1023" by linarith
qed simp

lemma mmu_walk_eq: "mmu_walk (pmem s) (cr3 s) virt =
    (if \<not> Present (dir_entry s virt) then None
     else let pte = pmem s (table_frame s virt + 4 * (drop_bit 12 virt AND 1023)) in
       if \<not> Present pte then None else Some (frame_of pte + (virt AND 0xFFF)))"
  by (simp add: mmu_walk_def dir_entry_def table_frame_def Let_def)

lemma MmGetTableEntry_sees:
  assumes "sees_directory s d virt"
  shows "\<not> Present (dir_entry s virt) \<Longrightarrow> MmGetTableEntry L s d virt = Inr NULL"
    and "Present (dir_entry s virt) \<Longrightarrow> sees_table L s virt \<Longrightarrow>
      MmGetTableEntry L s d virt = Inr (table_frame s virt + 4 * (drop_bit 12 virt AND 1023))"
proof -
  have l: "load s (d + 4 * drop_bit 22 virt) = Inr (dir_entry s virt)"
    using assms by (simp add: load_def sees_directory_def dir_entry_def)
  note e = MmGetTableEntry_def MmGetTableAddr_def MmGetTable_def index_bounds l
  show "\<not> Present (dir_entry s virt) \<Longrightarrow> MmGetTableEntry L s d virt = Inr NULL"
    by (simp add: e)
  assume "Present (dir_entry s virt)" "sees_table L s virt"
  moreover have "dir_entry s virt AND 0xFFFFF000 = table_frame s virt"
    by (simp add: table_frame_def dir_entry_def frame_of_def)
  ultimately show "MmGetTableEntry L s d virt = Inr (table_frame s virt + 4 * (drop_bit 12 virt AND 1023))"
    by (simp add: e MmKernelPhysToVirt_eq sees_table_def Let_def)
qed

lemma shift_frame: "push_bit 12 (PhysAddress r) = frame_of r"
  unfolding PhysAddress_def frame_of_eq by (rule bit_word_eqI) (auto simp: bit_simps)

text \<open>
  C18. Where the directory is seen at \<open>d\<close> and the page table of \<open>virt\<close> at its physical address,
  the software walk agrees with the processor: \<open>MmVirtToPhys\<close> returns the frame and offset of
  the table entry, which is the processor's translation whenever there is one, and 0 when there
  is no table. It does not look at the entry's present bit.
\<close>

theorem MmVirtToPhys_agrees_with_mmu:
  assumes "sees_directory s d virt" "Present (dir_entry s virt) \<longrightarrow> sees_table L s virt"
  shows "MmVirtToPhys L s d virt =
      Inr (if \<not> Present (dir_entry s virt) then 0
           else frame_of (pmem s (table_frame s virt + 4 * (drop_bit 12 virt AND 1023))) + (virt AND 0xFFF)) \<and>
    (\<forall>a. mmu_walk (pmem s) (cr3 s) virt = Some a \<longrightarrow> MmVirtToPhys L s d virt = Inr a) \<and>
    (CurrentPageDirectory s = d \<longrightarrow> MmIsPresent L s virt = Inr (mmu_walk (pmem s) (cr3 s) virt \<noteq> None))"
proof (cases "Present (dir_entry s virt)")
  case False
  note g = MmGetTableEntry_sees(1) [OF assms(1) False, of L]
  have "d \<noteq> NULL" using assms(1) by (simp add: sees_directory_def)
  with g False show ?thesis by (simp add: MmVirtToPhys_def MmIsPresent_def mmu_walk_eq)
next
  case True
  with assms(2) have t: "sees_table L s virt" by simp
  let ?a = "table_frame s virt + 4 * (drop_bit 12 virt AND 1023)"
  note g = MmGetTableEntry_sees(2) [OF assms(1) True t]
  have "load s ?a = Inr (pmem s ?a)" "?a \<noteq> NULL" using t by (simp_all add: sees_table_def Let_def load_def)
  moreover have "d \<noteq> NULL" using assms(1) by (simp add: sees_directory_def)
  ultimately show ?thesis
    using g True by (auto simp: MmVirtToPhys_def MmIsPresent_def mmu_walk_eq Let_def shift_frame)
qed


text \<open>Low memory identity mapped: directory at \<open>0x1000\<close>, table at \<open>0x2000\<close>.\<close>

definition identity_mem :: "u32 \<Rightarrow> u32" where
  "identity_mem a = (if a = 0x1000 \<or> a = 0x110000 then 0x2003
     else if 0x2000 \<le> a \<and> a < 0x3000 then push_bit 10 (a - 0x2000) + 3 else 0)"

definition identity_state :: mm_state where
  "identity_state = \<lparr>MmPmBitmap = (\<lambda>_. 0), MmPmBitmapTop = 300, pmem = identity_mem, cr3 = 0x1000,
     CurrentPageDirectoryPhys = 0x1000, CurrentPageDirectory = 0x1000\<rparr>"

lemma identity_sees:
  "sees_directory identity_state 0x1000 0x5123" "sees_table sample_image identity_state 0x5123"
  "dir_entry identity_state 0x5123 = 0x2003" "mmu_walk identity_mem 0x1000 0x5123 = Some 0x5123"
proof -
  show "sees_directory identity_state 0x1000 0x5123" "dir_entry identity_state 0x5123 = 0x2003"
    "mmu_walk identity_mem 0x1000 0x5123 = Some 0x5123"
    by (simp_all add: sees_directory_def dir_entry_def identity_state_def mmu_walk_def frame_of_def
        identity_mem_def Present_def Let_def)
  have "in_kernel_tables sample_image identity_state 0x2000"
    unfolding in_kernel_tables_def
    by (rule exI [of _ 0]) (simp add: KERNEL_PAGES_def kpt_def kpt_addr_def K_VIRT_TO_PHYS_def identity_state_def identity_mem_def)
  then show "sees_table sample_image identity_state 0x5123"
    by (simp add: sees_table_def table_frame_def identity_state_def mmu_walk_def frame_of_def
        identity_mem_def Present_def Let_def)
qed

lemma identity_selectors: "pmem identity_state = identity_mem" "cr3 identity_state = 0x1000"
  by (simp_all add: identity_state_def)

theorem MmVirtToPhys_agrees_with_mmu_witness:
  "MmVirtToPhys sample_image identity_state 0x1000 0x5123 = Inr 0x5123"
  by (rule MmVirtToPhys_agrees_with_mmu [OF identity_sees(1), of sample_image, OF impI, OF identity_sees(2),
        THEN conjunct2, THEN conjunct1, rule_format])
    (simp only: identity_selectors identity_sees(4))

end
