(* ===== verification/Page_Provider.thy ===== *)
theory Page_Provider
  imports Kernel_Prelude
begin

text \<open>
  The interface a client of a page allocator relies on: \<open>alloc s n\<close> hands out \<open>n\<close> pages that
  nobody owned and that are owned from then on. A client that asks several times gets ranges
  that do not meet each other or anything owned before.
\<close>

text \<open>Address \<open>a\<close> is one of the \<open>k\<close> bytes from \<open>p\<close> on.\<close>

definition in_range :: "ptr \<Rightarrow> ptr \<Rightarrow> nat \<Rightarrow> bool" where
  "in_range a p k \<longleftrightarrow> unat (a - p) < k"

text \<open>Asking for several runs of pages in a row.\<close>

fun take_pages :: "('s \<Rightarrow> u32 \<Rightarrow> (ptr \<times> 's) res) \<Rightarrow> u32 list \<Rightarrow> 's \<Rightarrow> ((ptr \<times> u32) list \<times> 's) res" where
  "take_pages alloc [] s = Inr ([], s)"
| "take_pages alloc (n # ns) s =
     rbind (alloc s n) (\<lambda>(p, s1). rbind (take_pages alloc ns s1) (\<lambda>(ps, s2). Inr ((p, n) # ps, s2)))"

definition apart :: "ptr \<times> u32 \<Rightarrow> ptr \<times> u32 \<Rightarrow> bool" where
  "apart x y \<longleftrightarrow> (\<forall>a. \<not> (in_range a (fst x) (unat (snd x) * 4096) \<and> in_range a (fst y) (unat (snd y) * 4096)))"

locale page_provider =
  fixes alloc :: "'s \<Rightarrow> u32 \<Rightarrow> (ptr \<times> 's) res" and owned :: "'s \<Rightarrow> ptr \<Rightarrow> bool"
  assumes alloc_fresh:
    "alloc s n = Inr (p, s') \<Longrightarrow> in_range a p (unat n * 4096) \<Longrightarrow> \<not> owned s a"
  and alloc_owned:
    "alloc s n = Inr (p, s') \<Longrightarrow> owned s' a \<longleftrightarrow> owned s a \<or> in_range a p (unat n * 4096)"
begin

lemma take_pages_owned:
  "take_pages alloc ns s = Inr (ps, s') \<Longrightarrow>
    owned s' a \<longleftrightarrow> owned s a \<or> (\<exists>(p, n) \<in> set ps. in_range a p (unat n * 4096))"
proof (induction ns arbitrary: s ps)
  case Nil
  then show ?case by simp
next
  case (Cons n ns)
  then obtain p s1 qs where p: "alloc s n = Inr (p, s1)" and ps: "ps = (p, n) # qs"
    and qs: "take_pages alloc ns s1 = Inr (qs, s')"
    by (auto simp: rbind_eq_Inr)
  from Cons.IH [OF qs] alloc_owned [OF p] show ?case by (auto simp: ps)
qed

lemma take_pages_fresh:
  "take_pages alloc ns s = Inr (ps, s') \<Longrightarrow> (p, n) \<in> set ps \<Longrightarrow> in_range a p (unat n * 4096) \<Longrightarrow>
    \<not> owned s a"
proof (induction ns arbitrary: s ps)
  case Nil
  then show ?case by simp
next
  case (Cons m ns)
  then obtain q s1 qs where q: "alloc s m = Inr (q, s1)" and ps: "ps = (q, m) # qs"
    and qs: "take_pages alloc ns s1 = Inr (qs, s')"
    by (auto simp: rbind_eq_Inr)
  from Cons.IH [OF qs] Cons.prems(2,3) alloc_fresh [OF q, of a] alloc_owned [OF q, of a]
  show ?case by (auto simp: ps)
qed

lemma take_pages_apart:
  "take_pages alloc ns s = Inr (ps, s') \<Longrightarrow> sorted_wrt apart ps"
proof (induction ns arbitrary: s ps)
  case Nil
  then show ?case by simp
next
  case (Cons n ns)
  then obtain p s1 qs where p: "alloc s n = Inr (p, s1)" and ps: "ps = (p, n) # qs"
    and qs: "take_pages alloc ns s1 = Inr (qs, s')"
    by (auto simp: rbind_eq_Inr)
  have "apart (p, n) (q, m)" if "(q, m) \<in> set qs" for q m
    using take_pages_fresh [OF qs that] alloc_owned [OF p] by (auto simp: apart_def)
  with Cons.IH [OF qs] show ?case by (auto simp: ps)
qed

end

end
