(* ===== verification/VirtualMemory.thy ===== *)
theory VirtualMemory
  imports PageTables Page_Provider
begin

text \<open>
  The allocator of kernel virtual pages (\<open>kernel/src/MM/VirtualMemory.c\<close>): a first-fit search
  for a run of non-present entries of \<open>KernelPageTables\<close>, each of which is then given a frame of
  the physical allocator. Page numbers and counters stay below 131072, so they are natural
  numbers here.
\<close>

subsection \<open>Operations\<close>

definition MmVmInitAllocator :: "'s \<Rightarrow> 's" where
  "MmVmInitAllocator s = s"

text \<open>The search loop, over the present bits of the entries.\<close>

function vm_search :: "(nat \<Rightarrow> bool) \<Rightarrow> nat \<Rightarrow> nat \<Rightarrow> nat \<Rightarrow> nat \<Rightarrow> nat option" where
  "vm_search present pages i startingPage pageCounter =
     (if i < KERNEL_PAGES then
        (let (startingPage, pageCounter) =
           (if present i then (0, 0)
            else if startingPage = 0 then (i, 1)
            else (startingPage, pageCounter + 1))
         in if startingPage \<noteq> 0 \<and> pageCounter = pages then Some startingPage
            else vm_search present pages (Suc i) startingPage pageCounter)
      else None)"
  by pat_completeness auto
termination
  by (relation "measure (\<lambda>(present, pages, i, s, c). KERNEL_PAGES - i)") auto

declare vm_search.simps [simp del]

text \<open>The mapping loop: \<open>n\<close> entries from \<open>i\<close> on.\<close>

fun vm_map :: "linker \<Rightarrow> nat \<Rightarrow> nat \<Rightarrow> 'z mm_state_scheme \<Rightarrow> 'z mm_state_scheme res" where
  "vm_map L i 0 s = Inr s"
| "vm_map L i (Suc n) s =
     (let s1 = kpt_put L i (set_Writable True (set_User False (set_Present True (kpt L s i)))) s in
      rbind (MmPmAllocate s1) (\<lambda>(phys, s2).
        vm_map L (Suc i) n (kpt_put L i (set_PhysAddress (drop_bit 12 phys) (kpt L s2 i)) s2)))"

definition MmVmAllocate :: "linker \<Rightarrow> 'z mm_state_scheme \<Rightarrow> u32 \<Rightarrow> (ptr \<times> 'z mm_state_scheme) res" where
  "MmVmAllocate L s pages =
     (case vm_search (\<lambda>i. Present (kpt L s i)) (unat pages) 0 0 0 of
        None \<Rightarrow> Inl (Panic ''Could not allocate kernel virtual pages'')
      | Some startingPage \<Rightarrow>
          rbind (vm_map L startingPage (unat pages) s) (\<lambda>s1.
            Inr (addr_VirtualAddress L + of_nat startingPage * 4096, s1)))"

text \<open>\<open>MmVmFree\<close>; an entry number past the array is an access out of bounds.\<close>

fun vm_unmap :: "linker \<Rightarrow> nat \<Rightarrow> nat \<Rightarrow> 'z mm_state_scheme \<Rightarrow> 'z mm_state_scheme res" where
  "vm_unmap L i 0 s = Inr s"
| "vm_unmap L i (Suc n) s =
     (if i < KERNEL_PAGES
      then vm_unmap L (Suc i) n (kpt_put L i (set_PhysAddress 0 (set_Present False (kpt L s i))) s)
      else Inl (BadAccess (of_nat i)))"

definition MmVmFree :: "linker \<Rightarrow> 'z mm_state_scheme \<Rightarrow> u32 \<Rightarrow> u32 \<Rightarrow> 'z mm_state_scheme res" where
  "MmVmFree L s virt pages =
     vm_unmap L (unat (((virt AND NOT 0xFFF) - VirtualAddress) div 4096)) (unat pages) s"

subsection \<open>The search is first fit\<close>

text \<open>A run of \<open>n\<close> absent entries at \<open>t\<close>. Entry 0 is never part of one: the code uses start 0
  for "no run".\<close>

definition free_run :: "(nat \<Rightarrow> bool) \<Rightarrow> nat \<Rightarrow> nat \<Rightarrow> bool" where
  "free_run present n t \<longleftrightarrow> 1 \<le> t \<and> (\<forall>j. t \<le> j \<and> j < t + n \<longrightarrow> \<not> present j)"

text \<open>What holds between iterations: the current run, and that no earlier run was long enough.\<close>

definition search_inv :: "(nat \<Rightarrow> bool) \<Rightarrow> nat \<Rightarrow> nat \<Rightarrow> nat \<Rightarrow> nat \<Rightarrow> bool" where
  "search_inv present n i s c \<longleftrightarrow>
     (\<forall>t. t + n \<le> i \<longrightarrow> \<not> free_run present n t) \<and>
     (if s = 0 then i \<le> 1 \<or> present (i - 1)
      else s < i \<and> c = i - s \<and> c < n \<and> (\<forall>j. s \<le> j \<and> j < i \<longrightarrow> \<not> present j) \<and>
           (s = 1 \<or> present (s - 1)))"

text \<open>The loop body on the two counters.\<close>

definition run_start :: "(nat \<Rightarrow> bool) \<Rightarrow> nat \<Rightarrow> nat \<Rightarrow> nat" where
  "run_start present i s = (if present i then 0 else if s = 0 then i else s)"

definition run_count :: "(nat \<Rightarrow> bool) \<Rightarrow> nat \<Rightarrow> nat \<Rightarrow> nat \<Rightarrow> nat" where
  "run_count present i s c = (if present i then 0 else if s = 0 then 1 else c + 1)"

lemma vm_search_unfold:
  "vm_search present n i s c =
    (if i < KERNEL_PAGES then
       (if run_start present i s \<noteq> 0 \<and> run_count present i s c = n then Some (run_start present i s)
        else vm_search present n (Suc i) (run_start present i s) (run_count present i s c))
     else None)"
  by (subst vm_search.simps) (simp add: run_start_def run_count_def)

lemma search_inv_found:
  assumes "search_inv present n i s c" "0 < n"
    and "run_start present i s \<noteq> 0 \<and> run_count present i s c = n"
  shows "free_run present n (run_start present i s) \<and> run_start present i s + n = Suc i \<and>
    (\<forall>u < run_start present i s. \<not> free_run present n u)"
  using assms
  by (auto simp: search_inv_def run_start_def run_count_def free_run_def less_Suc_eq
      split: if_splits) 

lemma search_inv_step:
  assumes inv: "search_inv present n i s c" and n: "0 < n"
    and go: "\<not> (run_start present i s \<noteq> 0 \<and> run_count present i s c = n)"
  shows "search_inv present n (Suc i) (run_start present i s) (run_count present i s c)"
proof -
  have "\<not> free_run present n t" if "t + n \<le> Suc i" for t
  proof (cases "t + n \<le> i")
    case True
    with inv show ?thesis by (simp add: search_inv_def)
  next
    case False
    with that have tn: "t + n = Suc i" by simp
    show ?thesis
    proof
      assume run: "free_run present n t"
      then have absent: "t \<le> j \<Longrightarrow> j \<le> i \<Longrightarrow> \<not> present j" and t: "1 \<le> t" for j
        using tn by (auto simp: free_run_def)
      have pi: "\<not> present i" using absent n tn by auto
      show False
      proof (cases "s = 0")
        case True
        with inv have "i \<le> 1 \<or> present (i - 1)" by (simp add: search_inv_def)
        moreover have "n \<noteq> 1" using go pi True t tn by (auto simp: run_start_def run_count_def)
        moreover from calculation n tn have "t \<le> i - 1" by arith
        ultimately show False using absent [of "i - 1"] t tn n by (cases "i \<le> 1") auto
      next
        case s: False
        with inv have *: "s < i" "c = i - s" "c < n" "s = 1 \<or> present (s - 1)"
          by (auto simp: search_inv_def)
        with go pi s have "Suc c < n" by (auto simp: run_start_def run_count_def)
        with * tn have "t \<le> s - 1" "s - 1 \<le> i" by auto
        with *(4) absent t show False by auto
      qed
    qed
  qed
  moreover have "if run_start present i s = 0 then Suc i \<le> 1 \<or> present (Suc i - 1)
      else run_start present i s < Suc i \<and> run_count present i s c = Suc i - run_start present i s \<and>
        run_count present i s c < n \<and>
        (\<forall>j. run_start present i s \<le> j \<and> j < Suc i \<longrightarrow> \<not> present j) \<and>
        (run_start present i s = 1 \<or> present (run_start present i s - 1))"
    using inv n go
    by (auto simp: search_inv_def run_start_def run_count_def less_Suc_eq split: if_splits)
  ultimately show ?thesis unfolding search_inv_def by blast
qed

lemma vm_search_correct:
  assumes "search_inv present n i s c" "0 < n"
  shows "case vm_search present n i s c of
      None \<Rightarrow> \<forall>t. t + n \<le> KERNEL_PAGES \<longrightarrow> \<not> free_run present n t
    | Some t \<Rightarrow> free_run present n t \<and> t + n \<le> KERNEL_PAGES \<and> (\<forall>u < t. \<not> free_run present n u)"
  using assms
proof (induction "KERNEL_PAGES - i" arbitrary: i s c)
  case 0
  then show ?case
    by (auto simp: vm_search_unfold [of present n i] search_inv_def)
next
  case (Suc k)
  then have i: "i < KERNEL_PAGES" by simp
  show ?case
  proof (cases "run_start present i s \<noteq> 0 \<and> run_count present i s c = n")
    case True
    from search_inv_found [OF Suc(3,4) True] True i show ?thesis
      by (simp add: vm_search_unfold [of present n i])
  next
    case False
    have "vm_search present n i s c =
        vm_search present n (Suc i) (run_start present i s) (run_count present i s c)"
      by (subst vm_search_unfold) (use False i in auto)
    with Suc.hyps(1) [OF _ search_inv_step [OF Suc(3,4) False] Suc(4)] Suc.hyps(2)
    show ?thesis by simp
  qed
qed

lemma vm_search_zero: "s \<noteq> 0 \<longrightarrow> 0 < c \<Longrightarrow> vm_search present 0 i s c = None"
proof (induction "KERNEL_PAGES - i" arbitrary: i s c)
  case 0
  then show ?case by (simp add: vm_search_unfold [of present 0 i])
next
  case (Suc k)
  have "vm_search present 0 (Suc i) (run_start present i s) (run_count present i s c) = None"
    using Suc.hyps(2) by (intro Suc.hyps(1)) (auto simp: run_start_def run_count_def)
  with Suc.prems show ?case
    by (subst vm_search_unfold) (auto simp: run_start_def run_count_def split: if_splits)
qed

lemma search_inv_init: "0 < n \<Longrightarrow> search_inv present n 0 0 0"
  by (auto simp: search_inv_def free_run_def)

subsection \<open>The mapping loop\<close>

text \<open>The entry the mapping loop writes for a frame.\<close>

definition mapped_entry :: "u32 \<Rightarrow> u32 \<Rightarrow> u32" where
  "mapped_entry phys old =
     set_PhysAddress (drop_bit 12 phys) (set_Writable True (set_User False (set_Present True old)))"

text \<open>The physical allocator neither reads nor writes the tables.\<close>

lemma MmPmAllocate_pmem:
  "MmPmAllocate (s\<lparr>pmem := m\<rparr>) =
    (case MmPmAllocate s of Inl e \<Rightarrow> Inl e | Inr (p, s') \<Rightarrow> Inr (p, s'\<lparr>pmem := m\<rparr>))"
  by (simp add: MmPmAllocate_eq split: sum.splits option.splits)

lemma MmPmAllocate_keeps_pmem: "MmPmAllocate s = Inr (p, s') \<Longrightarrow> pmem s' = pmem s"
  by (elim MmPmAllocate_InrE) simp

lemma alloc_frames_pmem:
  "alloc_frames MmPmAllocate n (s\<lparr>pmem := m\<rparr>) =
    (case alloc_frames MmPmAllocate n s of Inl e \<Rightarrow> Inl e | Inr (ps, s') \<Rightarrow> Inr (ps, s'\<lparr>pmem := m\<rparr>))"
proof (induction n arbitrary: s)
  case (Suc n)
  then show ?case
    by (cases "MmPmAllocate s") (auto simp: MmPmAllocate_pmem split: sum.splits)
qed simp

lemma kpt_eq_pmem: "pmem s = pmem t \<Longrightarrow> kpt L s i = kpt L t i"
  by (simp add: kpt_def)

text \<open>
  The mapping loop against the abstract one: take \<open>n\<close> frames in a row, write them into the
  entries from \<open>i\<close> on, leave every other word of memory alone.
\<close>

lemma vm_map_frames:
  "vm_map L i n s = Inr s' \<Longrightarrow> i + n \<le> KERNEL_PAGES \<Longrightarrow>
    \<exists>ps a. alloc_frames MmPmAllocate n s = Inr (ps, a) \<and> s' = a\<lparr>pmem := pmem s'\<rparr> \<and>
      (\<forall>j < KERNEL_PAGES. kpt L s' j =
         (if i \<le> j \<and> j < i + n then mapped_entry (ps ! (j - i)) (kpt L s j) else kpt L s j)) \<and>
      (\<forall>x. (\<forall>j. i \<le> j \<and> j < i + n \<longrightarrow> x \<noteq> kpt_addr L j) \<longrightarrow> pmem s' x = pmem s x)"
proof (induction n arbitrary: i s)
  case 0
  then show ?case by auto
next
  case (Suc n)
  define w where "w = set_Writable True (set_User False (set_Present True (kpt L s i)))"
  define m where "m = (pmem s)(kpt_addr L i := w)"
  obtain p s2 where alloc: "MmPmAllocate s = Inr (p, s2)"
    and rest: "vm_map L (Suc i) n
      (kpt_put L i (set_PhysAddress (drop_bit 12 p) (kpt L (s2\<lparr>pmem := m\<rparr>) i)) (s2\<lparr>pmem := m\<rparr>)) = Inr s'"
    using Suc.prems(1)
    by (auto simp: Let_def kpt_put_def rbind_eq_Inr MmPmAllocate_pmem m_def w_def split: sum.splits)
  define m3 where "m3 = (pmem s)(kpt_addr L i := mapped_entry p (kpt L s i))"
  have s3: "kpt_put L i (set_PhysAddress (drop_bit 12 p) (kpt L (s2\<lparr>pmem := m\<rparr>) i)) (s2\<lparr>pmem := m\<rparr>)
      = s2\<lparr>pmem := m3\<rparr>"
    by (simp add: kpt_put_def kpt_def m_def m3_def w_def mapped_entry_def)
  obtain qs a where qs: "alloc_frames MmPmAllocate n (s2\<lparr>pmem := m3\<rparr>) = Inr (qs, a)"
    and s': "s' = a\<lparr>pmem := pmem s'\<rparr>"
    and k: "\<And>j. j < KERNEL_PAGES \<Longrightarrow> kpt L s' j =
      (if Suc i \<le> j \<and> j < Suc i + n then mapped_entry (qs ! (j - Suc i)) (kpt L (s2\<lparr>pmem := m3\<rparr>) j)
       else kpt L (s2\<lparr>pmem := m3\<rparr>) j)"
    and fr: "\<And>x. \<forall>j. Suc i \<le> j \<and> j < Suc i + n \<longrightarrow> x \<noteq> kpt_addr L j \<Longrightarrow> pmem s' x = m3 x"
    using Suc.IH [OF rest [unfolded s3]] Suc.prems(2) by auto
  obtain a' where a': "alloc_frames MmPmAllocate n s2 = Inr (qs, a')" "a = a'\<lparr>pmem := m3\<rparr>"
    using qs by (auto simp: alloc_frames_pmem split: sum.splits)
  have "alloc_frames MmPmAllocate (Suc n) s = Inr (p # qs, a')"
    by (simp add: alloc a')
  moreover have "s' = a'\<lparr>pmem := pmem s'\<rparr>" using s' a'(2) by (metis mm_state.surjective mm_state.update_convs(1))
  moreover have k3: "kpt L (s2\<lparr>pmem := m3\<rparr>) j = (if j = i then mapped_entry p (kpt L s i) else kpt L s j)"
    if "j < KERNEL_PAGES" for j
    using that Suc.prems(2) by (simp add: kpt_def m3_def kpt_addr_inj)
  have "kpt L s' j = (if i \<le> j \<and> j < i + Suc n then mapped_entry ((p # qs) ! (j - i)) (kpt L s j)
      else kpt L s j)" if "j < KERNEL_PAGES" for j
    using that by (auto simp: k k3 nth_Cons' not_less_eq_eq Suc_diff_le intro!: arg_cong [of _ _ "\<lambda>k. mapped_entry (qs ! k) _"])
  moreover have "pmem s' x = pmem s x" if "\<forall>j. i \<le> j \<and> j < i + Suc n \<longrightarrow> x \<noteq> kpt_addr L j" for x
    using that fr [of x] by (auto simp: m3_def)
  ultimately show ?case by blast
qed
subsection \<open>What an allocation promises\<close>

lemma mapped_entry_bits [simp]:
  "Present (mapped_entry p r)" "Writable (mapped_entry p r)" "\<not> User (mapped_entry p r)"
  by (simp_all add: mapped_entry_def)

lemma mapped_entry_frame [simp]: "PhysAddress (mapped_entry p r) = drop_bit 12 p"
  unfolding mapped_entry_def PhysAddress_set
  by (rule bit_word_eqI) (auto simp: bit_simps dest: bit_imp_le_length)

abbreviation kernel_present :: "linker \<Rightarrow> 'z mm_state_scheme \<Rightarrow> nat \<Rightarrow> bool" where
  "kernel_present L s j \<equiv> Present (kpt L s j)"

text \<open>\<open>t\<close> is the least start of a run of \<open>n\<close> absent pages.\<close>

definition first_run :: "linker \<Rightarrow> 'z mm_state_scheme \<Rightarrow> nat \<Rightarrow> nat \<Rightarrow> bool" where
  "first_run L s n t \<longleftrightarrow> 0 < n \<and> t + n \<le> KERNEL_PAGES \<and> free_run (kernel_present L s) n t \<and>
     (\<forall>u < t. \<not> free_run (kernel_present L s) n u)"

lemma vm_search_first_run: "vm_search (kernel_present L s) n 0 0 0 = Some t \<longleftrightarrow> first_run L s n t"
proof (cases "n = 0")
  case True
  then show ?thesis using vm_search_zero [of 0 0] by (simp add: first_run_def)
next
  case False
  then have n: "0 < n" by simp
  show ?thesis
    using vm_search_correct [OF search_inv_init [OF n] n, of "kernel_present L s"] n
    by (auto simp: first_run_def split: option.splits) (metis linorder_neqE_nat)
qed

lemma MmVmAllocate_InrE:
  assumes "MmVmAllocate L s pages = Inr (v, s')"
  obtains t ps a where "first_run L s (unat pages) t"
    "v = addr_VirtualAddress L + of_nat t * 4096"
    "alloc_frames MmPmAllocate (unat pages) s = Inr (ps, a)" "s' = a\<lparr>pmem := pmem s'\<rparr>"
    "\<forall>j < KERNEL_PAGES. kpt L s' j =
       (if t \<le> j \<and> j < t + unat pages then mapped_entry (ps ! (j - t)) (kpt L s j) else kpt L s j)"
    "\<forall>x. (\<forall>j. t \<le> j \<and> j < t + unat pages \<longrightarrow> x \<noteq> kpt_addr L j) \<longrightarrow> pmem s' x = pmem s x"
proof -
  obtain t where fr: "first_run L s (unat pages) t"
    and m: "vm_map L t (unat pages) s = Inr s'" and v: "v = addr_VirtualAddress L + of_nat t * 4096"
    using assms by (auto simp: MmVmAllocate_def rbind_eq_Inr vm_search_first_run split: option.splits)
  then have "t + unat pages \<le> KERNEL_PAGES" by (simp add: first_run_def)
  from vm_map_frames [OF m this] fr v that show ?thesis by blast
qed

lemma vm_map_Inl: "vm_map L i n s = Inl e \<Longrightarrow> e = Panic ''Could not allocate physical page!''"
  by (induction n arbitrary: i s)
     (auto simp: Let_def rbind_def MmPmAllocate_eq split: sum.splits option.splits)

lemma vm_map_returns:
  "alloc_frames MmPmAllocate n s = Inr (ps, a) \<Longrightarrow> \<exists>s'. vm_map L i n s = Inr s'"
proof (induction n arbitrary: i s ps a)
  case 0
  then show ?case by simp
next
  case (Suc n)
  then obtain p s2 qs b where "MmPmAllocate s = Inr (p, s2)" "alloc_frames MmPmAllocate n s2 = Inr (qs, b)"
    by (auto simp: rbind_eq_Inr)
  moreover from this(2) have "alloc_frames MmPmAllocate n (s2\<lparr>pmem := m\<rparr>) = Inr (qs, b\<lparr>pmem := m\<rparr>)" for m
    by (simp add: alloc_frames_pmem)
  ultimately show ?case
    using Suc.IH by (simp add: Let_def kpt_put_def MmPmAllocate_pmem)
qed

lemma MmVmAllocate_returns:
  "first_run L s (unat pages) t \<Longrightarrow> alloc_frames MmPmAllocate (unat pages) s = Inr (ps, a) \<Longrightarrow>
    \<exists>s'. MmVmAllocate L s pages = Inr (addr_VirtualAddress L + of_nat t * 4096, s')"
  using vm_map_returns [of "unat pages" s ps a L t]
  by (auto simp: MmVmAllocate_def simp flip: vm_search_first_run)




subsection \<open>Unmapping\<close>

lemma vm_unmap_entries:
  "i + n \<le> KERNEL_PAGES \<Longrightarrow> \<exists>s'. vm_unmap L i n s = Inr s' \<and> s' = s\<lparr>pmem := pmem s'\<rparr> \<and>
     (\<forall>j < KERNEL_PAGES. kpt L s' j =
        (if i \<le> j \<and> j < i + n then set_PhysAddress 0 (set_Present False (kpt L s j)) else kpt L s j))"
proof (induction n arbitrary: i s)
  case 0
  then show ?case by auto
next
  case (Suc n)
  let ?s = "kpt_put L i (set_PhysAddress 0 (set_Present False (kpt L s i))) s"
  obtain s' where "vm_unmap L (Suc i) n ?s = Inr s'" "s' = ?s\<lparr>pmem := pmem s'\<rparr>"
    "\<forall>j < KERNEL_PAGES. kpt L s' j = (if Suc i \<le> j \<and> j < Suc i + n
       then set_PhysAddress 0 (set_Present False (kpt L ?s j)) else kpt L ?s j)"
    using Suc.IH [of "Suc i" ?s] Suc.prems by auto
  moreover from this(2) have "s' = s\<lparr>pmem := pmem s'\<rparr>" by (simp add: kpt_put_def)
  ultimately show ?case
    using Suc.prems by (intro exI [of _ s']) (auto simp: not_less_eq_eq dest: le_antisym)
qed

lemma vm_unmap_out: "n \<noteq> 0 \<Longrightarrow> KERNEL_PAGES < i + n \<Longrightarrow> \<exists>p. vm_unmap L i n s = Inl (BadAccess p)"
proof (induction n arbitrary: i s)
  case (Suc n)
  then show ?case by (cases n) auto
qed simp

definition vpage :: "u32 \<Rightarrow> nat" where
  "vpage v = unat ((v AND NOT 0xFFF) - VirtualAddress) div 4096"

lemma MmVmFree_entries:
  assumes "vpage virt + unat pages \<le> KERNEL_PAGES"
  shows "\<exists>s'. MmVmFree L s virt pages = Inr s' \<and>
        MmPmBitmap s' = MmPmBitmap s \<and> MmPmBitmapTop s' = MmPmBitmapTop s \<and>
        (\<forall>j < KERNEL_PAGES. if vpage virt \<le> j \<and> j < vpage virt + unat pages
           then \<not> kernel_present L s' j \<and> PhysAddress (kpt L s' j) = 0
           else kpt L s' j = kpt L s j)"
proof -
  from vm_unmap_entries [OF assms, of L s] obtain s' where "MmVmFree L s virt pages = Inr s'"
    and s': "s' = s\<lparr>pmem := pmem s'\<rparr>"
    and k: "\<forall>j < KERNEL_PAGES. kpt L s' j = (if vpage virt \<le> j \<and> j < vpage virt + unat pages
      then set_PhysAddress 0 (set_Present False (kpt L s j)) else kpt L s j)"
    by (auto simp: MmVmFree_def vpage_def unat_div)
  moreover have "MmPmBitmap s' = MmPmBitmap s" "MmPmBitmapTop s' = MmPmBitmapTop s"
    by (subst s', simp)+
  ultimately show ?thesis
    by (intro exI [of _ s']) (auto simp: PhysAddress_set)
qed

text \<open>
  \<open>MmVmFree\<close> of a range inside kernel space always returns: the \<open>pages\<close> entries from the
  page of the address on become absent with frame 0, every other entry is as before, and the
  physical allocator is untouched, so the frames behind the range are never given back. A
  nonempty range that runs past kernel space is an access outside the tables.
\<close>

lemma MmVmFree_clears_entries:
  "(vpage virt + unat pages \<le> KERNEL_PAGES \<longrightarrow>
     (\<exists>s'. MmVmFree L s virt pages = Inr s' \<and>
        MmPmBitmap s' = MmPmBitmap s \<and> MmPmBitmapTop s' = MmPmBitmapTop s \<and>
        (\<forall>j < KERNEL_PAGES. if vpage virt \<le> j \<and> j < vpage virt + unat pages
           then \<not> kernel_present L s' j \<and> PhysAddress (kpt L s' j) = 0
           else kpt L s' j = kpt L s j))) \<and>
   (pages \<noteq> 0 \<and> KERNEL_PAGES < vpage virt + unat pages \<longrightarrow>
     (\<exists>p. MmVmFree L s virt pages = Inl (BadAccess p)))"
proof (intro conjI impI)
  assume "vpage virt + unat pages \<le> KERNEL_PAGES"
  then show "\<exists>s'. MmVmFree L s virt pages = Inr s' \<and>
        MmPmBitmap s' = MmPmBitmap s \<and> MmPmBitmapTop s' = MmPmBitmapTop s \<and>
        (\<forall>j < KERNEL_PAGES. if vpage virt \<le> j \<and> j < vpage virt + unat pages
           then \<not> kernel_present L s' j \<and> PhysAddress (kpt L s' j) = 0
           else kpt L s' j = kpt L s j)"
    by (rule MmVmFree_entries)
next
  assume "pages \<noteq> 0 \<and> KERNEL_PAGES < vpage virt + unat pages"
  then show "\<exists>p. MmVmFree L s virt pages = Inl (BadAccess p)"
    using vm_unmap_out [of "unat pages" "vpage virt" L s]
    by (simp add: MmVmFree_def vpage_def unat_div unat_eq_0)
qed


lemma MmVmFree_clears_entries_witness:
  "vpage 0xE000A010 = 10 \<and>
   (\<exists>s'. MmVmFree
       sample_image \<lparr>MmPmBitmap = (\<lambda>_. 0), MmPmBitmapTop = 300, pmem = (\<lambda>_. 0x3003), cr3 = 0,
        CurrentPageDirectoryPhys = 0, CurrentPageDirectory = 0\<rparr> 0xE000A010 2 = Inr s' \<and>
     \<not> kernel_present sample_image s' 11)"
proof -
  let ?s = "\<lparr>MmPmBitmap = (\<lambda>_. 0), MmPmBitmapTop = 300, pmem = (\<lambda>_. 0x3003), cr3 = 0,
        CurrentPageDirectoryPhys = 0, CurrentPageDirectory = 0\<rparr>"
  have v: "vpage 0xE000A010 = 10" by (simp add: vpage_def VirtualAddress_def)
  with MmVmFree_clears_entries [of "0xE000A010" 2 sample_image ?s] show ?thesis
    by (auto simp: KERNEL_PAGES_def)
qed

subsection \<open>The address that is returned\<close>

text \<open>
  \<open>MmVmAllocate\<close> adds the offset to \<open>&VirtualAddress\<close>, the address of the variable, where the
  value (the base of kernel space, which \<open>MmVmFree\<close> subtracts) is meant. \<open>image_skew L\<close> is the
  number of pages between the two.
\<close>

definition image_skew :: "linker \<Rightarrow> nat" where
  "image_skew L = vpage (addr_VirtualAddress L)"

lemma page_base: "x AND NOT 0xFFF = x - take_bit 12 x" for x :: u32
proof -
  have "x AND NOT 0xFFF = x AND NOT (mask 12)" by (simp add: mask_eq_exp_minus_1)
  also have "\<dots> = push_bit 12 (drop_bit 12 x)" by (rule bit_word_eqI) (auto simp: bit_simps)
  also have "\<dots> = x - take_bit 12 x" using bits_ident [of 12 x] by (simp add: algebra_simps)
  finally show ?thesis .
qed

lemma page_base_add: "(a + k * 4096) AND NOT 0xFFF = (a AND NOT 0xFFF) + k * 4096" for a k :: u32
proof -
  have "unat (a + k * 4096) = (unat a + unat k * 4096) mod 4294967296"
    by (simp add: unat_word_ariths mod_add_right_eq)
  moreover have "(x + y * 4096) mod 4294967296 mod 4096 = x mod 4096" for x y :: nat
    by (simp add: mod_mod_cancel)
  ultimately have "unat (a + k * 4096) mod 4096 = unat a mod 4096" by simp
  then have "take_bit 12 (a + k * 4096) = take_bit 12 a"
    by (simp add: word_unat_eq_iff take_bit_eq_mod unat_mod)
  then show ?thesis unfolding page_base by simp
qed

lemma vpage_add:
  assumes "vpage a + k < KERNEL_PAGES"
  shows "vpage (a + of_nat k * 4096) = vpage a + k"
proof -
  let ?b = "(a AND NOT 0xFFF) - VirtualAddress"
  have k: "k < 131072" "unat ?b < 4096 * (131072 - k)"
    using assms by (auto simp: vpage_def KERNEL_PAGES_def)
  have "unat (of_nat (k * 4096) :: u32) = k * 4096"
    using k(1) by (intro unat_of_nat32) simp
  then have sum: "unat (?b + of_nat (k * 4096)) = unat ?b + k * 4096"
    using k by (simp add: unat_plus_if' del: of_nat_mult)
  have base: "(a + of_nat k * 4096 AND NOT 0xFFF) - VirtualAddress = ?b + of_nat (k * 4096)"
    unfolding page_base_add by (simp add: algebra_simps)
  show ?thesis unfolding vpage_def base sum by simp
qed

text \<open>
  The address \<open>MmVmAllocate\<close> returns is \<open>image_skew\<close> pages above the run it has mapped.
  Where the variable lies at least \<open>pages\<close> pages into the image, the address is in none of the
  mapped pages, and a \<open>MmVmFree\<close> of it leaves all of them mapped.
\<close>

lemma MmVmAllocate_address_is_skewed:
  assumes "MmVmAllocate L s pages = Inr (v, s')" and "first_run L s (unat pages) t"
    and "image_skew L + t + unat pages \<le> KERNEL_PAGES"
  shows "vpage v = t + image_skew L \<and>
    (unat pages \<le> image_skew L \<longrightarrow>
      (\<exists>s''. MmVmFree L s' v pages = Inr s'' \<and>
        (\<forall>j. t \<le> j \<and> j < t + unat pages \<longrightarrow> j \<noteq> vpage v \<and> kernel_present L s'' j)))"
proof -
  let ?n = "unat pages"
  obtain u where "first_run L s ?n u" and v: "v = addr_VirtualAddress L + of_nat u * 4096"
    and k: "\<forall>j < KERNEL_PAGES. u \<le> j \<and> j < u + ?n \<longrightarrow> kernel_present L s' j"
    using assms(1) by (elim MmVmAllocate_InrE) auto
  with assms(2) have u: "u = t" by (simp flip: vm_search_first_run)
  have n: "0 < ?n" "t + ?n \<le> KERNEL_PAGES" using assms(2) by (simp_all add: first_run_def)
  have vp: "vpage v = t + image_skew L"
    using vpage_add [of "addr_VirtualAddress L" t] assms(3) n
    by (simp add: v u image_skew_def add.commute)
  moreover have "\<exists>s''. MmVmFree L s' v pages = Inr s'' \<and>
        (\<forall>j. t \<le> j \<and> j < t + ?n \<longrightarrow> j \<noteq> vpage v \<and> kernel_present L s'' j)"
    if skew: "?n \<le> image_skew L"
  proof -
    have "vpage v + ?n \<le> KERNEL_PAGES" using vp assms(3) by simp
    then obtain s'' where f: "MmVmFree L s' v pages = Inr s''"
      and e: "\<forall>j < KERNEL_PAGES. if vpage v \<le> j \<and> j < vpage v + ?n
           then \<not> kernel_present L s'' j \<and> PhysAddress (kpt L s'' j) = 0
           else kpt L s'' j = kpt L s' j"
      using MmVmFree_entries [of v pages L s'] by auto
    have "j \<noteq> vpage v \<and> kernel_present L s'' j" if j: "t \<le> j \<and> j < t + ?n" for j
    proof -
      have "j < KERNEL_PAGES" "\<not> vpage v \<le> j" using j n vp skew by auto
      then show ?thesis using e k j u by auto
    qed
    with f show ?thesis by blast
  qed
  ultimately show ?thesis by blast
qed

lemma MmVmAllocate_address_is_skewed_witness:
  "\<exists>v s' s''. MmVmAllocate
       sample_image \<lparr>MmPmBitmap = (\<lambda>_. 0), MmPmBitmapTop = 300, pmem = (\<lambda>_. 0), cr3 = 0,
        CurrentPageDirectoryPhys = 0, CurrentPageDirectory = 0\<rparr> 2 = Inr (v, s') \<and>
     vpage v = 10 \<and>
     MmVmFree sample_image s' v 2 = Inr s''"
proof -
  let ?s = "\<lparr>MmPmBitmap = (\<lambda>_. 0), MmPmBitmapTop = 300, pmem = (\<lambda>_. 0), cr3 = 0,
        CurrentPageDirectoryPhys = 0, CurrentPageDirectory = 0\<rparr>"
  have run: "first_run sample_image ?s (unat (2 :: u32)) 1"
    by (auto simp: first_run_def free_run_def KERNEL_PAGES_def kpt_def Present_def)
  have two: "unat (2 :: u32) = Suc (Suc 0)" by simp
  obtain a where frames: "alloc_frames MmPmAllocate (unat (2 :: u32)) ?s = Inr ([0x12C000, 0x12D000], a)"
    unfolding two by (simp add: MmPmAllocate_eq pm_search.simps Get_eq pm_field_def pm_shift
        MM_BITMAP_SIZE_def pm_values pm_write_def push_bit_eq_mult)
  obtain s' where eq: "MmVmAllocate sample_image ?s 2 = Inr (0xE000A010, s')"
    using MmVmAllocate_returns [OF run frames] by auto
  have "image_skew sample_image = 9" by (simp add: image_skew_def vpage_def VirtualAddress_def)
  with MmVmAllocate_address_is_skewed [OF eq run] show ?thesis
    unfolding eq by (auto simp: KERNEL_PAGES_def)
qed

subsection \<open>Allocated ranges do not overlap\<close>

text \<open>An address is owned when the page it belongs to, counted from the address \<open>MmVmAllocate\<close>
  counts from, is present.\<close>

definition owned :: "linker \<Rightarrow> 'z mm_state_scheme \<Rightarrow> ptr \<Rightarrow> bool" where
  "owned L s a \<longleftrightarrow> (let i = unat (a - addr_VirtualAddress L) div 4096 in
     i < KERNEL_PAGES \<and> kernel_present L s i)"

lemma in_run:
  assumes "t + n \<le> KERNEL_PAGES"
  shows "in_range a (v + of_nat t * 4096) (n * 4096) \<longleftrightarrow>
    t \<le> unat (a - v) div 4096 \<and> unat (a - v) div 4096 < t + n"
proof -
  have t: "unat (of_nat t * 4096 :: u32) = t * 4096"
    using assms unat_of_nat32 [of "t * 4096"] by (simp add: KERNEL_PAGES_def)
  have "unat (d - of_nat t * 4096) = (if t * 4096 \<le> unat d then unat d - t * 4096 else unat d + 2 ^ 32 - t * 4096)"
    for d :: u32 unfolding unat_sub_if' t by simp
  from this [of "a - v"] have "unat (a - (v + of_nat t * 4096)) =
      (if t * 4096 \<le> unat (a - v) then unat (a - v) - t * 4096 else unat (a - v) + 2 ^ 32 - t * 4096)"
    by (simp only: diff_diff_add)
  moreover have "n * 4096 + t * 4096 < 2 ^ 32" using assms by (simp add: KERNEL_PAGES_def)
  ultimately show ?thesis by (auto simp: in_range_def less_mult_imp_div_less div_less_iff_less_mult
      less_eq_div_iff_mult_less_eq algebra_simps)
qed

interpretation vm: page_provider "MmVmAllocate L" "owned L" for L
proof
  fix s s' :: "'a mm_state_scheme" and n p a
  assume *: "MmVmAllocate L s n = Inr (p, s')"
  obtain t where t: "first_run L s (unat n) t" "p = addr_VirtualAddress L + of_nat t * 4096"
    and k: "\<And>j. j < KERNEL_PAGES \<Longrightarrow> kernel_present L s' j \<longleftrightarrow>
      t \<le> j \<and> j < t + unat n \<or> kernel_present L s j"
  proof -
    from * obtain t ps b where r: "first_run L s (unat n) t" "p = addr_VirtualAddress L + of_nat t * 4096"
      "\<forall>j < KERNEL_PAGES. kpt L s' j =
        (if t \<le> j \<and> j < t + unat n then mapped_entry (ps ! (j - t)) (kpt L s j) else kpt L s j)"
      by (rule MmVmAllocate_InrE)
    show thesis by (rule that [OF r(1,2)]) (use r(3) in auto)
  qed
  then have le: "t + unat n \<le> KERNEL_PAGES"
    and free: "\<And>j. t \<le> j \<Longrightarrow> j < t + unat n \<Longrightarrow> \<not> kernel_present L s j"
    by (auto simp: first_run_def free_run_def)
  show "\<not> owned L s a" if "in_range a p (unat n * 4096)"
    using that free by (auto simp: t(2) in_run [OF le] owned_def Let_def)
  show "owned L s' a \<longleftrightarrow> owned L s a \<or> in_range a p (unat n * 4096)"
    using le by (auto simp: t(2) in_run [OF le] owned_def Let_def k)
qed

text \<open>
  C24. Successive \<open>MmVmAllocate\<close>s give ranges of addresses that do not overlap each other or any
  address owned before, although the addresses are not where the pages are mapped: the skew is
  the same for all of them.
\<close>

theorem allocated_page_ranges_disjoint:
  assumes "take_pages (MmVmAllocate L) ns s = Inr (ps, s')"
  shows "sorted_wrt apart ps \<and>
    (\<forall>(p, n) \<in> set ps. \<forall>a. in_range a p (unat n * 4096) \<longrightarrow> \<not> owned L s a \<and> owned L s' a)"
  using vm.take_pages_apart [OF assms] vm.take_pages_fresh [OF assms] vm.take_pages_owned [OF assms]
  by fast


theorem allocated_page_ranges_disjoint_witness:
  "\<exists>s'. take_pages (MmVmAllocate sample_image) [1, 2]
       \<lparr>MmPmBitmap = (\<lambda>_. 0), MmPmBitmapTop = 300, pmem = (\<lambda>_. 0), cr3 = 0,
        CurrentPageDirectoryPhys = 0, CurrentPageDirectory = 0\<rparr> = Inr ([(0xE000A010, 1), (0xE000B010, 2)], s') \<and>
     apart (0xE000A010, 1) (0xE000B010, 2)"
proof -
  let ?s = "\<lparr>MmPmBitmap = (\<lambda>_. 0), MmPmBitmapTop = 300, pmem = (\<lambda>_. 0), cr3 = 0,
        CurrentPageDirectoryPhys = 0, CurrentPageDirectory = 0\<rparr>"
  have one: "unat (1 :: u32) = Suc 0" and two: "unat (2 :: u32) = Suc (Suc 0)" by simp_all
  have run: "first_run sample_image ?s (unat (1 :: u32)) 1"
    by (auto simp: first_run_def free_run_def KERNEL_PAGES_def kpt_def Present_def)
  note eval = MmPmAllocate_eq pm_search.simps Get_eq pm_field_def pm_shift
        MM_BITMAP_SIZE_def pm_values pm_write_def push_bit_eq_mult
  have frames: "alloc_frames MmPmAllocate (unat (1 :: u32)) ?s =
      Inr ([0x12C000], ?s\<lparr>MmPmBitmapTop := 301, MmPmBitmap := pm_write (\<lambda>_. 0) 300 1\<rparr>)"
    unfolding one by (simp add: eval)
  obtain s1 where 1: "MmVmAllocate sample_image ?s 1 = Inr (0xE000A010, s1)"
    using MmVmAllocate_returns [OF run frames] by auto
  from 1 obtain t ps b where s1: "first_run sample_image ?s (unat (1 :: u32)) t"
      "alloc_frames MmPmAllocate (unat (1 :: u32)) ?s = Inr (ps, b)" "s1 = b\<lparr>pmem := pmem s1\<rparr>"
      "\<forall>j < KERNEL_PAGES. kpt sample_image s1 j = (if t \<le> j \<and> j < t + unat (1 :: u32)
         then mapped_entry (ps ! (j - t)) (kpt sample_image ?s j) else kpt sample_image ?s j)"
    by (rule MmVmAllocate_InrE)
  have t: "t = 1" using s1(1) run by (simp flip: vm_search_first_run)
  have k: "kernel_present sample_image s1 j \<longleftrightarrow> j = 1" if "j < KERNEL_PAGES" for j
  proof -
    have "\<not> kernel_present sample_image ?s j" by (simp add: kpt_def Present_def)
    with s1(4) that t show ?thesis by auto
  qed
  have "\<not> free_run (kernel_present sample_image s1) 2 u" if "u < 2" for u
    using k [of 1] that by (auto simp: free_run_def KERNEL_PAGES_def intro!: exI [of _ 1])
  then have "first_run sample_image s1 (unat (2 :: u32)) 2"
    using k by (simp add: first_run_def free_run_def KERNEL_PAGES_def)
  moreover have b: "b = ?s\<lparr>MmPmBitmapTop := 301, MmPmBitmap := pm_write (\<lambda>_. 0) 300 1\<rparr>"
    using s1(2) frames by simp
  have "MmPmBitmap s1 = pm_write (\<lambda>_. 0) 300 1" "MmPmBitmapTop s1 = 301"
    by (subst s1(3), simp add: b)+
  then obtain c where "alloc_frames MmPmAllocate (unat (2 :: u32)) s1 = Inr ([0x12D000, 0x12E000], c)"
    unfolding two by (simp add: eval)
  ultimately obtain s2 where 2: "MmVmAllocate sample_image s1 2 = Inr (0xE000B010, s2)"
    using MmVmAllocate_returns [of sample_image s1 2 2] by auto
  have eq: "take_pages (MmVmAllocate sample_image) [1, 2] ?s = Inr ([(0xE000A010, 1), (0xE000B010, 2)], s2)"
    using 1 2 by simp
  from allocated_page_ranges_disjoint [OF eq] eq show ?thesis by auto
qed

end
