(* ===== verification/IOStream.thy ===== *)
theory IOStream
  imports Kernel_Prelude
begin

text \<open>
  Byte streams (\<open>kernel/include/IOStream.h\<close>) and the port instructions
  (\<open>kernel/include/CPU/IO.h\<close>). A stream is a table of callbacks, any of which may be absent; the
  accessors call the callback or return 0. The state \<open>'s\<close> a callback works on and the way
  \<open>'b\<close> a buffer is passed are those of the device behind the stream; a callback is taken as
  already applied to its stream. Results of type \<open>int\<close> are 32-bit words.
\<close>

datatype IoOrigin = SEEK_SET | SEEK_CUR | SEEK_END | OtherOrigin

record ('b, 's) IoStream =
  WriteCallback :: "('b \<Rightarrow> u32 \<Rightarrow> 's \<Rightarrow> u32 \<times> 's) option"
  ReadCallback :: "('b \<Rightarrow> u32 \<Rightarrow> 's \<Rightarrow> u32 \<times> 's) option"
  CanReadCallback :: "('s \<Rightarrow> u32) option"
  CanWriteCallback :: "('s \<Rightarrow> u32) option"
  CloseCallback :: "('s \<Rightarrow> u32) option"
  SeekCallback :: "(u64 \<Rightarrow> IoOrigin \<Rightarrow> 's \<Rightarrow> u32 \<times> 's) option"
  TellCallback :: "('s \<Rightarrow> u32) option"

definition IoInsertStreamCallbacks where
  "IoInsertStreamCallbacks target writeCallback readCallback canReadCallback canWriteCallback
     closeCallback seekCallback tellCallback =
     target\<lparr>WriteCallback := writeCallback, ReadCallback := readCallback,
       CanReadCallback := canReadCallback, CanWriteCallback := canWriteCallback,
       CloseCallback := closeCallback, SeekCallback := seekCallback, TellCallback := tellCallback\<rparr>"

text \<open>A static stream before its callbacks are inserted.\<close>

definition null_stream :: "('b, 's) IoStream" where
  "null_stream = \<lparr>WriteCallback = None, ReadCallback = None, CanReadCallback = None,
     CanWriteCallback = None, CloseCallback = None, SeekCallback = None, TellCallback = None\<rparr>"

definition IoWrite :: "('b, 's) IoStream \<Rightarrow> 'b \<Rightarrow> u32 \<Rightarrow> 's \<Rightarrow> u32 \<times> 's" where
  "IoWrite stream buf len s = (case WriteCallback stream of Some f \<Rightarrow> f buf len s | None \<Rightarrow> (0, s))"

definition IoWriteByte :: "(u8 list, 's) IoStream \<Rightarrow> u8 \<Rightarrow> 's \<Rightarrow> u32 \<times> 's" where
  "IoWriteByte stream n s = IoWrite stream [n] 1 s"

definition IoRead :: "('b, 's) IoStream \<Rightarrow> 'b \<Rightarrow> u32 \<Rightarrow> 's \<Rightarrow> u32 \<times> 's" where
  "IoRead stream buf len s = (case ReadCallback stream of Some f \<Rightarrow> f buf len s | None \<Rightarrow> (0, s))"

definition IoCanRead :: "('b, 's) IoStream \<Rightarrow> 's \<Rightarrow> u32" where
  "IoCanRead stream s = (case CanReadCallback stream of Some f \<Rightarrow> f s | None \<Rightarrow> 0)"

definition IoCanWrite :: "('b, 's) IoStream \<Rightarrow> 's \<Rightarrow> u32" where
  "IoCanWrite stream s = (case CanWriteCallback stream of Some f \<Rightarrow> f s | None \<Rightarrow> 0)"

definition IoClose :: "('b, 's) IoStream \<Rightarrow> 's \<Rightarrow> u32" where
  "IoClose stream s = (case CloseCallback stream of Some f \<Rightarrow> f s | None \<Rightarrow> 0)"

definition IoSeek :: "('b, 's) IoStream \<Rightarrow> u64 \<Rightarrow> IoOrigin \<Rightarrow> 's \<Rightarrow> u32 \<times> 's" where
  "IoSeek stream pos origin s =
     (case SeekCallback stream of Some f \<Rightarrow> f pos origin s | None \<Rightarrow> (0, s))"

definition IoTell :: "('b, 's) IoStream \<Rightarrow> 's \<Rightarrow> u32" where
  "IoTell stream s = (case TellCallback stream of Some f \<Rightarrow> f s | None \<Rightarrow> 0)"

subsection \<open>Ports\<close>

text \<open>
  Port output is recorded, newest last. What a port answers is up to the device: \<open>inb\<close> maps
  the output so far and a port to the byte read, a parameter of the functions that read ports.
\<close>

type_synonym port_log = "(u16 \<times> u8) list"

type_synonym port_device = "port_log \<Rightarrow> u16 \<Rightarrow> u8"

definition Outb :: "u16 \<Rightarrow> u8 \<Rightarrow> port_log \<Rightarrow> port_log" where
  "Outb port val log = log @ [(port, val)]"

definition Inb :: "port_device \<Rightarrow> u16 \<Rightarrow> port_log \<Rightarrow> u8" where
  "Inb dev port log = dev log port"

end
