(* ===== verification/TTY.thy ===== *)
theory TTY
  imports IOStream
begin

unbundle bit_operations_syntax

text \<open>
  The text console (\<open>kernel/src/Drivers/TTY.c\<close>): an 80 by 25 text buffer, a cursor of two bytes
  and the VGA cursor registers behind ports \<open>0x3D4\<close> and \<open>0x3D5\<close>. \<open>TextBuffer\<close> is indexed by
  cells of 16 bits from \<open>0xB8000\<close> on; the code can index past the 2000 visible cells.
\<close>

record tty_state =
  TextBuffer :: "nat \<Rightarrow> u16"
  CursorX :: u8
  CursorY :: u8
  Attribute :: u8
  CursorVisible :: u8
  ports :: port_log
  TTYStreamReady :: bool     \<comment> \<open>the callbacks of \<open>_TTYStream\<close> have been inserted\<close>

definition TTYWidth :: u8 where "TTYWidth = 80"
definition TTYHeight :: u8 where "TTYHeight = 25"

subsection \<open>Operations\<close>

definition outb :: "u16 \<Rightarrow> u8 \<Rightarrow> tty_state \<Rightarrow> tty_state" where
  "outb port val s = s\<lparr>ports := Outb port val (ports s)\<rparr>"

text \<open>One \<open>memcpy\<close> per row: row \<open>i - 1\<close> becomes row \<open>i\<close>. The rows do not overlap.\<close>

definition copy_row :: "nat \<Rightarrow> (nat \<Rightarrow> u16) \<Rightarrow> (nat \<Rightarrow> u16)" where
  "copy_row i buf = (\<lambda>c. if (i - 1) * unat TTYWidth \<le> c \<and> c < (i - 1) * unat TTYWidth + unat TTYWidth
     then buf (c + unat TTYWidth) else buf c)"

definition TTYScroll :: "tty_state \<Rightarrow> tty_state" where
  "TTYScroll s =
     (let s1 = s\<lparr>TextBuffer := fold copy_row [1..<unat TTYHeight] (TextBuffer s)\<rparr>
      in if CursorY s1 > 0 then s1\<lparr>CursorY := CursorY s1 - 1\<rparr> else s1)"

definition TTYNewLine :: "tty_state \<Rightarrow> tty_state" where
  "TTYNewLine s =
     (let s1 = s\<lparr>CursorX := 0\<rparr> in
      if CursorY s1 = TTYHeight - 1 then TTYScroll s1
      else s1\<lparr>CursorY := CursorY s1 + 1\<rparr>)"

definition TTYVGAMoveCursor :: "u8 \<Rightarrow> u8 \<Rightarrow> tty_state \<Rightarrow> tty_state" where
  "TTYVGAMoveCursor x y s =
     (let pos = ucast y * ucast TTYWidth + ucast x :: u16 in
      outb 0x3D5 (ucast (drop_bit 8 pos AND 0xFF))
        (outb 0x3D4 0x0E
          (outb 0x3D5 (ucast (pos AND 0xFF))
            (outb 0x3D4 0x0F s))))"

definition TTYUpdateVGACursorPosition :: "tty_state \<Rightarrow> tty_state" where
  "TTYUpdateVGACursorPosition s = TTYVGAMoveCursor (CursorX s) (CursorY s) s"

definition TTYSetCursorVisible :: "port_device \<Rightarrow> int \<Rightarrow> tty_state \<Rightarrow> tty_state" where
  "TTYSetCursorVisible dev visible s =
     (if visible \<noteq> 0 then
        (let s1 = outb 0x3D4 0x0A s;
             s2 = outb 0x3D5 ((Inb dev 0x3D5 (ports s1) AND 0xC0) OR 12) s1;
             s3 = outb 0x3D4 0x0B s2
         in outb 0x3D5 ((Inb dev 0x3D5 (ports s3) AND 0xE0) OR 13) s3)
      else outb 0x3D5 0x20 (outb 0x3D4 0x0A s))"

text \<open>The body of the loop in \<open>TTYWrite\<close>: one character.\<close>

definition tty_put :: "u8 \<Rightarrow> tty_state \<Rightarrow> tty_state" where
  "tty_put c s =
     (if c = 8 then (if CursorX s > 0 then s\<lparr>CursorX := CursorX s - 1\<rparr> else s)
      else if c = 13 then s\<lparr>CursorX := 0\<rparr>
      else if c = 10 then
        (let s1 = s\<lparr>CursorX := 0\<rparr> in
         if CursorY s1 = TTYWidth - 1 then TTYScroll s1
         else s1\<lparr>CursorY := CursorY s1 + 1\<rparr>)
      else
        (let cell = unat (CursorY s) * unat TTYWidth + unat (CursorX s);
             s1 = s\<lparr>TextBuffer := (TextBuffer s)(cell := push_bit 8 (ucast (Attribute s)) OR ucast c)\<rparr>;
             s2 = s1\<lparr>CursorX := CursorX s1 + 1\<rparr>
         in if CursorX s2 = TTYWidth then TTYNewLine s2 else s2))"

definition TTYWrite :: "u8 list \<Rightarrow> tty_state \<Rightarrow> tty_state" where
  "TTYWrite buf s = TTYUpdateVGACursorPosition (fold tty_put buf s)"

text \<open>The stream callbacks; \<open>len\<close> bytes of the buffer are written.\<close>

definition TTYIOWrite :: "u8 list \<Rightarrow> u32 \<Rightarrow> tty_state \<Rightarrow> u32 \<times> tty_state" where
  "TTYIOWrite buf len s = (len, TTYWrite (take (unat len) buf) s)"

definition TTYIOCanWrite :: "tty_state \<Rightarrow> u32" where
  "TTYIOCanWrite s = 1"

definition TTYStream :: "tty_state \<Rightarrow> (u8 list, tty_state) IoStream" where
  "TTYStream s =
     (if TTYStreamReady s
      then IoInsertStreamCallbacks null_stream (Some TTYIOWrite) None None (Some TTYIOCanWrite) None None None
      else null_stream)"

text \<open>\<open>TTYInit\<close> up to the registration of the device and the driver (see the theory on drivers).\<close>

definition TTYInit_console :: "port_device \<Rightarrow> tty_state \<Rightarrow> tty_state" where
  "TTYInit_console dev s =
     (let s1 = TTYSetCursorVisible dev 1 s;
          s2 = outb 0x3D4 0x0F s1;
          lo = ucast (Inb dev 0x3D5 (ports s2)) :: u16;
          s3 = outb 0x3D4 0x0E s2;
          cursorPos = lo OR push_bit 8 (ucast (Inb dev 0x3D5 (ports s3)))
      in s3\<lparr>CursorX := ucast (cursorPos mod ucast TTYWidth),
            CursorY := ucast (cursorPos div ucast TTYWidth),
            Attribute := 0x07, TTYStreamReady := True\<rparr>)"

subsection \<open>Scrolling and the cursor\<close>

lemma scroll_rows:
  "fold copy_row [1..<Suc k] buf c = (if c < k * 80 then buf (c + 80) else buf c)"
proof (induction k arbitrary: c)
  case 0
  then show ?case by simp
next
  case (Suc k)
  have "[1..<Suc (Suc k)] = [1..<Suc k] @ [Suc k]" by simp
  then have "fold copy_row [1..<Suc (Suc k)] buf c = copy_row (Suc k) (fold copy_row [1..<Suc k] buf) c"
    by (simp only: fold_append fold.simps o_apply id_apply)
  also have "\<dots> = (if c < Suc k * 80 then buf (c + 80) else buf c)"
    unfolding copy_row_def Suc.IH by (auto simp: TTYWidth_def)
  finally show ?case .
qed

lemma TTYScroll_eq: "TTYScroll s = s\<lparr>TextBuffer := (\<lambda>c. if c < 1920 then TextBuffer s (c + 80) else TextBuffer s c),
    CursorY := (if CursorY s > 0 then CursorY s - 1 else CursorY s)\<rparr>"
proof -
  have "fold copy_row [1..<unat TTYHeight] (TextBuffer s) =
      (\<lambda>c. if c < 1920 then TextBuffer s (c + 80) else TextBuffer s c)"
    using scroll_rows [of 24] by (simp add: TTYHeight_def fun_eq_iff)
  then show ?thesis by (simp add: TTYScroll_def Let_def)
qed

definition onscreen :: "tty_state \<Rightarrow> bool" where
  "onscreen s \<longleftrightarrow> CursorX s < TTYWidth \<and> CursorY s < TTYHeight"

lemmas tty_consts = TTYWidth_def TTYHeight_def

lemma u8_dec: "x > 0 \<Longrightarrow> unat (x - 1) = unat x - 1" for x :: u8
  by (rule unat_minus_one) auto

lemma u8_inc: "x < 80 \<Longrightarrow> unat (x + 1) = unat x + 1" for x :: u8
  using unat_inc32 [of x 80] by simp

lemma tty_put_X: "CursorX s < TTYWidth \<Longrightarrow> CursorX (tty_put c s) < TTYWidth"
  by (auto simp: tty_put_def Let_def TTYNewLine_def TTYScroll_eq tty_consts word_less_nat_alt
      word_unat_eq_iff u8_dec u8_inc)

lemma onscreen_put:
  assumes "onscreen s" "c \<noteq> 10"
  shows "onscreen (tty_put c s) \<and> (\<forall>i. 2000 \<le> i \<longrightarrow> TextBuffer (tty_put c s) i = TextBuffer s i)"
proof -
  have cell: "unat (CursorY s) * 80 + unat (CursorX s) < 2000"
    using assms(1) by (auto simp: onscreen_def tty_consts word_less_nat_alt)
  with assms show ?thesis
   by (auto simp: tty_put_def Let_def TTYNewLine_def TTYScroll_eq tty_consts word_less_nat_alt
      word_unat_eq_iff u8_dec u8_inc onscreen_def)
qed

lemma fold_onscreen:
  "onscreen s \<Longrightarrow> 10 \<notin> set cs \<Longrightarrow> onscreen (fold tty_put cs s) \<and>
    (\<forall>i. 2000 \<le> i \<longrightarrow> TextBuffer (fold tty_put cs s) i = TextBuffer s i)"
proof (induction cs arbitrary: s)
  case Nil
  then show ?case by simp
next
  case (Cons c cs)
  then have c: "c \<noteq> 10" "10 \<notin> set cs" by auto
  from onscreen_put [OF Cons.prems(1) c(1)] Cons.IH [OF _ c(2)] show ?case by simp
qed

lemma fold_X: "CursorX s < TTYWidth \<Longrightarrow> CursorX (fold tty_put cs s) < TTYWidth"
  by (induction cs arbitrary: s) (auto intro: tty_put_X)

lemma cursor_update [simp]:
  "TextBuffer (TTYUpdateVGACursorPosition s) = TextBuffer s"
  "CursorX (TTYUpdateVGACursorPosition s) = CursorX s"
  "CursorY (TTYUpdateVGACursorPosition s) = CursorY s"
  "Attribute (TTYUpdateVGACursorPosition s) = Attribute s"
  "TTYStreamReady (TTYUpdateVGACursorPosition s) = TTYStreamReady s"
  by (simp_all add: TTYUpdateVGACursorPosition_def TTYVGAMoveCursor_def outb_def Let_def)

text \<open>
  C28. Text without newline characters stays on the screen: from a cursor inside the 80 by 25
  screen, however long the text and whatever backspaces, carriage returns and line wraps it
  causes, the cursor ends inside the screen and no cell past the 2000 visible ones is written.
\<close>

theorem TTYWrite_stays_on_screen:
  assumes "onscreen s" "10 \<notin> set buf"
  shows "onscreen (TTYWrite buf s) \<and>
    (\<forall>i. 2000 \<le> i \<longrightarrow> TextBuffer (TTYWrite buf s) i = TextBuffer s i)"
  using fold_onscreen [OF assms] by (simp add: TTYWrite_def onscreen_def)

definition blank_tty :: tty_state where
  "blank_tty = \<lparr>TextBuffer = (\<lambda>_. 0), CursorX = 0, CursorY = 0, Attribute = 7, CursorVisible = 0,
     ports = [], TTYStreamReady = True\<rparr>"

theorem TTYWrite_stays_on_screen_witness:
  "onscreen (TTYWrite [72, 105, 8, 13] blank_tty)"
  using TTYWrite_stays_on_screen [of blank_tty "[72, 105, 8, 13]"]
  by (simp add: onscreen_def blank_tty_def tty_consts)

lemma newlines:
  "unat (CursorY s) + k \<le> 79 \<Longrightarrow>
    TextBuffer (fold tty_put (replicate k 10) s) = TextBuffer s \<and>
    unat (CursorY (fold tty_put (replicate k 10) s)) = unat (CursorY s) + k"
proof (induction k arbitrary: s)
  case 0
  then show ?case by simp
next
  case (Suc k)
  have y: "unat (CursorY s + 1) = unat (CursorY s) + 1"
    using Suc.prems by (simp add: unat_word_ariths)
  have "tty_put 10 s = s\<lparr>CursorX := 0, CursorY := CursorY s + 1\<rparr>"
    using Suc.prems by (auto simp: tty_put_def Let_def tty_consts)
  with Suc.IH [of "tty_put 10 s"] Suc.prems y show ?case by simp
qed

text \<open>
  A newline, unlike a line wrap, scrolls only on row 79 (\<open>TTYWidth - 1\<close>), not on the last
  row of the screen: \<open>k\<close> newlines from row \<open>y\<close> just move the cursor to row \<open>y + k\<close> as long as
  that is at most 79, and nothing is scrolled, so 25 newlines from the top put the cursor, and
  every character written after them, below the screen.
\<close>

lemma newline_scrolls_only_on_row_79:
  assumes "unat (CursorY s) + k \<le> 79"
  shows "TextBuffer (TTYWrite (replicate k 10) s) = TextBuffer s \<and>
    unat (CursorY (TTYWrite (replicate k 10) s)) = unat (CursorY s) + k"
  using newlines [OF assms] by (simp add: TTYWrite_def)

lemma newline_scrolls_only_on_row_79_witness:
  "onscreen blank_tty \<and> \<not> onscreen (TTYWrite (replicate 25 10) blank_tty)"
  using newline_scrolls_only_on_row_79 [of blank_tty 25]
  by (simp add: onscreen_def blank_tty_def tty_consts word_less_nat_alt)

text \<open>
  A character written into the last cell of the screen scrolls the text up by one row and
  leaves the cursor at the start of row 23, where the line just completed now stands: the next
  line overwrites it.
\<close>

lemma wrap_on_last_row_returns_to_the_completed_line:
  assumes "CursorX s = 79" "CursorY s = 24" "c \<notin> {8, 10, 13}"
  shows "CursorX (tty_put c s) = 0 \<and> CursorY (tty_put c s) = 23 \<and>
    (\<forall>j < 79. TextBuffer (tty_put c s) (23 * 80 + j) = TextBuffer s (24 * 80 + j)) \<and>
    TextBuffer (tty_put c s) (23 * 80 + 79) = push_bit 8 (ucast (Attribute s)) OR ucast c"
  using assms by (auto simp: tty_put_def Let_def TTYNewLine_def TTYScroll_eq tty_consts)

lemma wrap_on_last_row_returns_to_the_completed_line_witness:
  "CursorY (tty_put 65 (blank_tty\<lparr>CursorX := 79, CursorY := 24\<rparr>)) = 23"
  using wrap_on_last_row_returns_to_the_completed_line [of "blank_tty\<lparr>CursorX := 79, CursorY := 24\<rparr>" 65]
  by simp

lemma low_high_byte:
  "(ucast (ucast (p AND 0xFF) :: u8) :: u16) OR push_bit 8 (ucast (ucast (drop_bit 8 p AND 0xFF) :: u8)) = p"
  for p :: u16
proof -
  have m: "(0xFF :: u16) = mask 8" by (simp add: mask_eq_exp_minus_1)
  have l: "ucast (ucast (p AND mask 8) :: u8) = p AND mask 8"
    by (intro bit_word_eqI) (simp only: bit_simps, auto dest: bit_imp_le_length)
  have h: "ucast (ucast (drop_bit 8 p AND mask 8) :: u8) = drop_bit 8 p"
    by (intro bit_word_eqI) (simp only: bit_simps, auto dest: bit_imp_le_length)
  have e: "(p AND mask 8) OR push_bit 8 (drop_bit 8 p) = p"
  proof (intro bit_word_eqI)
    fix n assume "n < LENGTH(16)"
    then show "bit ((p AND mask 8) OR push_bit 8 (drop_bit 8 p)) n \<longleftrightarrow> bit p n"
      by (cases "n < 8") (simp_all only: bit_simps, auto)
  qed
  show ?thesis unfolding m l h by (rule e)
qed

definition cursor_pos :: "u8 \<Rightarrow> u8 \<Rightarrow> u16" where
  "cursor_pos x y = ucast y * ucast TTYWidth + ucast x"

lemma unat_cursor_pos: "unat (cursor_pos x y) = unat y * 80 + unat x"
proof -
  have "unat x < 256" "unat y < 256" using unsigned_less [of x] unsigned_less [of y] by auto
  then show ?thesis
    by (simp add: cursor_pos_def TTYWidth_def unat_word_ariths unsigned_ucast_eq take_bit_nat_eq_self)
qed

text \<open>A device that answers with the position its cursor registers hold.\<close>

definition crtc_holds :: "port_device \<Rightarrow> u16 \<Rightarrow> bool" where
  "crtc_holds dev pos \<longleftrightarrow>
     (\<forall>log. dev (log @ [(0x3D4, 0x0F)]) 0x3D5 = ucast (pos AND 0xFF) \<and>
            dev (log @ [(0x3D4, 0x0E)]) 0x3D5 = ucast (drop_bit 8 pos AND 0xFF))"

text \<open>
  The cursor registers round trip: what \<open>TTYVGAMoveCursor x y\<close> writes to the low and the
  high register is the position \<open>y * 80 + x\<close>, and when the registers hold that position
  \<open>TTYInit\<close> recovers column \<open>x\<close> (below 80) and row \<open>y\<close>.
\<close>

lemma cursor_registers_roundtrip:
  assumes "x < TTYWidth" "crtc_holds dev (cursor_pos x y)"
  shows "ports (TTYVGAMoveCursor x y s) = ports s @
      [(0x3D4, 0x0F), (0x3D5, ucast (cursor_pos x y AND 0xFF)),
       (0x3D4, 0x0E), (0x3D5, ucast (drop_bit 8 (cursor_pos x y) AND 0xFF))] \<and>
    unat (cursor_pos x y) = unat y * 80 + unat x \<and>
    CursorX (TTYInit_console dev s) = x \<and> CursorY (TTYInit_console dev s) = y"
proof -
  have x: "unat x < 80" using assms(1) by (simp add: TTYWidth_def word_less_nat_alt)
  have y: "unat y < 2 ^ 8" using unsigned_less [of y] by simp
  have "ucast (cursor_pos x y mod ucast TTYWidth) = x" "ucast (cursor_pos x y div ucast TTYWidth) = y"
    using x y
    by (simp_all add: word_unat_eq_iff unsigned_ucast_eq unat_mod unat_div unat_cursor_pos TTYWidth_def
        take_bit_nat_eq_self)
  with assms(2) show ?thesis
    by (simp add: TTYVGAMoveCursor_def TTYInit_console_def Let_def outb_def Outb_def Inb_def
        crtc_holds_def low_high_byte unat_cursor_pos flip: cursor_pos_def)
qed

lemma cursor_registers_roundtrip_witness:
  "CursorX (TTYInit_console (\<lambda>log port. if last log = (0x3D4, 0x0F) then 0x90 else 0x01) blank_tty) = 0 \<and>
   CursorY (TTYInit_console (\<lambda>log port. if last log = (0x3D4, 0x0F) then 0x90 else 0x01) blank_tty) = 5"
  using cursor_registers_roundtrip [of 0 "\<lambda>log port. if last log = (0x3D4, 0x0F) then 0x90 else 0x01" 5]
  by (simp add: crtc_holds_def cursor_pos_def TTYWidth_def)

lemma fold_line:
  "\<forall>c \<in> set cs. c \<notin> {8, 10, 13} \<Longrightarrow> unat (CursorX s) + length cs < 80 \<Longrightarrow>
   fold tty_put cs s = s\<lparr>CursorX := CursorX s + of_nat (length cs),
     TextBuffer := (\<lambda>i. let b = unat (CursorY s) * 80 + unat (CursorX s) in
        if b \<le> i \<and> i < b + length cs then push_bit 8 (ucast (Attribute s)) OR ucast (cs ! (i - b))
        else TextBuffer s i)\<rparr>"
proof (induction cs arbitrary: s)
  case Nil
  have none: "(if b \<le> i \<and> i < b + length ([] :: u8 list) then v else w) = (w :: u16)" for b i v w
    by auto
  show ?case unfolding Let_def none by simp
next
  case (Cons c cs)
  let ?b = "unat (CursorY s) * 80 + unat (CursorX s)"
  have x: "unat (CursorX s + 1) = unat (CursorX s) + 1"
    using Cons.prems(2) by (intro u8_inc) (simp add: word_less_nat_alt)
  then have ne: "CursorX s + 1 \<noteq> TTYWidth"
    using Cons.prems(2) by (auto simp: TTYWidth_def)
  have put: "tty_put c s = s\<lparr>TextBuffer := (TextBuffer s)(?b := push_bit 8 (ucast (Attribute s)) OR ucast c),
      CursorX := CursorX s + 1\<rparr>"
    using Cons.prems(1) ne by (auto simp: tty_put_def Let_def TTYWidth_def)
  let ?s = "tty_put c s" and ?v = "\<lambda>c. push_bit 8 (ucast (Attribute s)) OR ucast c :: u16"
  have s': "CursorX ?s = CursorX s + 1" "CursorY ?s = CursorY s" "Attribute ?s = Attribute s"
      "TextBuffer ?s = (TextBuffer s)(?b := ?v c)"
    unfolding put by simp_all
  have buf: "(if Suc ?b \<le> i \<and> i < Suc ?b + length cs then ?v (cs ! (i - Suc ?b)) else TextBuffer ?s i) =
      (if ?b \<le> i \<and> i < ?b + length (c # cs) then ?v ((c # cs) ! (i - ?b)) else TextBuffer s i)" for i
    unfolding s' by (cases "i = ?b") (auto simp: nth_Cons')
  have "unat (CursorX ?s) + length cs < 80" "\<forall>c \<in> set cs. c \<notin> {8, 10, 13}"
    using Cons.prems x s' by auto
  from Cons.IH [OF this(2,1)] show ?case
    unfolding fold_Cons o_apply Let_def s'(1-3) x add_Suc_right One_nat_def
    by (simp only: buf add_0_right add_Suc_right) (simp add: put)
qed

text \<open>
  Printable text that fits the rest of the line is stored cell by cell with the current
  attribute, moves the cursor by its length, and touches nothing else of the buffer.
\<close>

lemma printable_text_is_stored_cell_by_cell:
  assumes "\<forall>c \<in> set cs. c \<notin> {8, 10, 13}" "unat (CursorX s) + length cs < 80" "i < length cs"
  shows "TextBuffer (TTYWrite cs s) (unat (CursorY s) * 80 + unat (CursorX s) + i) =
      push_bit 8 (ucast (Attribute s)) OR ucast (cs ! i) \<and>
    unat (CursorX (TTYWrite cs s)) = unat (CursorX s) + length cs \<and>
    CursorY (TTYWrite cs s) = CursorY s \<and>
    (\<forall>j. j < unat (CursorY s) * 80 + unat (CursorX s) \<or>
         unat (CursorY s) * 80 + unat (CursorX s) + length cs \<le> j \<longrightarrow>
         TextBuffer (TTYWrite cs s) j = TextBuffer s j)"
proof -
  have "unat (of_nat (length cs) :: u8) = length cs"
    using assms(2) by (simp add: unsigned_of_nat take_bit_nat_eq_self)
  then have "unat (CursorX s + of_nat (length cs)) = unat (CursorX s) + length cs"
    using assms(2) by (simp add: unat_word_ariths)
  with assms(3) show ?thesis
    unfolding TTYWrite_def cursor_update fold_line [OF assms(1,2)] by (simp add: Let_def)
qed

lemma printable_text_is_stored_cell_by_cell_witness:
  "TextBuffer (TTYWrite [72, 105] blank_tty) 1 = 0x0769 \<and> CursorX (TTYWrite [72, 105] blank_tty) = 2"
  using printable_text_is_stored_cell_by_cell [of "[72, 105]" blank_tty 1]
  by (simp add: onscreen_def blank_tty_def tty_consts word_unat_eq_iff)

end
