(* ===== verification/Kprintf.thy ===== *)
theory Kprintf
  imports Libc TTY
begin

unbundle bit_operations_syntax

text \<open>
  Formatted output (\<open>kernel/src/Kprintf.c\<close>) and the panic screen (\<open>kernel/src/KPanic.c\<close>).
  \<open>KprintfStream\<close> is \<open>TTYStream\<close> from the first call on; nothing else assigns it. A format is
  given by its bytes before the terminator, the variable arguments by their 32-bit slots; the
  argument of \<open>%s\<close> is a pointer into the byte memory.
\<close>

subsection \<open>Operations\<close>

text \<open>The bytes of a string literal.\<close>

definition ascii :: "string \<Rightarrow> u8 list" where
  "ascii s = map of_char s"

definition digits :: "u8 list" where
  "digits = ascii ''0123456789ABCDEF''"

definition emit :: "u8 list \<Rightarrow> tty_state \<Rightarrow> tty_state" where
  "emit buf t = snd (IoWrite (TTYStream t) buf (of_nat (length buf)) t)"

definition emit_byte :: "u8 \<Rightarrow> tty_state \<Rightarrow> tty_state" where
  "emit_byte c t = snd (IoWriteByte (TTYStream t) c t)"

text \<open>The conversion loops fill \<open>numberBuffer\<close> from its end.\<close>

primrec dec_loop :: "nat \<Rightarrow> u32 \<Rightarrow> u8 list \<Rightarrow> u8 list" where
  "dec_loop 0 providedNumber buf = buf"
| "dec_loop (Suc k) providedNumber buf =
     dec_loop k (providedNumber div 10) (digits ! unat (providedNumber mod 10) # buf)"

primrec hex_loop :: "nat \<Rightarrow> u32 \<Rightarrow> u8 list \<Rightarrow> u8 list" where
  "hex_loop 0 providedNumber buf = buf"
| "hex_loop (Suc k) providedNumber buf =
     hex_loop k (drop_bit 4 providedNumber) (digits ! unat (providedNumber AND 0xF) # buf)"

text \<open>The bytes a pointer and a length designate.\<close>

definition buffer :: "bytes \<Rightarrow> ptr \<Rightarrow> u32 \<Rightarrow> u8 list" where
  "buffer m p len = map (\<lambda>i. m (p + of_nat i)) [0..<unat len]"

fun Kprintf_loop :: "bytes \<Rightarrow> u8 list \<Rightarrow> u32 list \<Rightarrow> tty_state \<Rightarrow> tty_state run" where
  "Kprintf_loop m [] vargs t = ret t"
| "Kprintf_loop m [c] vargs t = ret (emit_byte c t)"
| "Kprintf_loop m (c # d # cs) vargs t =
     (if c = 37 then
        (if d = 100 \<or> d = 105 then
           (case vargs of
              [] \<Rightarrow> Some (Inl (BadAccess NULL))
            | v # vs \<Rightarrow> Kprintf_loop m cs vs (emit (dec_loop 10 v []) t))
         else if d = 120 then
           (case vargs of
              [] \<Rightarrow> Some (Inl (BadAccess NULL))
            | v # vs \<Rightarrow> Kprintf_loop m cs vs (emit (hex_loop 8 v []) t))
         else if d = 115 then
           (case vargs of
              [] \<Rightarrow> Some (Inl (BadAccess NULL))
            | v # vs \<Rightarrow>
                mbind (KAssert (v \<noteq> NULL) ''providedString != NULL'') (\<lambda>_.
                mbind (strlen m v) (\<lambda>len.
                  Kprintf_loop m cs vs (emit (buffer m v len) t))))
         else Kprintf_loop m cs vargs (emit_byte d (emit_byte 37 t)))
      else Kprintf_loop m (d # cs) vargs (emit_byte c t))"

definition Kprintf :: "bytes \<Rightarrow> string \<Rightarrow> u32 list \<Rightarrow> tty_state \<Rightarrow> tty_state run" where
  "Kprintf m msg vargs t = Kprintf_loop m (ascii msg) vargs t"

text \<open>What \<open>KPanic\<close> writes before it halts for good; the reason is used as a format.\<close>

definition KPanic_screen :: "bytes \<Rightarrow> string \<Rightarrow> tty_state \<Rightarrow> tty_state run" where
  "KPanic_screen m reason t =
     mbind (Kprintf m ''\<newline>\<newline>'' [] t) (\<lambda>t.
     mbind (Kprintf m ''-----------------------------\<newline>'' [] t) (\<lambda>t.
     mbind (Kprintf m '' Kernel panic!               \<newline>'' [] t) (\<lambda>t.
     mbind (Kprintf m ''-----------------------------\<newline>'' [] t) (\<lambda>t.
     mbind (Kprintf m '' '' [] t) (\<lambda>t.
     mbind (Kprintf m reason [] t) (\<lambda>t.
     mbind (Kprintf m ''\<newline>\<newline>'' [] t) (\<lambda>t.
     mbind (Kprintf m '' McpgOS kernel will now halt \<newline>'' [] t) (\<lambda>t.
     Kprintf m ''-----------------------------\<newline>'' [] t))))))))"

subsection \<open>What is printed\<close>

text \<open>Everything but the port log.\<close>

lemma tty_put_ports [simp]: "tty_put c (t\<lparr>ports := p\<rparr>) = (tty_put c t)\<lparr>ports := p\<rparr>"
  by (simp add: tty_put_def Let_def TTYNewLine_def TTYScroll_def)

lemma tty_put_keeps [simp]: "ports (tty_put c t) = ports t"
    "TTYStreamReady (tty_put c t) = TTYStreamReady t"
  by (simp_all add: tty_put_def Let_def TTYNewLine_def TTYScroll_def)

lemma fold_tty_put_ports [simp]:
  "fold tty_put cs (t\<lparr>ports := p\<rparr>) = (fold tty_put cs t)\<lparr>ports := p\<rparr>"
  by (induction cs arbitrary: t) auto

lemma fold_tty_put_keeps [simp]: "ports (fold tty_put cs t) = ports t"
    "TTYStreamReady (fold tty_put cs t) = TTYStreamReady t"
  by (induction cs arbitrary: t) auto

definition prints :: "u8 list \<Rightarrow> tty_state \<Rightarrow> tty_state \<Rightarrow> bool" where
  "prints out t t' \<longleftrightarrow> (\<exists>p. t' = (if TTYStreamReady t then fold tty_put out t else t)\<lparr>ports := p\<rparr>)"

lemma prints_Nil [simp]: "prints [] t t"
  by (auto simp: prints_def intro!: exI [of _ "ports t"])

lemma prints_append: "prints a t t' \<Longrightarrow> prints b t' t'' \<Longrightarrow> prints (a @ b) t t''"
  by (auto simp: prints_def)

lemma emit_prints: "length buf < 4294967296 \<Longrightarrow> prints buf t (emit buf t)"
  by (auto simp: prints_def emit_def IoWrite_def TTYStream_def IoInsertStreamCallbacks_def
      null_stream_def TTYIOWrite_def unat_of_nat32 TTYWrite_def TTYUpdateVGACursorPosition_def
      TTYVGAMoveCursor_def Let_def outb_def intro: exI [of _ "ports t"])

lemma emit_byte_prints: "prints [c] t (emit_byte c t)"
  using emit_prints [of "[c]" t] by (simp add: emit_def emit_byte_def IoWriteByte_def)


subsection \<open>Numerals\<close>

text \<open>Reading digits back, most significant first.\<close>

definition digit_value :: "u8 \<Rightarrow> nat" where
  "digit_value c = (if c \<ge> 65 then unat c - 55 else unat c - 48)"

definition read_numeral :: "nat \<Rightarrow> u8 list \<Rightarrow> nat" where
  "read_numeral b cs = foldl (\<lambda>n c. n * b + digit_value c) 0 cs"

lemma digits_eq: "digits = [48, 49, 50, 51, 52, 53, 54, 55, 56, 57, 65, 66, 67, 68, 69, 70]"
  by (simp add: digits_def ascii_def)

lemma sixteen: "i < 16 \<Longrightarrow> i \<in> {0, 1, 2, 3, 4, 5, 6, 7, 8, 9, 10, 11, 12, 13, 14, 15}" for i :: nat
  by (simp add: less_Suc_eq numeral_eq_Suc)

lemma digit_value_digits: "i < 16 \<Longrightarrow> digit_value (digits ! i) = i"
  by (drule sixteen) (auto simp: digits_eq digit_value_def)

lemma digits_ten: "i < 10 \<Longrightarrow> digits ! i \<in> set (ascii ''0123456789'')"
proof -
  assume "i < 10"
  then have "i \<in> {0, 1, 2, 3, 4, 5, 6, 7, 8, 9}" by auto
  then show ?thesis by (auto simp: digits_eq ascii_def)
qed

lemma foldl_shift: "foldl (\<lambda>n c. n * b + f c) x cs = x * b ^ length cs + foldl (\<lambda>n c. n * b + f c) 0 cs"
  for b x :: nat
proof (induction cs arbitrary: x)
  case Nil
  then show ?case by simp
next
  case (Cons c cs)
  from Cons [of "x * b + f c"] Cons [of "f c"] show ?case by (simp add: algebra_simps)
qed

lemma read_numeral_Cons: "read_numeral b (c # cs) = digit_value c * b ^ length cs + read_numeral b cs"
  unfolding read_numeral_def by (simp add: foldl_shift [of b digit_value "digit_value c"])

lemma dec_loop_length [simp]: "length (dec_loop k v buf) = k + length buf"
  by (induction k arbitrary: v buf) auto

lemma hex_loop_length [simp]: "length (hex_loop k v buf) = k + length buf"
  by (induction k arbitrary: v buf) auto

lemma hex_loop_numeral: "hex_loop (numeral k) v buf =
    hex_loop (pred_numeral k) (drop_bit 4 v) (digits ! unat (v AND 0xF) # buf)"
  by (simp add: numeral_eq_Suc)

lemma nibble: "unat (v AND 0xF) = unat v mod 16" for v :: u32
proof -
  have "v AND 0xF = take_bit 4 v" by (simp add: take_bit_eq_mask mask_eq_exp_minus_1)
  moreover have "unat (take_bit 4 v) = take_bit 4 (unat v)" by (rule unsigned_take_bit_eq)
  ultimately show ?thesis by (simp only: take_bit_eq_mod) simp
qed

lemma unat_ten: "unat (v mod 10) = unat v mod 10" "unat (v div 10) = unat v div 10" for v :: u32
  by (simp_all add: unat_mod unat_div)

lemma dec_loop_value: "read_numeral 10 (dec_loop k v buf) =
    unat v mod 10 ^ k * 10 ^ length buf + read_numeral 10 buf"
proof (induction k arbitrary: v buf)
  case 0
  then show ?case by simp
next
  case (Suc k)
  have "unat v mod 10 ^ Suc k = unat v mod 10 + unat v div 10 mod 10 ^ k * 10"
    using mod_mult2_eq [of "unat v" 10 "10 ^ k"] by simp
  moreover have "digit_value (digits ! (unat v mod 10)) = unat v mod 10"
    by (rule digit_value_digits) (simp add: order.strict_trans [of _ 10 16])
  ultimately show ?case
    by (simp add: Suc read_numeral_Cons unat_ten algebra_simps)
qed

lemma hex_loop_value: "read_numeral 16 (hex_loop k v buf) =
    unat v mod 16 ^ k * 16 ^ length buf + read_numeral 16 buf"
proof (induction k arbitrary: v buf)
  case 0
  then show ?case by simp
next
  case (Suc k)
  have "unat v mod 16 ^ Suc k = unat v mod 16 + unat v div 16 mod 16 ^ k * 16"
    using mod_mult2_eq [of "unat v" 16 "16 ^ k"] by simp
  moreover have "digit_value (digits ! (unat v mod 16)) = unat v mod 16"
    by (rule digit_value_digits) simp
  moreover have "unat (drop_bit 4 v) = unat v div 16"
    by (simp add: drop_bit_eq_div unat_div)
  ultimately show ?case
    by (simp add: Suc read_numeral_Cons nibble algebra_simps)
qed

lemma dec_loop_digits:
  "set buf \<subseteq> set (ascii ''0123456789'') \<Longrightarrow> set (dec_loop k v buf) \<subseteq> set (ascii ''0123456789'')"
proof (induction k arbitrary: v buf)
  case (Suc k)
  have "digits ! unat (v mod 10) \<in> set (ascii ''0123456789'')"
    by (rule digits_ten) (simp add: unat_ten)
  with Suc show ?case by simp
qed simp

subsection \<open>Formats\<close>

text \<open>
  What a format means, on values rather than slots: the bytes to print, or nothing when the
  arguments do not fit the conversions.
\<close>

datatype argument = Number u32 | Text "u8 list"

fun passed :: "bytes \<Rightarrow> argument \<Rightarrow> u32 \<Rightarrow> bool" where
  "passed m (Number v) w \<longleftrightarrow> w = v"
| "passed m (Text s) w \<longleftrightarrow> w \<noteq> NULL \<and> cstr m w s"

fun format :: "u8 list \<Rightarrow> argument list \<Rightarrow> u8 list option" where
  "format [] vs = Some []"
| "format [c] vs = Some [c]"
| "format (c # d # cs) vs =
     (if c \<noteq> 37 then map_option (Cons c) (format (d # cs) vs)
      else if d \<in> {100, 105} then
        (case vs of Number v # vs' \<Rightarrow> map_option (append (dec_loop 10 v [])) (format cs vs') | _ \<Rightarrow> None)
      else if d = 120 then
        (case vs of Number v # vs' \<Rightarrow> map_option (append (hex_loop 8 v [])) (format cs vs') | _ \<Rightarrow> None)
      else if d = 115 then
        (case vs of Text s # vs' \<Rightarrow> map_option (append s) (format cs vs') | _ \<Rightarrow> None)
      else map_option (append [37, d]) (format cs vs))"

lemma cstr_nth: "cstr m p s \<Longrightarrow> i < length s \<Longrightarrow> m (p + of_nat i) = s ! i \<and> s ! i \<noteq> 0"
proof (induction s arbitrary: p i)
  case (Cons c s)
  with Cons.IH [of "p + 1" "i - 1"] show ?case by (cases i) (auto simp: add.assoc)
qed simp

lemma cstr_end: "cstr m p s \<Longrightarrow> m (p + of_nat (length s)) = 0"
proof (induction s arbitrary: p)
  case (Cons c s)
  from Cons.IH [of "p + 1"] Cons.prems show ?case by (simp add: add.assoc)
qed simp

text \<open>A string is shorter than the address space, or its terminator would be one of its bytes.\<close>

lemma cstr_short:
  assumes "cstr m p s"
  shows "length s < 4294967296"
proof (rule ccontr)
  assume "\<not> length s < 4294967296"
  then obtain k where k: "length s = k + 4294967296"
    by (metis add.commute le_Suc_ex linorder_not_less)
  have z: "(4294967296 :: u32) = 0" by simp
  have "(of_nat (length s) :: u32) = of_nat k"
    unfolding k of_nat_add of_nat_numeral z by (rule add_0_right)
  with cstr_end [OF assms] have "m (p + of_nat k) = 0" by (simp only:)
  with cstr_nth [OF assms, of k] k show False by simp
qed

lemma buffer_cstr: "cstr m p s \<Longrightarrow> buffer m p (of_nat (length s)) = s"
  by (intro nth_equalityI) (auto simp: buffer_def unat_of_nat32 cstr_short cstr_nth)

lemma Kprintf_loop_format:
  "format fmt vs = Some out \<Longrightarrow> list_all2 (passed m) vs vargs \<Longrightarrow>
    \<exists>t'. Kprintf_loop m fmt vargs t = ret t' \<and> prints out t t'"
proof (induction fmt vs arbitrary: vargs t out rule: format.induct)
  case (3 c d cs vs)
  have go: "\<exists>t'. Kprintf_loop m rest vargs' u = ret t' \<and> prints out t t'"
    if IH: "\<And>vargs' u out'. format rest vs' = Some out' \<Longrightarrow> list_all2 (passed m) vs' vargs' \<Longrightarrow>
        \<exists>t'. Kprintf_loop m rest vargs' u = ret t' \<and> prints out' u t'"
      and rest: "format rest vs' = Some out'" "list_all2 (passed m) vs' vargs'"
      and first: "prints bs t u" "out = bs @ out'" for rest vs' vargs' u bs out'
    using IH [OF rest, of u] prints_append [OF first(1)] first(2) by blast
  consider (plain) "c \<noteq> 37" | (dec) "c = 37" "d \<in> {100, 105}" | (hex) "c = 37" "d = 120"
    | (str) "c = 37" "d = 115" | (other) "c = 37" "d \<notin> {100, 105, 120, 115}" by blast
  then show ?case
  proof cases
    case plain
    with "3.prems"(1) obtain out' where "format (d # cs) vs = Some out'" "out = [c] @ out'" by auto
    from go [OF "3.IH"(1) [OF plain] this(1) "3.prems"(2) emit_byte_prints this(2)] plain
    show ?thesis by simp
  next
    case dec
    with "3.prems" obtain v vs' vargs' out' where *: "vs = Number v # vs'" "vargs = v # vargs'"
      "format cs vs' = Some out'" "out = dec_loop 10 v [] @ out'" "list_all2 (passed m) vs' vargs'"
      by (auto split: list.splits argument.splits simp: list_all2_Cons1)
    from go [OF "3.IH"(2) [OF _ dec(2) *(1) refl] *(3,5) emit_prints *(4)] dec *(2)
    show ?thesis by auto
  next
    case hex
    with "3.prems" obtain v vs' vargs' out' where *: "vs = Number v # vs'" "vargs = v # vargs'"
      "format cs vs' = Some out'" "out = hex_loop 8 v [] @ out'" "list_all2 (passed m) vs' vargs'"
      by (auto split: list.splits argument.splits simp: list_all2_Cons1)
    from go [OF "3.IH"(3) [OF _ _ hex(2) *(1) refl] *(3,5) emit_prints *(4)] hex *(2)
    show ?thesis by auto
  next
    case str
    with "3.prems" obtain s vs' v vargs' out' where *: "vs = Text s # vs'" "vargs = v # vargs'"
      "format cs vs' = Some out'" "out = s @ out'" "list_all2 (passed m) vs' vargs'"
      and s: "v \<noteq> NULL" "cstr m v s"
      by (auto split: list.splits argument.splits simp: list_all2_Cons1)
    from go [OF "3.IH"(4) [OF _ _ _ str(2) *(1) refl] *(3,5) emit_prints *(4)] str *(2) s
    show ?thesis by (auto simp: buffer_cstr cstr_short)
  next
    case other
    with "3.prems"(1) obtain out' where *: "format cs vs = Some out'" "out = [37, d] @ out'" by auto
    have "prints [37, d] t (emit_byte d (emit_byte 37 t))"
      using prints_append [OF emit_byte_prints emit_byte_prints] by simp
    from go [OF "3.IH"(5) *(1) "3.prems"(2) this *(2)] other
    show ?thesis by auto
  qed
qed (auto intro: emit_byte_prints)


lemma format_plain: "37 \<notin> set fmt \<Longrightarrow> format fmt [] = Some fmt"
  by (induction fmt rule: induct_list012) auto

lemma Kprintf_plain:
  "37 \<notin> set (ascii s) \<Longrightarrow> \<exists>t'. Kprintf m s [] t = ret t' \<and> prints (ascii s) t t'"
  using Kprintf_loop_format [OF format_plain, of "ascii s" m "[]"] by (simp add: Kprintf_def)

definition panic_text :: "string \<Rightarrow> string" where
  "panic_text reason = ''\<newline>\<newline>-----------------------------\<newline>'' @
     '' Kernel panic!               \<newline>-----------------------------\<newline> '' @ reason @
     ''\<newline>\<newline> McpgOS kernel will now halt \<newline>-----------------------------\<newline>''"

subsection \<open>Properties\<close>

text \<open>
  C22. \<open>Kprintf\<close> implements its format language: for a format and arguments that fit it (a
  number for \<open>%d\<close>, \<open>%i\<close> and \<open>%x\<close>, a terminated string for \<open>%s\<close>), it returns, and if the
  console stream is ready the screen is the one obtained by putting the rendered bytes one by
  one; before \<open>TTYInit\<close> nothing but the ports changes.
\<close>

theorem Kprintf_renders_format:
  assumes "format (ascii msg) vs = Some out" "list_all2 (passed m) vs vargs"
  shows "\<exists>t'. Kprintf m msg vargs t = ret t' \<and> prints out t t'"
  using Kprintf_loop_format [OF assms] by (simp add: Kprintf_def)

theorem Kprintf_renders_format_witness:
  "\<exists>t'. Kprintf (\<lambda>a. if a = 0x100 then 104 else if a = 0x101 then 105 else 0) ''%s=%x%'' [0x100, 0x2A] blank_tty
      = ret t' \<and> prints (ascii ''hi=0000002A%'') blank_tty t'"
  by (rule Kprintf_renders_format [where vs = "[Text (ascii ''hi''), Number 0x2A]"])
     (simp_all add: ascii_def digits_eq hex_loop_numeral)

text \<open>
  C40. The conversions round trip for every 32-bit number: \<open>%d\<close> prints exactly ten decimal
  digits and \<open>%x\<close> exactly eight hexadecimal digits, with leading zeros, whose value is the
  number read as unsigned.
\<close>

theorem printed_numbers_read_back:
  "length (dec_loop 10 v []) = 10 \<and> set (dec_loop 10 v []) \<subseteq> set (ascii ''0123456789'') \<and>
   read_numeral 10 (dec_loop 10 v []) = unat v \<and>
   length (hex_loop 8 v []) = 8 \<and> read_numeral 16 (hex_loop 8 v []) = unat v"
proof -
  have "unat v < 2 ^ 32" using unsigned_less [of v] by simp
  then show ?thesis
    using dec_loop_digits [of "[]" 10 v]
    by (simp add: dec_loop_value hex_loop_value read_numeral_def [of _ "[]"])
qed

text \<open>
  The panic screen shows the banner and the reason when the reason has no percent sign.
  The reason is used as a format without arguments: with a conversion in it, the argument is
  read although none was passed.
\<close>

lemma KPanic_uses_reason_as_format:
  "(37 \<notin> set (ascii reason) \<longrightarrow>
     (\<exists>t'. KPanic_screen m reason t = ret t' \<and> prints (ascii (panic_text reason)) t t')) \<and>
   KPanic_screen m ''%d'' t = Some (Inl (BadAccess NULL))"
proof (intro conjI impI)
  have lit: "37 \<notin> set (ascii ''\<newline>\<newline>'')" "37 \<notin> set (ascii ''-----------------------------\<newline>'')"
    "37 \<notin> set (ascii '' Kernel panic!               \<newline>'')" "37 \<notin> set (ascii '' '')"
    "37 \<notin> set (ascii '' McpgOS kernel will now halt \<newline>'')"
    by (simp_all add: ascii_def)
  note print = Kprintf_plain [OF lit(1), of m] Kprintf_plain [OF lit(2), of m] Kprintf_plain [OF lit(3), of m]
    Kprintf_plain [OF lit(4), of m] Kprintf_plain [OF lit(5), of m]
  obtain t1 where 1: "Kprintf m ''\<newline>\<newline>'' [] t = ret t1" "prints (ascii ''\<newline>\<newline>'') t t1"
    using print(1) by blast
  obtain t2 where 2: "Kprintf m ''-----------------------------\<newline>'' [] t1 = ret t2"
    "prints (ascii ''-----------------------------\<newline>'') t1 t2" using print(2) by blast
  obtain t3 where 3: "Kprintf m '' Kernel panic!               \<newline>'' [] t2 = ret t3"
    "prints (ascii '' Kernel panic!               \<newline>'') t2 t3" using print(3) by blast
  obtain t4 where 4: "Kprintf m ''-----------------------------\<newline>'' [] t3 = ret t4"
    "prints (ascii ''-----------------------------\<newline>'') t3 t4" using print(2) by blast
  obtain t5 where 5: "Kprintf m '' '' [] t4 = ret t5" "prints (ascii '' '') t4 t5" using print(4) by blast
  show "KPanic_screen m ''%d'' t = Some (Inl (BadAccess NULL))"
    unfolding KPanic_screen_def 1 mbind_simps 2 3 4 5 by (simp add: Kprintf_def ascii_def)
  assume "37 \<notin> set (ascii reason)"
  from Kprintf_plain [OF this, of m t5] obtain t6
    where 6: "Kprintf m reason [] t5 = ret t6" "prints (ascii reason) t5 t6" by blast
  obtain t7 where 7: "Kprintf m ''\<newline>\<newline>'' [] t6 = ret t7" "prints (ascii ''\<newline>\<newline>'') t6 t7"
    using print(1) by blast
  obtain t8 where 8: "Kprintf m '' McpgOS kernel will now halt \<newline>'' [] t7 = ret t8"
    "prints (ascii '' McpgOS kernel will now halt \<newline>'') t7 t8" using print(5) by blast
  obtain t9 where 9: "Kprintf m ''-----------------------------\<newline>'' [] t8 = ret t9"
    "prints (ascii ''-----------------------------\<newline>'') t8 t9" using print(2) by blast
  have "KPanic_screen m reason t = ret t9"
    unfolding KPanic_screen_def 1 mbind_simps 2 3 4 5 6 7 8 9 ..
  moreover have "prints (ascii (panic_text reason)) t t9"
    using prints_append [OF prints_append [OF prints_append [OF prints_append [OF prints_append
      [OF prints_append [OF prints_append [OF prints_append [OF 1(2) 2(2)] 3(2)] 4(2)] 5(2)] 6(2)]
      7(2)] 8(2)] 9(2)]
    by (simp add: panic_text_def ascii_def)
  ultimately show "\<exists>t'. KPanic_screen m reason t = ret t' \<and> prints (ascii (panic_text reason)) t t'"
    by blast
qed

lemma KPanic_uses_reason_as_format_witness:
  "\<exists>t'. KPanic_screen (\<lambda>_. 0) ''out of frames'' blank_tty = ret t' \<and>
     prints (ascii (panic_text ''out of frames'')) blank_tty t'"
  using KPanic_uses_reason_as_format [of "''out of frames''"] by (simp add: ascii_def)

end
