(* ===== verification/LibAlloc.thy ===== *)
theory LibAlloc
  imports VirtualMemory Kprintf
begin

unbundle bit_operations_syntax

text \<open>
  The kernel heap, liballoc (\<open>kernel/src/MM/LibAlloc.c\<close>) with its hooks
  (\<open>kernel/src/MM/LibAllocStubs.c\<close>): blocks of pages (\<open>majors\<close>) taken from \<open>MmVmAllocate\<close>, each
  with a list of allocations (\<open>minors\<close>), in the configuration the file selects: alignment 4096,
  16 bytes of alignment information, cases 1, 2, 3 and 5 of \<open>malloc\<close>, no \<open>free\<close>.

  The two structures live in typed maps of their own, keyed by their addresses; the data and the
  alignment bytes live in the byte memory \<open>bmem\<close>. Reading a structure where none was written
  gives whatever the map holds there. \<open>long long\<close> counters are 64-bit words; \<open>bestSize\<close> only
  ever holds differences of 32-bit sizes, so it is kept at 32 bits.
\<close>

record liballoc_major =
  maj_prev :: ptr
  maj_next :: ptr
  maj_pages :: u32
  maj_size :: u32
  maj_usage :: u32
  maj_first :: ptr

record liballoc_minor =
  min_prev :: ptr
  min_next :: ptr
  min_block :: ptr
  min_magic :: u32
  min_size :: u32
  min_req_size :: u32

record heap_state = mm_state +
  bmem :: bytes
  console :: tty_state
  LibAllocLock :: bool
  majors :: "ptr \<Rightarrow> liballoc_major"
  minors :: "ptr \<Rightarrow> liballoc_minor"
  l_memRoot :: ptr
  l_bestBet :: ptr
  l_allocated :: u64
  l_inuse :: u64
  l_warningCount :: u64
  l_errorCount :: u64
  l_possibleOverruns :: u64

definition ALIGNMENT :: u32 where "ALIGNMENT = 4096"
definition ALIGN_INFO :: u32 where "ALIGN_INFO = 16"
definition LIBALLOC_MAGIC :: u32 where "LIBALLOC_MAGIC = 0xc001c0de"
definition LIBALLOC_DEAD :: u32 where "LIBALLOC_DEAD = 0xdeaddead"
definition l_pageSize :: u32 where "l_pageSize = 4096"
definition l_pageCount :: u32 where "l_pageCount = 16"
definition sizeof_major :: u32 where "sizeof_major = 24"
definition sizeof_minor :: u32 where "sizeof_minor = 24"

lemmas liballoc_consts = ALIGNMENT_def ALIGN_INFO_def l_pageSize_def l_pageCount_def
  sizeof_major_def sizeof_minor_def

subsection \<open>Hooks and helpers\<close>

text \<open>\<open>printf\<close> is \<open>Kprintf\<close>; a \<open>long long\<close> argument takes two slots, low half first.\<close>

definition kprintf :: "string \<Rightarrow> u32 list \<Rightarrow> 'z heap_state_scheme \<Rightarrow> 'z heap_state_scheme run" where
  "kprintf msg vargs s = mbind (Kprintf (bmem s) msg vargs (console s)) (\<lambda>t. ret (s\<lparr>console := t\<rparr>))"

definition slots :: "u64 \<Rightarrow> u32 list" where
  "slots n = [ucast n, ucast (drop_bit 32 n)]"

text \<open>A taken lock is waited for with \<open>hlt\<close>; nothing else in the kernel releases it.\<close>

definition liballoc_lock :: "'z heap_state_scheme \<Rightarrow> 'z heap_state_scheme run" where
  "liballoc_lock s = (if LibAllocLock s then None else ret (s\<lparr>LibAllocLock := True\<rparr>))"

definition liballoc_unlock :: "'z heap_state_scheme \<Rightarrow> 'z heap_state_scheme" where
  "liballoc_unlock s = s\<lparr>LibAllocLock := False\<rparr>"

definition liballoc_alloc :: "linker \<Rightarrow> 'z heap_state_scheme \<Rightarrow> u32 \<Rightarrow> (ptr \<times> 'z heap_state_scheme) res" where
  "liballoc_alloc L s amount = MmVmAllocate L s amount"

definition liballoc_free :: "linker \<Rightarrow> 'z heap_state_scheme \<Rightarrow> ptr \<Rightarrow> u32 \<Rightarrow> 'z heap_state_scheme res" where
  "liballoc_free L s pageBase amount = MmVmFree L s pageBase amount"

function liballoc_memset_loop :: "bytes \<Rightarrow> ptr \<Rightarrow> u32 \<Rightarrow> u32 \<Rightarrow> u32 \<Rightarrow> bytes" where
  "liballoc_memset_loop m p c n i =
     (if i < n then liballoc_memset_loop (m(p + i := ucast c)) p c n (i + 1) else m)"
  by pat_completeness auto
termination
  by (relation "measure (\<lambda>(m, p, c, n, i). unat n - unat i)") (auto simp: measure_up32)

definition liballoc_memset :: "bytes \<Rightarrow> ptr \<Rightarrow> u32 \<Rightarrow> u32 \<Rightarrow> bytes" where
  "liballoc_memset m p c n = liballoc_memset_loop m p c n 0"

text \<open>\<open>*ldest++ = *lsrc++\<close>: four bytes are read, then written.\<close>

definition copy_word :: "bytes \<Rightarrow> ptr \<Rightarrow> ptr \<Rightarrow> bytes" where
  "copy_word m d s = m(d := m s, d + 1 := m (s + 1), d + 2 := m (s + 2), d + 3 := m (s + 3))"

function copy_bytes :: "bytes \<Rightarrow> ptr \<Rightarrow> ptr \<Rightarrow> u32 \<Rightarrow> bytes" where
  "copy_bytes m cdest csrc n =
     (if n > 0 then copy_bytes (m(cdest := m csrc)) (cdest + 1) (csrc + 1) (n - 1) else m)"
  by pat_completeness auto
termination
  by (relation "measure (\<lambda>(m, d, s, n). unat n)") (auto simp: unat_dec32)

lemma unat_dec4: "n \<ge> 4 \<Longrightarrow> unat (n - 4) = unat n - 4" for n :: u32
  by (simp add: unat_sub)

function liballoc_memcpy :: "bytes \<Rightarrow> ptr \<Rightarrow> ptr \<Rightarrow> u32 \<Rightarrow> bytes" where
  "liballoc_memcpy m ldest lsrc n =
     (if n \<ge> 4 then liballoc_memcpy (copy_word m ldest lsrc) (ldest + 4) (lsrc + 4) (n - 4)
      else copy_bytes m ldest lsrc n)"
  by pat_completeness auto
termination
  by (relation "measure (\<lambda>(m, d, s, n). unat n)") (auto simp: unat_dec4 word_le_nat_alt)

declare liballoc_memset_loop.simps [simp del] copy_bytes.simps [simp del] liballoc_memcpy.simps [simp del]

text \<open>\<open>liballoc_dump\<close> without \<open>DEBUG\<close>.\<close>

definition liballoc_dump :: "'z heap_state_scheme \<Rightarrow> 'z heap_state_scheme run" where
  "liballoc_dump s =
     mbind (kprintf ''liballoc: ------ Memory data ---------------\<newline>'' [] s) (\<lambda>s.
     mbind (kprintf ''liballoc: System memory allocated: %i bytes\<newline>'' (slots (l_allocated s)) s) (\<lambda>s.
     mbind (kprintf ''liballoc: Memory in used (malloc'ed): %i bytes\<newline>'' (slots (l_inuse s)) s) (\<lambda>s.
     mbind (kprintf ''liballoc: Warning count: %i\<newline>'' (slots (l_warningCount s)) s) (\<lambda>s.
     mbind (kprintf ''liballoc: Error count: %i\<newline>'' (slots (l_errorCount s)) s) (\<lambda>s.
     kprintf ''liballoc: Possible overruns: %i\<newline>'' (slots (l_possibleOverruns s)) s)))))"

text \<open>The \<open>ALIGN\<close> and \<open>UNALIGN\<close> macros. The information is one byte, \<open>ALIGN_INFO\<close> below the
  aligned pointer.\<close>

definition ALIGN :: "ptr \<Rightarrow> bytes \<Rightarrow> ptr \<times> bytes" where
  "ALIGN p m =
     (let p1 = p + ALIGN_INFO;
          diff = p1 AND (ALIGNMENT - 1);
          (p2, diff) = (if diff \<noteq> 0 then (p1 + (ALIGNMENT - diff), ALIGNMENT - diff) else (p1, diff))
      in (p2, m(p2 - ALIGN_INFO := ucast (diff + ALIGN_INFO))))"

definition UNALIGN :: "ptr \<Rightarrow> bytes \<Rightarrow> ptr" where
  "UNALIGN p m =
     (let diff = ucast (m (p - ALIGN_INFO)) :: u32
      in if diff < ALIGNMENT + ALIGN_INFO then p - diff else p)"

text \<open>How many pages \<open>allocate_new_page\<close> asks for.\<close>

definition pages_for :: "u32 \<Rightarrow> u32" where
  "pages_for size' =
     (let st = size' + sizeof_major + sizeof_minor;
          st = (if st mod l_pageSize = 0 then st div l_pageSize else st div l_pageSize + 1)
      in if st < l_pageCount then l_pageCount else st)"

definition allocate_new_page :: "linker \<Rightarrow> u32 \<Rightarrow> 'z heap_state_scheme \<Rightarrow> (ptr \<times> 'z heap_state_scheme) run" where
  "allocate_new_page L size' s =
     (let st = pages_for size' in
      mbind (Some (liballoc_alloc L s st)) (\<lambda>(maj, s).
        if maj = NULL then
          mbind (kprintf ''liballoc: WARNING: liballoc_alloc( %i ) return NULL\<newline>'' [st]
            (s\<lparr>l_warningCount := l_warningCount s + 1\<rparr>)) (\<lambda>s. ret (NULL, s))
        else
          ret (maj, s\<lparr>majors := (majors s)(maj := \<lparr>maj_prev = NULL, maj_next = NULL, maj_pages = st,
                         maj_size = st * l_pageSize, maj_usage = sizeof_major, maj_first = NULL\<rparr>),
                      l_allocated := l_allocated s + ucast (st * l_pageSize)\<rparr>)))"

subsection \<open>malloc\<close>

definition upd_major :: "ptr \<Rightarrow> (liballoc_major \<Rightarrow> liballoc_major) \<Rightarrow> 'z heap_state_scheme \<Rightarrow> 'z heap_state_scheme" where
  "upd_major p f s = s\<lparr>majors := (majors s)(p := f (majors s p))\<rparr>"

definition upd_minor :: "ptr \<Rightarrow> (liballoc_minor \<Rightarrow> liballoc_minor) \<Rightarrow> 'z heap_state_scheme \<Rightarrow> 'z heap_state_scheme" where
  "upd_minor p f s = s\<lparr>minors := (minors s)(p := f (minors s p))\<rparr>"

text \<open>How an iteration of the search loop ends: a \<open>return\<close>, the next block to look at (with
  \<open>startedBet\<close> and \<open>bestSize\<close>), or a \<open>break\<close>.\<close>

datatype 's outcome = Return ptr 's | Continue ptr bool u32 's | Break 's

text \<open>\<open>maj->next = allocate_new_page( size )\<close> and, if there is one, its back pointer.\<close>

definition new_next :: "linker \<Rightarrow> u32 \<Rightarrow> ptr \<Rightarrow> 'z heap_state_scheme \<Rightarrow> (ptr \<times> 'z heap_state_scheme) run" where
  "new_next L size' maj s =
     mbind (allocate_new_page L size' s) (\<lambda>(new, s).
       let s = upd_major maj (\<lambda>m. m\<lparr>maj_next := new\<rparr>) s in
       ret (new, if new = NULL then s else upd_major new (\<lambda>m. m\<lparr>maj_prev := maj\<rparr>) s))"

text \<open>The end of cases 2 and 3: the pointer is aligned and the lock released.\<close>

definition finish_block :: "ptr \<Rightarrow> 'z heap_state_scheme \<Rightarrow> ptr \<times> 'z heap_state_scheme" where
  "finish_block first s =
     (let (p, m) = ALIGN (first + sizeof_minor) (bmem s) in (p, liballoc_unlock (s\<lparr>bmem := m\<rparr>)))"

definition case_2 :: "u32 \<Rightarrow> u32 \<Rightarrow> ptr \<Rightarrow> 'z heap_state_scheme \<Rightarrow> ptr \<times> 'z heap_state_scheme" where
  "case_2 size' req_size maj s =
     (let first = maj + sizeof_major;
          s = upd_major maj (\<lambda>m. m\<lparr>maj_first := first\<rparr>) s;
          s = s\<lparr>minors := (minors s)(first := \<lparr>min_prev = NULL, min_next = NULL, min_block = maj,
                 min_magic = LIBALLOC_MAGIC, min_size = size', min_req_size = req_size\<rparr>)\<rparr>;
          s = upd_major maj (\<lambda>m. m\<lparr>maj_usage := maj_usage m + (size' + sizeof_minor)\<rparr>) s
      in finish_block first (s\<lparr>l_inuse := l_inuse s + ucast size'\<rparr>))"

definition case_3 :: "u32 \<Rightarrow> u32 \<Rightarrow> ptr \<Rightarrow> 'z heap_state_scheme \<Rightarrow> ptr \<times> 'z heap_state_scheme" where
  "case_3 size' req_size maj s =
     (let old = maj_first (majors s maj);
          first = maj + sizeof_major;
          s = upd_minor old (\<lambda>m. m\<lparr>min_prev := first\<rparr>) s;
          s = upd_minor first (\<lambda>m. m\<lparr>min_next := old\<rparr>) s;
          s = upd_major maj (\<lambda>m. m\<lparr>maj_first := first\<rparr>) s;
          s = upd_minor first (\<lambda>m. m\<lparr>min_magic := LIBALLOC_MAGIC, min_prev := NULL, min_block := maj,
                 min_size := size', min_req_size := req_size\<rparr>) s;
          s = upd_major maj (\<lambda>m. m\<lparr>maj_usage := maj_usage m + (size' + sizeof_minor)\<rparr>) s
      in finish_block first (s\<lparr>l_inuse := l_inuse s + ucast size'\<rparr>))"

text \<open>Cases 2, 3 and 5, in a block with enough free bytes (or a new one).\<close>

definition place :: "linker \<Rightarrow> u32 \<Rightarrow> u32 \<Rightarrow> ptr \<Rightarrow> bool \<Rightarrow> u32 \<Rightarrow> 'z heap_state_scheme
    \<Rightarrow> 'z heap_state_scheme outcome run" where
  "place L size' req_size maj startedBet bestSize s =
     (let m = majors s maj in
      if maj_first m = NULL then (case case_2 size' req_size maj s of (p, s) \<Rightarrow> ret (Return p s))
      else if maj_first m - maj - sizeof_major \<ge> size' + sizeof_minor
      then (case case_3 size' req_size maj s of (p, s) \<Rightarrow> ret (Return p s))
      else if maj_next m \<noteq> NULL then ret (Continue (maj_next m) startedBet bestSize s)
      else if startedBet then ret (Continue (l_memRoot s) False bestSize s)
      else mbind (new_next L size' maj s) (\<lambda>(new, s).
        ret (if new = NULL then Break s else Continue new startedBet bestSize s)))"

text \<open>One iteration on the block \<open>maj\<close>.\<close>

definition malloc_step :: "linker \<Rightarrow> u32 \<Rightarrow> u32 \<Rightarrow> ptr \<Rightarrow> bool \<Rightarrow> u32 \<Rightarrow> 'z heap_state_scheme
    \<Rightarrow> 'z heap_state_scheme outcome run" where
  "malloc_step L size' req_size maj startedBet bestSize s =
     (let m = majors s maj;
          diff = maj_size m - maj_usage m;
          (s, bestSize) = (if bestSize < diff then (s\<lparr>l_bestBet := maj\<rparr>, diff) else (s, bestSize))
      in if diff < size' + sizeof_minor then
           (if maj_next m \<noteq> NULL then ret (Continue (maj_next m) startedBet bestSize s)
            else if startedBet then ret (Continue (l_memRoot s) False bestSize s)
            else mbind (new_next L size' maj s) (\<lambda>(new, s).
              if new = NULL then ret (Break s) else place L size' req_size new startedBet bestSize s))
         else place L size' req_size maj startedBet bestSize s)"

text \<open>After the loop.\<close>

definition exhausted :: "u32 \<Rightarrow> 'z heap_state_scheme \<Rightarrow> (ptr \<times> 'z heap_state_scheme) run" where
  "exhausted size' s =
     mbind (kprintf ''liballoc: WARNING: PREFIX(malloc)( %i ) returning NULL.\<newline>'' [size'] (liballoc_unlock s)) (\<lambda>s.
     mbind (liballoc_dump s) (\<lambda>s. ret (NULL, s)))"

partial_function (option) malloc_loop :: "linker \<Rightarrow> u32 \<Rightarrow> u32 \<Rightarrow> ptr \<Rightarrow> bool \<Rightarrow> u32
    \<Rightarrow> 'z heap_state_scheme \<Rightarrow> (ptr \<times> 'z heap_state_scheme) run" where
  "malloc_loop L size' req_size maj startedBet bestSize s =
     (if maj = NULL then exhausted size' s
      else case malloc_step L size' req_size maj startedBet bestSize s of
          None \<Rightarrow> None
        | Some (Inl e) \<Rightarrow> Some (Inl e)
        | Some (Inr (Return p s)) \<Rightarrow> ret (p, s)
        | Some (Inr (Break s)) \<Rightarrow> exhausted size' s
        | Some (Inr (Continue maj startedBet bestSize s)) \<Rightarrow>
            malloc_loop L size' req_size maj startedBet bestSize s)"

text \<open>The part of \<open>malloc\<close> under the lock, for a size that is not 0.\<close>

definition malloc_locked :: "linker \<Rightarrow> u32 \<Rightarrow> u32 \<Rightarrow> 'z heap_state_scheme \<Rightarrow> (ptr \<times> 'z heap_state_scheme) run" where
  "malloc_locked L size' req_size s =
     mbind (if l_memRoot s = NULL
            then mbind (allocate_new_page L size' s) (\<lambda>(root, s). ret (s\<lparr>l_memRoot := root\<rparr>))
            else ret s) (\<lambda>s.
       if l_memRoot s = NULL then ret (NULL, liballoc_unlock s)
       else
         (let best = majors s (l_bestBet s);
              bestSize = (if l_bestBet s \<noteq> NULL then maj_size best - maj_usage best else 0);
              startedBet = (l_bestBet s \<noteq> NULL \<and> bestSize > size' + sizeof_minor)
          in malloc_loop L size' req_size (if startedBet then l_bestBet s else l_memRoot s)
               startedBet bestSize s))"

text \<open>A request that makes the adjusted size 0 is answered by \<open>malloc(1)\<close>.\<close>

definition malloc :: "linker \<Rightarrow> u32 \<Rightarrow> 'z heap_state_scheme \<Rightarrow> (ptr \<times> 'z heap_state_scheme) run" where
  "malloc L req_size s =
     (let size' = req_size + (ALIGNMENT + ALIGN_INFO) in
      mbind (liballoc_lock s) (\<lambda>s.
        if size' = 0 then
          mbind (kprintf ''liballoc: WARNING: alloc( 0 ) called from %x\<newline>'' [malloc_caller L]
            (s\<lparr>l_warningCount := l_warningCount s + 1\<rparr>)) (\<lambda>s.
          mbind (liballoc_lock (liballoc_unlock s)) (\<lambda>s.
            malloc_locked L (1 + (ALIGNMENT + ALIGN_INFO)) 1 s))
        else malloc_locked L size' req_size s))"

subsection \<open>calloc and realloc\<close>

text \<open>\<open>calloc\<close> clears the block whether or not there is one.\<close>

definition calloc :: "linker \<Rightarrow> u32 \<Rightarrow> u32 \<Rightarrow> 'z heap_state_scheme \<Rightarrow> (ptr \<times> 'z heap_state_scheme) run" where
  "calloc L nobj size' s =
     (let real_size = nobj * size' in
      mbind (malloc L real_size s) (\<lambda>(p, s).
        ret (p, s\<lparr>bmem := liballoc_memset (bmem s) p 0 real_size\<rparr>)))"

text \<open>What \<open>realloc\<close> reports about a pointer without a valid header. The calls of \<open>free\<close> expand
  to nothing.\<close>

definition bad_pointer :: "linker \<Rightarrow> ptr \<Rightarrow> u32 \<Rightarrow> 'z heap_state_scheme \<Rightarrow> 'z heap_state_scheme run" where
  "bad_pointer L p magic s =
     (let s = s\<lparr>l_errorCount := l_errorCount s + 1\<rparr> in
      mbind (if magic AND 0xFFFFFF = LIBALLOC_MAGIC AND 0xFFFFFF \<or> magic AND 0xFFFF = LIBALLOC_MAGIC AND 0xFFFF
               \<or> magic AND 0xFF = LIBALLOC_MAGIC AND 0xFF
             then kprintf ''liballoc: ERROR: Possible 1-3 byte overrun for magic %x != %x\<newline>'' [magic, LIBALLOC_MAGIC]
                    (s\<lparr>l_possibleOverruns := l_possibleOverruns s + 1\<rparr>)
             else ret s) (\<lambda>s.
      mbind (if magic = LIBALLOC_DEAD
             then kprintf ''liballoc: ERROR: multiple PREFIX(free)() attempt on %x from %x.\<newline>'' [p, malloc_caller L] s
             else kprintf ''liballoc: ERROR: Bad PREFIX(free)( %x ) called from %x\<newline>'' [p, malloc_caller L] s) (\<lambda>s.
      ret (liballoc_unlock s))))"

definition realloc :: "linker \<Rightarrow> ptr \<Rightarrow> u32 \<Rightarrow> 'z heap_state_scheme \<Rightarrow> (ptr \<times> 'z heap_state_scheme) run" where
  "realloc L p size' s =
     (if size' = 0 then ret (NULL, s)
      else if p = NULL then malloc L size' s
      else
        (let ptr = UNALIGN p (bmem s); min = ptr - sizeof_minor in
         mbind (liballoc_lock s) (\<lambda>s.
           if min_magic (minors s min) \<noteq> LIBALLOC_MAGIC then
             mbind (bad_pointer L ptr (min_magic (minors s min)) s) (\<lambda>s. ret (NULL, s))
           else
             (let real_size = min_req_size (minors s min) in
              if real_size \<ge> size' then
                ret (p, liballoc_unlock (upd_minor min (\<lambda>m. m\<lparr>min_req_size := size'\<rparr>) s))
              else
                mbind (malloc L size' (liballoc_unlock s)) (\<lambda>(new, s).
                  ret (new, s\<lparr>bmem := liballoc_memcpy (bmem s) new p real_size\<rparr>))))))"

end
