(* ===== verification/Allocator.thy ===== *)
theory Allocator
  imports Page_Provider
begin

text \<open>
  The interface the kernel's data structures rely on when they ask for memory: \<open>get s n\<close> returns
  an object of \<open>n\<close> bytes in which no byte was live, and whose bytes are live from then on. A
  client that asks for several objects gets objects that do not overlap.
\<close>

text \<open>Asking for objects of the given sizes, one after the other.\<close>

fun get_all :: "('s \<Rightarrow> u32 \<Rightarrow> (ptr \<times> 's) run) \<Rightarrow> u32 list \<Rightarrow> 's \<Rightarrow> ((ptr \<times> u32) list \<times> 's) run" where
  "get_all get [] s = ret ([], s)"
| "get_all get (n # ns) s =
     mbind (get s n) (\<lambda>(p, s1). mbind (get_all get ns s1) (\<lambda>(ps, s2). ret ((p, n) # ps, s2)))"

definition no_overlap :: "ptr \<times> u32 \<Rightarrow> ptr \<times> u32 \<Rightarrow> bool" where
  "no_overlap x y \<longleftrightarrow> (\<forall>a. \<not> (in_range a (fst x) (unat (snd x)) \<and> in_range a (fst y) (unat (snd y))))"

locale allocator =
  fixes get :: "'s \<Rightarrow> u32 \<Rightarrow> (ptr \<times> 's) run" and ok :: "'s \<Rightarrow> bool" and live :: "'s \<Rightarrow> ptr \<Rightarrow> bool"
    and fits :: "u32 \<Rightarrow> bool"
  assumes get_ok: "ok s \<Longrightarrow> fits n \<Longrightarrow> get s n = ret (p, s') \<Longrightarrow> ok s'"
    and get_fresh: "ok s \<Longrightarrow> fits n \<Longrightarrow> get s n = ret (p, s') \<Longrightarrow> in_range a p (unat n) \<Longrightarrow> \<not> live s a"
    and get_live: "ok s \<Longrightarrow> fits n \<Longrightarrow> get s n = ret (p, s') \<Longrightarrow> live s a \<or> in_range a p (unat n) \<Longrightarrow> live s' a"
begin

lemma get_all_live:
  "ok s \<Longrightarrow> list_all fits ns \<Longrightarrow> get_all get ns s = ret (ps, s') \<Longrightarrow>
    ok s' \<and> (\<forall>a. live s a \<longrightarrow> live s' a) \<and> (\<forall>(p, n) \<in> set ps. \<forall>a. in_range a p (unat n) \<longrightarrow> live s' a \<and> \<not> live s a)"
proof (induction ns arbitrary: s ps)
  case Nil
  then show ?case by simp
next
  case (Cons n ns)
  then obtain p s1 qs where p: "get s n = ret (p, s1)" and ps: "ps = (p, n) # qs"
    and qs: "get_all get ns s1 = ret (qs, s')"
    by (auto simp: mbind_eq_ret)
  have n: "fits n" using Cons.prems(2) by simp
  from Cons.IH [OF get_ok [OF Cons.prems(1) n p] _ qs] Cons.prems(2)
  have IH: "ok s'" "\<forall>a. live s1 a \<longrightarrow> live s' a"
    "\<forall>(p, n) \<in> set qs. \<forall>a. in_range a p (unat n) \<longrightarrow> live s' a \<and> \<not> live s1 a" by auto
  note new = get_fresh [OF Cons.prems(1) n p] get_live [OF Cons.prems(1) n p]
  show ?case using IH new unfolding ps by fastforce
qed

lemma get_all_no_overlap:
  "ok s \<Longrightarrow> list_all fits ns \<Longrightarrow> get_all get ns s = ret (ps, s') \<Longrightarrow> sorted_wrt no_overlap ps"
proof (induction ns arbitrary: s ps)
  case Nil
  then show ?case by simp
next
  case (Cons n ns)
  then obtain p s1 qs where p: "get s n = ret (p, s1)" and ps: "ps = (p, n) # qs"
    and qs: "get_all get ns s1 = ret (qs, s')"
    by (auto simp: mbind_eq_ret)
  have n: "fits n" and ns: "list_all fits ns" using Cons.prems(2) by simp_all
  note ok1 = get_ok [OF Cons.prems(1) n p]
  from get_all_live [OF ok1 ns qs] get_live [OF Cons.prems(1) n p]
  have "no_overlap (p, n) q" if "q \<in> set qs" for q
    using that by (fastforce simp: no_overlap_def)
  with Cons.IH [OF ok1 ns qs] show ?case unfolding ps by simp
qed

end

end
