(* ===== verification/Heap_Invariant.thy ===== *)
theory Heap_Invariant
  imports LibAlloc Allocator
begin

unbundle bit_operations_syntax

text \<open>
  Why the kernel heap is safe to use: the shape \<open>heap_ok\<close> of a well-formed heap, how \<open>malloc\<close>
  moves from one well-formed heap to the next, and what \<open>realloc\<close>, \<open>calloc\<close> and the copying
  helpers do on it. In this configuration every block of pages holds exactly one allocation:
  case 4 is disabled, so a block in use is never shared, and nothing is ever freed.
\<close>

subsection \<open>Effects that do not concern the heap\<close>

lemma alloc_frames_state:
  "alloc_frames MmPmAllocate n s = Inr (ps, a) \<Longrightarrow> \<exists>bm top. a = s\<lparr>MmPmBitmap := bm, MmPmBitmapTop := top\<rparr>"
proof (induction n arbitrary: s ps)
  case 0
  then show ?case by (auto intro!: exI [of _ "MmPmBitmap s"] exI [of _ "MmPmBitmapTop s"])
next
  case (Suc n)
  then obtain p s1 qs where p: "MmPmAllocate s = Inr (p, s1)" and qs: "alloc_frames MmPmAllocate n s1 = Inr (qs, a)"
    by (auto simp: rbind_eq_Inr)
  from p obtain i where "s1 = s\<lparr>MmPmBitmapTop := i + 1, MmPmBitmap := pm_write (MmPmBitmap s) i 1\<rparr>"
    by (rule MmPmAllocate_InrE)
  with Suc.IH [OF qs] show ?case by auto
qed

lemma MmVmAllocate_state:
  assumes "MmVmAllocate L s n = Inr (v, s')"
  shows "\<exists>bm top pm. s' = s\<lparr>MmPmBitmap := bm, MmPmBitmapTop := top, pmem := pm\<rparr>"
proof -
  from assms obtain ps a where a: "alloc_frames MmPmAllocate (unat n) s = Inr (ps, a)"
    and s': "s' = a\<lparr>pmem := pmem s'\<rparr>"
    by (rule MmVmAllocate_InrE)
  from alloc_frames_state [OF a] show ?thesis using s' by metis
qed

lemma MmVmAllocate_pages:
  assumes "MmVmAllocate L s n = Inr (v, s')"
  shows "0 < unat n" "unat n \<le> 131072" "v AND 0xFFF = addr_VirtualAddress L AND 0xFFF"
proof -
  from assms obtain t where t: "first_run L s (unat n) t" "v = addr_VirtualAddress L + of_nat t * 4096"
    by (rule MmVmAllocate_InrE)
  then show "0 < unat n" "unat n \<le> 131072" by (simp_all add: first_run_def KERNEL_PAGES_def)
  have *: "x AND 0xFFF = x - (x AND NOT 0xFFF)" for x :: u32
  proof -
    have m: "(0xFFF :: u32) = mask 12" by (simp add: mask_eq_exp_minus_1)
    show ?thesis by (simp only: page_base) (simp add: m take_bit_eq_mask)
  qed
  show "v AND 0xFFF = addr_VirtualAddress L AND 0xFFF"
    unfolding t(2) * page_base_add by simp
qed

lemma owned_heap [simp]:
  "owned L (s\<lparr>bmem := x1\<rparr>) = owned L s" "owned L (s\<lparr>console := x2\<rparr>) = owned L s"
  "owned L (s\<lparr>LibAllocLock := x3\<rparr>) = owned L s" "owned L (s\<lparr>majors := x4\<rparr>) = owned L s"
  "owned L (s\<lparr>minors := x5\<rparr>) = owned L s" "owned L (s\<lparr>l_memRoot := x6\<rparr>) = owned L s"
  "owned L (s\<lparr>l_bestBet := x7\<rparr>) = owned L s" "owned L (s\<lparr>l_allocated := x8\<rparr>) = owned L s"
  "owned L (s\<lparr>l_inuse := x8\<rparr>) = owned L s" "owned L (s\<lparr>l_warningCount := x8\<rparr>) = owned L s"
  "owned L (s\<lparr>l_errorCount := x8\<rparr>) = owned L s" "owned L (s\<lparr>l_possibleOverruns := x8\<rparr>) = owned L s"
  by (simp_all add: owned_def [abs_def] kpt_def)

subsection \<open>Alignment\<close>

text \<open>The padding \<open>ALIGN\<close> inserts in a block at \<open>b\<close>, and the pointer it yields.\<close>

definition pad :: "ptr \<Rightarrow> u32" where
  "pad b = (let d = (b + 64) AND 0xFFF in if d = 0 then 0 else 0x1000 - d)"

definition data_of :: "ptr \<Rightarrow> ptr" where
  "data_of b = b + 64 + pad b"

lemma ALIGN_data: "ALIGN (b + 24 + 24) m = (data_of b, m(data_of b - 16 := ucast (pad b + 16)))"
proof -
  have p1: "b + 24 + 24 + ALIGN_INFO = b + 64" by (simp add: ALIGN_INFO_def)
  have c: "ALIGNMENT - 1 = 0xFFF" "ALIGNMENT = 0x1000" "ALIGN_INFO = 16"
    by (simp_all add: ALIGNMENT_def ALIGN_INFO_def)
  show ?thesis
    unfolding ALIGN_def p1 unfolding c Let_def data_of_def pad_def
    by (cases "(b + 64) AND 0xFFF = 0") simp_all
qed

lemma mask12: "x AND 0xFFF = x mod 4096" for x :: u32
proof -
  have "x AND 0xFFF = take_bit 12 x" by (simp add: take_bit_eq_mask mask_eq_exp_minus_1)
  then show ?thesis by (simp add: take_bit_eq_mod)
qed

lemma unat_mod4096: "unat (x mod 4096) = unat x mod 4096" for x :: u32
  by (simp add: unat_mod)

lemma unat_pad: "unat (pad b) = (4096 - unat (b + 64) mod 4096) mod 4096"
proof -
  have "unat (b + 64) mod 4096 < 4096" by simp
  then show ?thesis
    unfolding pad_def Let_def mask12 by (auto simp: unat_sub_if' unat_mod4096 word_unat_eq_iff)
qed

lemma pad_less: "unat (pad b) < 4096"
  by (simp add: unat_pad)

lemma pad_nat: "(n + (4096 - n mod 4096) mod 4096) mod 4096 = 0" for n :: nat
proof (cases "n mod 4096 = 0")
  case False
  have r: "n mod 4096 < 4096" by simp
  from False have "(4096 - n mod 4096) mod 4096 = 4096 - n mod 4096" by simp
  moreover have "n + (4096 - n mod 4096) = 4096 * (n div 4096 + 1)"
  proof -
    have "k * q + r = n \<Longrightarrow> r < k \<Longrightarrow> n + (k - r) = k * (q + 1)" for k q r :: nat by simp
    from this [OF mult_div_mod_eq r] show ?thesis .
  qed
  ultimately show ?thesis by simp
qed simp

lemma data_of_aligned: "data_of b AND 0xFFF = 0"
proof -
  have "unat (data_of b) mod 4096 = (unat (b + 64) + unat (pad b)) mod 4096"
    by (simp add: data_of_def unat_word_ariths(1) [of "b + 64"] mod_mod_cancel)
  also have "\<dots> = 0"
    unfolding unat_pad by (rule pad_nat)
  finally show ?thesis by (simp add: mask12 word_unat_eq_iff unat_mod4096)
qed

lemma data_of_offset: "unat (data_of b - b) = 64 + unat (pad b)"
proof -
  have "data_of b - b = 64 + pad b" by (simp add: data_of_def)
  then show ?thesis using pad_less [of b] by (simp add: unat_plus_if')
qed


subsection \<open>Well-formed heaps\<close>

text \<open>The list of blocks, by \<open>next\<close> and \<open>prev\<close>.\<close>

primrec mseg :: "(ptr \<Rightarrow> liballoc_major) \<Rightarrow> ptr \<Rightarrow> ptr list \<Rightarrow> bool" where
  "mseg h pv [] \<longleftrightarrow> True"
| "mseg h pv (x # xs) \<longleftrightarrow> maj_prev (h x) = pv \<and> maj_next (h x) = head_or NULL xs \<and> mseg h x xs"

text \<open>
  A block of the heap as \<open>malloc\<close> leaves it: it holds exactly one allocation, at its start,
  that fits it.
\<close>

definition block_ok :: "liballoc_major \<Rightarrow> liballoc_minor \<Rightarrow> ptr \<Rightarrow> bool" where
  "block_ok m n b \<longleftrightarrow>
     maj_first m = b + 24 \<and> b + 24 \<noteq> NULL \<and> 16 \<le> unat (maj_pages m) \<and>
     unat (maj_size m) = unat (maj_pages m) * 4096 \<and> maj_usage m = min_size n + 48 \<and>
     unat (min_size n) + 48 \<le> unat (maj_size m) \<and> unat (min_req_size n) + 4112 \<le> unat (min_size n) \<and>
     min_magic n = LIBALLOC_MAGIC \<and> min_block n = b \<and> min_prev n = NULL \<and> min_next n = NULL"

text \<open>The bytes of the block at \<open>b\<close>.\<close>

abbreviation in_block :: "'z heap_state_scheme \<Rightarrow> ptr \<Rightarrow> ptr \<Rightarrow> bool" where
  "in_block s b a \<equiv> in_range a b (unat (maj_size (majors s b)))"

definition heap_ok :: "linker \<Rightarrow> 'z heap_state_scheme \<Rightarrow> ptr list \<Rightarrow> bool" where
  "heap_ok L s bs \<longleftrightarrow>
     distinct bs \<and> NULL \<notin> set bs \<and> mseg (majors s) NULL bs \<and> l_memRoot s = head_or NULL bs \<and>
     l_bestBet s \<in> insert NULL (set bs) \<and>
     (\<forall>b \<in> set bs. block_ok (majors s b) (minors s (b + 24)) b \<and>
        (\<forall>a. in_block s b a \<longrightarrow> owned L s a) \<and> bmem s (data_of b - 16) = ucast (pad b + 16)) \<and>
     (\<forall>b \<in> set bs. \<forall>c \<in> set bs. b \<noteq> c \<longrightarrow> (\<forall>a. \<not> (in_block s b a \<and> in_block s c a)))"

text \<open>What the code relies on about the image: the variable \<open>VirtualAddress\<close> is not at the start
  of a page, nor where 24 bytes more would be the start of one.\<close>

definition image_ok :: "linker \<Rightarrow> bool" where
  "image_ok L \<longleftrightarrow> addr_VirtualAddress L AND 0xFFF \<notin> {0, 0xFE8}"

lemma round_up: "n \<le> n div 4096 * 4096 + (if n mod 4096 = 0 then 0 else 4096)" for n :: nat
proof -
  have "n mod 4096 < 4096" by simp
  then show ?thesis using div_mult_mod_eq [of n 4096] by (cases "n mod 4096 = 0") simp_all
qed

lemma pages_for_enough:
  assumes "unat size' + 48 < 4294967296"
  shows "unat size' + 48 \<le> unat (pages_for size') * 4096" "16 \<le> unat (pages_for size')"
proof -
  let ?s = "size' + sizeof_major + sizeof_minor"
  have s: "unat ?s = unat size' + 48"
    using assms by (simp add: liballoc_consts add.assoc unat_plus_if')
  have d: "unat (?s div l_pageSize) = unat ?s div 4096" and m: "?s mod l_pageSize = 0 \<longleftrightarrow> unat ?s mod 4096 = 0"
    by (simp_all add: l_pageSize_def unat_div unat_mod word_unat_eq_iff)
  have "unat ?s div 4096 < 1048576" using assms s by simp
  then have i: "unat (?s div l_pageSize + 1) = unat ?s div 4096 + 1"
    using d by (simp add: unat_plus_if')
  have "unat ?s \<le> unat ?s div 4096 * 4096 + (if unat ?s mod 4096 = 0 then 0 else 4096)"
    by (rule round_up)
  then have a: "unat ?s \<le> unat (if ?s mod l_pageSize = 0 then ?s div l_pageSize else ?s div l_pageSize + 1) * 4096"
    using d i m by auto
  show "unat size' + 48 \<le> unat (pages_for size') * 4096"
    using a unfolding s pages_for_def Let_def by (auto simp: l_pageCount_def word_less_nat_alt split: if_splits)
  show "16 \<le> unat (pages_for size')"
    unfolding pages_for_def Let_def by (auto simp: l_pageCount_def word_less_nat_alt)
qed

text \<open>A block just taken from the system, before it is linked.\<close>

definition new_block :: "ptr \<Rightarrow> u32 \<Rightarrow> 'z heap_state_scheme \<Rightarrow> 'z heap_state_scheme" where
  "new_block v st s = s\<lparr>majors := (majors s)(v := \<lparr>maj_prev = NULL, maj_next = NULL, maj_pages = st,
       maj_size = st * 4096, maj_usage = 24, maj_first = NULL\<rparr>),
     l_allocated := l_allocated s + ucast (st * 4096)\<rparr>"

lemma image_ok_base:
  assumes "image_ok L" "MmVmAllocate L s n = Inr (v, s')"
  shows "v \<noteq> NULL" "v + 24 \<noteq> NULL"
proof -
  have o: "v AND 0xFFF \<notin> {0, 0xFE8}"
    using assms(1) MmVmAllocate_pages(3) [OF assms(2)] by (simp add: image_ok_def)
  show "v \<noteq> NULL" using o by auto
  show "v + 24 \<noteq> NULL"
  proof
    assume "v + 24 = NULL"
    then have "v = - 24" by (simp add: eq_neg_iff_add_eq_0)
    then show False using o by simp
  qed
qed

lemma allocate_new_page_eq:
  assumes "image_ok L"
  shows "allocate_new_page L size' s =
    (case MmVmAllocate L s (pages_for size') of Inl e \<Rightarrow> Some (Inl e)
     | Inr (v, s') \<Rightarrow> ret (v, new_block v (pages_for size') s'))"
  using image_ok_base [OF assms]
  by (auto simp: allocate_new_page_def Let_def liballoc_alloc_def new_block_def
      l_pageSize_def sizeof_major_def split: sum.splits)


subsection \<open>What malloc does to a well-formed heap\<close>

text \<open>Hanging the new block \<open>v\<close> behind \<open>m\<close>.\<close>

definition link :: "ptr \<Rightarrow> ptr \<Rightarrow> 'z heap_state_scheme \<Rightarrow> 'z heap_state_scheme" where
  "link m v s = upd_major v (\<lambda>x. x\<lparr>maj_prev := m\<rparr>) (upd_major m (\<lambda>x. x\<lparr>maj_next := v\<rparr>) s)"

lemma new_next_eq:
  assumes "image_ok L"
  shows "new_next L size' m s = (case MmVmAllocate L s (pages_for size') of Inl e \<Rightarrow> Some (Inl e)
     | Inr (v, s') \<Rightarrow> ret (v, link m v (new_block v (pages_for size') s')))"
  using image_ok_base(1) [OF assms]
  by (auto simp: new_next_def allocate_new_page_eq [OF assms] link_def Let_def split: sum.splits)

lemma size_pos: "unat size' + 48 < 4294967296 \<Longrightarrow> size' + sizeof_minor \<noteq> 0" for size' :: u32
  by (auto simp: sizeof_minor_def word_unat_eq_iff unat_plus_if')

lemma place_full:
  assumes "maj_first (majors s m) = m + 24" "m + 24 \<noteq> NULL" "unat size' + 48 < 4294967296"
  shows "place L size' req m st bs s =
    (if maj_next (majors s m) \<noteq> NULL then ret (Continue (maj_next (majors s m)) st bs s)
     else if st then ret (Continue (l_memRoot s) False bs s)
     else mbind (new_next L size' m s) (\<lambda>(new, s).
        ret (if new = NULL then Break s else Continue new st bs s)))"
  using assms(1,2) size_pos [OF assms(3)] by (simp add: place_def Let_def sizeof_major_def)

lemma place_empty:
  "maj_first (majors s m) = NULL \<Longrightarrow>
    place L size' req m st bs s = ret (case case_2 size' req m s of (p, s) \<Rightarrow> Return p s)"
  by (simp add: place_def Let_def split: prod.splits)

text \<open>What an iteration may have remembered.\<close>

definition best :: "ptr \<Rightarrow> u32 \<Rightarrow> 'z heap_state_scheme \<Rightarrow> ptr" where
  "best m bs s = (if bs < maj_size (majors s m) - maj_usage (majors s m) then m else l_bestBet s)"

definition best_size :: "ptr \<Rightarrow> u32 \<Rightarrow> 'z heap_state_scheme \<Rightarrow> u32" where
  "best_size m bs s = (let d = maj_size (majors s m) - maj_usage (majors s m) in if bs < d then d else bs)"

lemma step_full:
  assumes "maj_first (majors s m) = m + 24" "m + 24 \<noteq> NULL" "unat size' + 48 < 4294967296"
  shows "maj_next (majors s m) \<noteq> NULL \<Longrightarrow> malloc_step L size' req m st bs s =
      ret (Continue (maj_next (majors s m)) st (best_size m bs s) (s\<lparr>l_bestBet := best m bs s\<rparr>))"
    and "maj_next (majors s m) = NULL \<Longrightarrow> malloc_step L size' req m True bs s =
      ret (Continue (l_memRoot s) False (best_size m bs s) (s\<lparr>l_bestBet := best m bs s\<rparr>))"
  using assms by (auto simp: malloc_step_def Let_def place_full best_def best_size_def split: prod.splits)

text \<open>On a new block the loop ends at once, in case 2.\<close>

lemma loop_new:
  assumes "v \<noteq> NULL" "maj_first (majors s v) = NULL"
    and "\<not> maj_size (majors s v) - maj_usage (majors s v) < size' + sizeof_minor"
  shows "malloc_loop L size' req v st bs s = ret (case_2 size' req v (s\<lparr>l_bestBet := best v bs s\<rparr>))"
  using assms
  by (subst malloc_loop.simps)
     (auto simp: malloc_step_def Let_def place_empty best_def ret_def split: prod.splits)

lemma new_block_room:
  assumes "unat size' + 48 < 4294967296" "unat (pages_for size') \<le> 131072"
  shows "\<not> pages_for size' * 4096 - 24 < size' + sizeof_minor"
proof -
  have p: "unat (pages_for size' * 4096) = unat (pages_for size') * 4096"
    using assms(2) by (simp add: unat_word_ariths)
  then have "unat (pages_for size' * 4096 - 24) = unat (pages_for size') * 4096 - 24"
    using pages_for_enough [OF assms(1)] by (simp add: unat_sub word_le_nat_alt)
  moreover have "unat (size' + sizeof_minor) = unat size' + 24"
    using assms(1) by (simp add: sizeof_minor_def unat_plus_if')
  ultimately show ?thesis
    using pages_for_enough(1) [OF assms(1)] by (simp add: word_less_nat_alt)
qed

lemma loop_last:
  assumes img: "image_ok L" and sz: "unat size' + 48 < 4294967296"
    and m: "m \<noteq> NULL" "maj_first (majors s m) = m + 24" "m + 24 \<noteq> NULL" "maj_next (majors s m) = NULL"
  shows "case MmVmAllocate L (s\<lparr>l_bestBet := best m bs s\<rparr>) (pages_for size') of
      Inl e \<Rightarrow> malloc_loop L size' req m False bs s = Some (Inl e)
    | Inr (v, s') \<Rightarrow> v \<noteq> m \<longrightarrow> (\<exists>bb \<in> {v, best m bs s}. malloc_loop L size' req m False bs s =
        ret (case_2 size' req v ((link m v (new_block v (pages_for size') s'))\<lparr>l_bestBet := bb\<rparr>)))"
proof (cases "MmVmAllocate L (s\<lparr>l_bestBet := best m bs s\<rparr>) (pages_for size')")
  case (Inl e)
  then show ?thesis
    using m size_pos [OF sz]
    by (subst malloc_loop.simps)
       (auto simp: malloc_step_def Let_def place_full [OF _ _ sz] new_next_eq [OF img] best_def split: prod.splits)
next
  case (Inr r)
  obtain v s' where r: "r = (v, s')" by (cases r)
  let ?s = "link m v (new_block v (pages_for size') s')"
  have al: "MmVmAllocate L (s\<lparr>l_bestBet := best m bs s\<rparr>) (pages_for size') = Inr (v, s')"
    using Inr r by simp
  note v = image_ok_base [OF img al]
  have n: "l_bestBet s' = best m bs s" using MmVmAllocate_state [OF al] by auto
  have "\<exists>bb \<in> {best m bs s, v}. malloc_loop L size' req m False bs s = ret (case_2 size' req v (?s\<lparr>l_bestBet := bb\<rparr>))"
    if vm: "v \<noteq> m"
  proof -
    have new: "maj_first (majors ?s v) = NULL" "maj_size (majors ?s v) - maj_usage (majors ?s v) = pages_for size' * 4096 - 24"
      using vm by (simp_all add: link_def upd_major_def new_block_def)
    have room: "\<not> maj_size (majors ?s v) - maj_usage (majors ?s v) < size' + sizeof_minor"
      unfolding new using new_block_room [OF sz] MmVmAllocate_pages(2) [OF al] by simp
    have l: "?s\<lparr>l_bestBet := best m bs s\<rparr> = ?s"
      using n by (simp add: link_def upd_major_def new_block_def)
    show ?thesis
    proof (cases "maj_size (majors s m) - maj_usage (majors s m) < size' + sizeof_minor")
      case True
      then have "malloc_loop L size' req m False bs s = ret (case_2 size' req v ?s)"
        using m al v vm new
        by (subst malloc_loop.simps)
           (auto simp: malloc_step_def Let_def new_next_eq [OF img] best_def place_empty ret_def split: prod.splits)
      with l show ?thesis by auto
    next
      case False
      then have "malloc_loop L size' req m False bs s = malloc_loop L size' req v False (best_size m bs s) ?s"
        using m al v
        by (subst malloc_loop.simps)
           (auto simp: malloc_step_def Let_def place_full [OF _ _ sz] new_next_eq [OF img] best_def best_size_def
             ret_def split: prod.splits)
      also have "\<dots> = ret (case_2 size' req v (?s\<lparr>l_bestBet := best v (best_size m bs s) ?s\<rparr>))"
        by (rule loop_new [OF v(1) new(1) room])
      finally show ?thesis using n by (auto simp: best_def link_def upd_major_def new_block_def)
    qed
  qed
  then show ?thesis by (auto simp: al)
qed


text \<open>All blocks of a list are in use.\<close>

definition full :: "(ptr \<Rightarrow> liballoc_major) \<Rightarrow> ptr list \<Rightarrow> bool" where
  "full h bs \<longleftrightarrow> (\<forall>b \<in> set bs. b \<noteq> NULL \<and> maj_first (h b) = b + 24 \<and> b + 24 \<noteq> NULL)"

text \<open>The outcome of the loop: the new block is hung behind \<open>m\<close> and filled.\<close>

definition grown :: "linker \<Rightarrow> u32 \<Rightarrow> u32 \<Rightarrow> ptr \<Rightarrow> ptr set \<Rightarrow> 'z heap_state_scheme
    \<Rightarrow> (ptr \<times> 'z heap_state_scheme) run \<Rightarrow> bool" where
  "grown L size' req m B s r \<longleftrightarrow>
     (\<exists>b \<in> B. case MmVmAllocate L (s\<lparr>l_bestBet := b\<rparr>) (pages_for size') of
        Inl e \<Rightarrow> r = Some (Inl e)
      | Inr (v, s') \<Rightarrow> v \<noteq> m \<longrightarrow> (\<exists>b \<in> insert v B.
          r = ret (case_2 size' req v ((link m v (new_block v (pages_for size') s'))\<lparr>l_bestBet := b\<rparr>))))"

lemma grown_mono:
  assumes "grown L size' req m B s r" "B \<subseteq> C"
  shows "grown L size' req m C s r"
  using assms unfolding grown_def by (auto split: sum.splits) (blast+)

lemma grown_best [simp]: "grown L size' req m B (s\<lparr>l_bestBet := b\<rparr>) r = grown L size' req m B s r"
  by (simp add: grown_def)

lemma best_in: "best m bs s \<in> {l_bestBet s, m}"
  by (simp add: best_def)

lemma loop_last_grown:
  assumes "image_ok L" "unat size' + 48 < 4294967296" "m \<noteq> NULL" "maj_first (majors s m) = m + 24"
    "m + 24 \<noteq> NULL" "maj_next (majors s m) = NULL"
  shows "grown L size' req m {best m k s} s (malloc_loop L size' req m False k s)"
  using loop_last [OF assms, where bs = k and req = req] unfolding grown_def
  by simp

lemma loop_rest:
  assumes img: "image_ok L" and sz: "unat size' + 48 < 4294967296"
  shows "mseg (majors s) pv bs \<Longrightarrow> full (majors s) bs \<Longrightarrow> bs \<noteq> [] \<Longrightarrow>
    grown L size' req (last bs) (insert (l_bestBet s) (set bs)) s (malloc_loop L size' req (hd bs) False k s)"
proof (induction bs arbitrary: s pv k)
  case (Cons m bs)
  then have m: "m \<noteq> NULL" "maj_first (majors s m) = m + 24" "m + 24 \<noteq> NULL" by (simp_all add: full_def)
  show ?case
  proof (cases bs)
    case Nil
    with Cons.prems have "maj_next (majors s m) = NULL" by simp
    from grown_mono [OF loop_last_grown [OF img sz m this]] best_in [of m k s] Nil show ?thesis
      by simp
  next
    case (Cons m' bs')
    then have next': "maj_next (majors s m) = m'" "m' \<noteq> NULL"
      using Cons.prems by (simp_all add: full_def)
    let ?s = "s\<lparr>l_bestBet := best m k s\<rparr>"
    have "malloc_loop L size' req m False k s = malloc_loop L size' req m' False (best_size m k s) ?s"
      using step_full(1) [OF m(2,3) sz, where st = False and bs = k] next' m(1)
      by (subst malloc_loop.simps) (simp add: ret_def)
    moreover have "grown L size' req (last bs) (insert (best m k s) (set bs)) ?s
        (malloc_loop L size' req (hd bs) False (best_size m k s) ?s)"
      using Cons.IH [of ?s m "best_size m k s"] Cons.prems Cons by (simp add: full_def)
    ultimately show ?thesis
      using Cons best_in [of m k s] by (auto elim!: grown_mono)
  qed
qed simp

text \<open>Starting at the best bet, the loop first runs to the end of the list and over to its root.\<close>

lemma loop_best:
  assumes img: "image_ok L" and sz: "unat size' + 48 < 4294967296"
    and root: "l_memRoot s = hd as" "mseg (majors s) NULL as" "full (majors s) as" "as \<noteq> []"
  shows "mseg (majors s) pv bs \<Longrightarrow> full (majors s) bs \<Longrightarrow> bs \<noteq> [] \<Longrightarrow> set bs \<subseteq> set as \<Longrightarrow>
    grown L size' req (last as) (insert (l_bestBet s) (set as)) s (malloc_loop L size' req (hd bs) True k s)"
  using root
proof (induction bs arbitrary: s pv k)
  case (Cons m bs)
  then have m: "m \<noteq> NULL" "maj_first (majors s m) = m + 24" "m + 24 \<noteq> NULL" by (simp_all add: full_def)
  let ?s = "s\<lparr>l_bestBet := best m k s\<rparr>"
  have m_in: "m \<in> set as" using Cons.prems by simp
  show ?case
  proof (cases bs)
    case Nil
    then have "maj_next (majors s m) = NULL" using Cons.prems by simp
    then have "malloc_loop L size' req m True k s = malloc_loop L size' req (hd as) False (best_size m k s) ?s"
      using step_full(2) [OF m(2,3) sz, where bs = k] m(1) Cons.prems
      by (subst malloc_loop.simps) (simp add: ret_def)
    moreover have "grown L size' req (last as) (insert (best m k s) (set as)) ?s
        (malloc_loop L size' req (hd as) False (best_size m k s) ?s)"
      using loop_rest [OF img sz, where s = ?s and pv = NULL and bs = as] Cons.prems by simp
    moreover have "insert (best m k s) (set as) \<subseteq> insert (l_bestBet s) (set as)"
      using best_in [of m k s] m_in by auto
    ultimately show ?thesis by (simp add: grown_mono)
  next
    case (Cons m' bs')
    then have next': "maj_next (majors s m) = m'" "m' \<noteq> NULL"
      using Cons.prems by (simp_all add: full_def)
    have "malloc_loop L size' req m True k s = malloc_loop L size' req m' True (best_size m k s) ?s"
      using step_full(1) [OF m(2,3) sz, where st = True and bs = k] next' m(1)
      by (subst malloc_loop.simps) (simp add: ret_def)
    moreover have "grown L size' req (last as) (insert (best m k s) (set as)) ?s
        (malloc_loop L size' req (hd bs) True (best_size m k s) ?s)"
      using Cons.IH [of ?s m "best_size m k s"] Cons.prems Cons by (simp add: full_def)
    ultimately show ?thesis
      using Cons best_in [of m k s] m_in by (auto elim!: grown_mono)
  qed
qed simp


subsection \<open>The invariant\<close>

text \<open>The state after case 2 on the new block \<open>v\<close>, field by field.\<close>

definition filled :: "u32 \<Rightarrow> u32 \<Rightarrow> ptr \<Rightarrow> 'z heap_state_scheme \<Rightarrow> 'z heap_state_scheme" where
  "filled size' req v s = s\<lparr>
     bmem := (bmem s)(data_of v - 16 := ucast (pad v + 16)), LibAllocLock := False,
     majors := (majors s)(v := (majors s v)\<lparr>maj_first := v + 24, maj_usage := maj_usage (majors s v) + (size' + 24)\<rparr>),
     minors := (minors s)(v + 24 := \<lparr>min_prev = NULL, min_next = NULL, min_block = v,
       min_magic = LIBALLOC_MAGIC, min_size = size', min_req_size = req\<rparr>),
     l_inuse := l_inuse s + ucast size'\<rparr>"

lemma case_2_eq: "case_2 size' req v s = (data_of v, filled size' req v s)"
  by (simp add: case_2_def Let_def finish_block_def upd_major_def sizeof_major_def sizeof_minor_def
      ALIGN_data [of v, unfolded add.assoc, simplified] liballoc_unlock_def filled_def add.commute [of 48])

lemma mseg_frame: "(\<And>b. b \<in> set bs \<Longrightarrow> maj_prev (h' b) = maj_prev (h b) \<and> maj_next (h' b) = maj_next (h b)) \<Longrightarrow>
    mseg h' pv bs = mseg h pv bs"
  by (induction bs arbitrary: pv) auto

lemma mseg_snoc:
  assumes "mseg h pv bs" "distinct (bs @ [v])"
  shows "mseg (\<lambda>b. if b = v then (h v)\<lparr>maj_prev := last_or pv bs, maj_next := NULL\<rparr>
           else if bs \<noteq> [] \<and> b = last bs then (h b)\<lparr>maj_next := v\<rparr> else h b) pv (bs @ [v])"
  using assms
proof (induction bs arbitrary: pv)
  case (Cons b bs)
  show ?case
  proof (cases bs)
    case Nil
    with Cons.prems show ?thesis by auto
  next
    case (Cons c cs)
    with Cons.prems have "b \<noteq> last bs" by auto
    moreover have "(\<lambda>x. if x = v then (h v)\<lparr>maj_prev := last_or b bs, maj_next := NULL\<rparr>
           else if bs \<noteq> [] \<and> x = last bs then (h x)\<lparr>maj_next := v\<rparr> else h x) =
       (\<lambda>x. if x = v then (h v)\<lparr>maj_prev := last_or pv (b # bs), maj_next := NULL\<rparr>
           else if b # bs \<noteq> [] \<and> x = last (b # bs) then (h x)\<lparr>maj_next := v\<rparr> else h x)"
      using Cons by auto
    ultimately show ?thesis
      using Cons.IH [of b] Cons.prems Cons by auto
  qed
qed auto

text \<open>The list with a new last block.\<close>

definition attached :: "ptr list \<Rightarrow> ptr \<Rightarrow> 'z heap_state_scheme \<Rightarrow> 'z heap_state_scheme" where
  "attached bs v s = (if bs = [] then s\<lparr>l_memRoot := v\<rparr> else link (last bs) v s)"

text \<open>Everything \<open>malloc\<close> does to a well-formed heap.\<close>

definition after_malloc :: "u32 \<Rightarrow> u32 \<Rightarrow> ptr list \<Rightarrow> ptr \<Rightarrow> ptr \<Rightarrow> 'z heap_state_scheme \<Rightarrow> 'z heap_state_scheme" where
  "after_malloc size' req bs v b s =
     filled size' req v ((attached bs v (new_block v (pages_for size') s))\<lparr>l_bestBet := b\<rparr>)"

lemma heap_okD:
  assumes "heap_ok L s bs"
  shows "distinct bs" "NULL \<notin> set bs" "mseg (majors s) NULL bs" "l_memRoot s = head_or NULL bs"
    "l_bestBet s \<in> insert NULL (set bs)"
    "b \<in> set bs \<Longrightarrow> block_ok (majors s b) (minors s (b + 24)) b"
    "b \<in> set bs \<Longrightarrow> in_block s b a \<Longrightarrow> owned L s a"
    "b \<in> set bs \<Longrightarrow> bmem s (data_of b - 16) = ucast (pad b + 16)"
    "b \<in> set bs \<Longrightarrow> c \<in> set bs \<Longrightarrow> b \<noteq> c \<Longrightarrow> in_block s b a \<Longrightarrow> \<not> in_block s c a"
  using assms by (auto simp: heap_ok_def)

lemma heap_ok_full: "heap_ok L s bs \<Longrightarrow> full (majors s) bs"
  by (auto simp: full_def heap_ok_def block_ok_def)

lemma align_byte_in_range: "4096 + 64 \<le> k \<Longrightarrow> in_range (data_of b - 16) b k"
proof -
  have e: "data_of b - 16 - b = 48 + pad b" by (simp add: data_of_def)
  have "unat (data_of b - 16 - b) = 48 + unat (pad b)"
    unfolding e using pad_less [of b] by (simp add: unat_plus_if')
  then show "4096 + 64 \<le> k \<Longrightarrow> ?thesis" using pad_less [of b] unfolding in_range_def by linarith
qed

lemma block_size: "block_ok m n b \<Longrightarrow> 4096 + 64 \<le> unat (maj_size m)"
  by (simp add: block_ok_def)


lemma after_malloc_fields:
  assumes "v \<notin> set bs"
  shows "c \<in> set bs \<Longrightarrow> majors (after_malloc size' req bs v b s) c =
      (if c = last bs then (majors s c)\<lparr>maj_next := v\<rparr> else majors s c)"
    "minors (after_malloc size' req bs v b s) = (minors s)(v + 24 := \<lparr>min_prev = NULL, min_next = NULL,
       min_block = v, min_magic = LIBALLOC_MAGIC, min_size = size', min_req_size = req\<rparr>)"
    "majors (after_malloc size' req bs v b s) v = \<lparr>maj_prev = last_or NULL bs, maj_next = NULL,
       maj_pages = pages_for size', maj_size = pages_for size' * 4096, maj_usage = 24 + (size' + 24),
       maj_first = v + 24\<rparr>"
    "bmem (after_malloc size' req bs v b s) = (bmem s)(data_of v - 16 := ucast (pad v + 16))"
    "l_memRoot (after_malloc size' req bs v b s) = (if bs = [] then v else l_memRoot s)"
    "l_bestBet (after_malloc size' req bs v b s) = b"
    "LibAllocLock (after_malloc size' req bs v b s) = False"
    "owned L (after_malloc size' req bs v b s) = owned L s"
  using assms by (auto simp: after_malloc_def filled_def attached_def link_def upd_major_def new_block_def
      owned_def [abs_def] kpt_def last_or_def)

lemma after_malloc_mseg:
  assumes "mseg (majors s) NULL bs" "distinct bs" "v \<notin> set bs"
  shows "mseg (majors (after_malloc size' req bs v b s)) NULL (bs @ [v])"
proof -
  from mseg_snoc [OF assms(1), of v] assms
  have "mseg (\<lambda>b. if b = v then (majors s v)\<lparr>maj_prev := last_or NULL bs, maj_next := NULL\<rparr>
           else if bs \<noteq> [] \<and> b = last bs then (majors s b)\<lparr>maj_next := v\<rparr> else majors s b) NULL (bs @ [v])"
    by simp
  then show ?thesis
    by (rule mseg_frame [THEN iffD1, rotated])
       (use assms(3) after_malloc_fields [OF assms(3), where size' = size' and req = req and b = b and s = s] in auto)
qed

lemma new_block_fresh:
  assumes ok: "heap_ok L s bs" and al: "MmVmAllocate L (s\<lparr>l_bestBet := b0\<rparr>) n = Inr (v, s')"
  shows "v \<notin> set bs"
proof
  assume v: "v \<in> set bs"
  have "in_range v v (unat n * 4096)" using MmVmAllocate_pages(1) [OF al] by (simp add: in_range_def)
  from vm.alloc_fresh [OF al this] have "\<not> owned L s v" by simp
  moreover have "in_block s v v" using block_size [OF heap_okD(6) [OF ok v]] by (simp add: in_range_def)
  ultimately show False using heap_okD(7) [OF ok v] by blast
qed

text \<open>A well-formed heap with one block \<open>v\<close> more.\<close>

lemma heap_ok_snoc:
  assumes ok: "heap_ok L s bs" and v: "v \<notin> set bs" "v \<noteq> NULL" "block_ok (majors t v) (minors t (v + 24)) v"
      "bmem t (data_of v - 16) = ucast (pad v + 16)"
    and list: "mseg (majors t) NULL (bs @ [v])" "l_memRoot t = head_or NULL (bs @ [v])" "l_bestBet t \<in> insert NULL (set (bs @ [v]))"
    and old: "\<And>c. c \<in> set bs \<Longrightarrow> block_ok (majors t c) (minors t (c + 24)) c"
      "\<And>c. c \<in> set bs \<Longrightarrow> bmem t (data_of c - 16) = bmem s (data_of c - 16)"
      "\<And>c. c \<in> set bs \<Longrightarrow> maj_size (majors t c) = maj_size (majors s c)"
    and own: "\<And>a. owned L t a \<longleftrightarrow> owned L s a \<or> in_block t v a" "\<And>a. in_block t v a \<Longrightarrow> \<not> owned L s a"
  shows "heap_ok L t (bs @ [v])"
proof -
  have in_c: "in_block t c a \<longleftrightarrow> in_block s c a" if "c \<in> set bs" for c a by (simp only: old(3) [OF that])
  have apart: "\<not> (in_block t c a \<and> in_block t v a)" if "c \<in> set bs" for c a
    using heap_okD(7) [OF ok that] own(2) unfolding in_c [OF that] by blast
  have "block_ok (majors t c) (minors t (c + 24)) c \<and> (\<forall>a. in_block t c a \<longrightarrow> owned L t a) \<and>
      bmem t (data_of c - 16) = ucast (pad c + 16)" if "c \<in> set (bs @ [v])" for c
  proof (cases "c = v")
    case True
    then show ?thesis using v(3,4) own(1) by simp
  next
    case False
    with that have c: "c \<in> set bs" by simp
    show ?thesis using old(1,2) [OF c] heap_okD(7,8) [OF ok c] own(1) unfolding in_c [OF c] by simp
  qed
  moreover have "\<not> (in_block t c a \<and> in_block t d a)" if cd: "c \<in> set (bs @ [v])" "d \<in> set (bs @ [v])" "c \<noteq> d" for c d a
  proof -
    consider "c \<in> set bs" "d \<in> set bs" | "c = v" "d \<in> set bs" | "c \<in> set bs" "d = v" using cd by auto
    then show ?thesis
      by cases (use heap_okD(9) [OF ok _ _ cd(3), of a] apart in_c in blast)+
  qed
  ultimately show ?thesis using heap_okD(1,2) [OF ok] v(1,2) list unfolding heap_ok_def by simp
qed

lemma heap_ok_after:
  assumes ok: "heap_ok L s bs" and img: "image_ok L"
    and al: "MmVmAllocate L (s\<lparr>l_bestBet := b0\<rparr>) (pages_for size') = Inr (v, s')"
    and sz: "unat size' + 48 < 4294967296" and req: "unat req + 4112 \<le> unat size'"
    and b: "b \<in> insert v (insert NULL (set bs))"
  shows "heap_ok L (after_malloc size' req bs v b s') (bs @ [v])" "v \<notin> set bs" "v \<noteq> NULL"
    "owned L (after_malloc size' req bs v b s') a \<longleftrightarrow> owned L s a \<or> in_range a v (unat (pages_for size') * 4096)"
    "in_range a v (unat (pages_for size') * 4096) \<Longrightarrow> \<not> owned L s a"
proof -
  let ?t = "after_malloc size' req bs v b s'" and ?n = "unat (pages_for size') * 4096"
  show v0: "v \<noteq> NULL" by (rule image_ok_base(1) [OF img al])
  have v24: "v + 24 \<noteq> NULL" by (rule image_ok_base(2) [OF img al])
  from MmVmAllocate_state [OF al] have s': "majors s' = majors s" "minors s' = minors s" "bmem s' = bmem s"
    "l_memRoot s' = l_memRoot s" by auto
  have n': "unat (pages_for size' * 4096) = ?n" using MmVmAllocate_pages(2) [OF al] by (simp add: unat_word_ariths)
  note enough = pages_for_enough [OF sz]
  show vbs: "v \<notin> set bs" by (rule new_block_fresh [OF ok al])
  note f = after_malloc_fields [OF vbs, where size' = size' and req = req and b = b and s = s']
  have in_v: "in_block ?t v a \<longleftrightarrow> in_range a v ?n" for a unfolding f by (simp add: n')
  show fresh: "in_range a v ?n \<Longrightarrow> \<not> owned L s a" for a using vm.alloc_fresh [OF al] by simp
  show own: "owned L ?t a \<longleftrightarrow> owned L s a \<or> in_range a v ?n" for a using vm.alloc_owned [OF al] by (simp add: f)
  have blk: "block_ok (majors s c) (minors s (c + 24)) c" if "c \<in> set bs" for c using heap_okD(6) [OF ok that] .
  have major: "majors ?t c = (majors s c)\<lparr>maj_next := maj_next (majors ?t c)\<rparr>" if "c \<in> set bs" for c
    unfolding f(1) [OF that] s' by simp
  have byte_v: "in_range (data_of v - 16) v ?n" using enough by (intro align_byte_in_range) simp
  have u: "unat (24 + (size' + 24)) = unat size' + 48" using sz by (simp add: unat_plus_if' add.assoc)
  show "heap_ok L ?t (bs @ [v])"
  proof (rule heap_ok_snoc [OF ok vbs v0])
    show "block_ok (majors ?t v) (minors ?t (v + 24)) v" unfolding f by (simp add: block_ok_def v24 n' enough req)
    show "bmem ?t (data_of v - 16) = ucast (pad v + 16)" by (simp add: f)
    show "mseg (majors ?t) NULL (bs @ [v])" using heap_okD(1,3) [OF ok] s' by (intro after_malloc_mseg vbs) simp_all
    show "l_memRoot ?t = head_or NULL (bs @ [v])" unfolding f using heap_okD(4) [OF ok] s' by (cases bs) simp_all
    show "l_bestBet ?t \<in> insert NULL (set (bs @ [v]))" unfolding f using b by auto
    show "maj_size (majors ?t c) = maj_size (majors s c)" if "c \<in> set bs" for c by (subst major [OF that]) simp
    show "block_ok (majors ?t c) (minors ?t (c + 24)) c" if "c \<in> set bs" for c
    proof -
      have "minors ?t (c + 24) = minors s (c + 24)" unfolding f(2) s' using that vbs by auto
      then show ?thesis by (subst major [OF that]) (use blk [OF that] in \<open>simp add: block_ok_def\<close>)
    qed
    show "bmem ?t (data_of c - 16) = bmem s (data_of c - 16)" if "c \<in> set bs" for c
      using heap_okD(7) [OF ok that align_byte_in_range [OF block_size [OF blk [OF that]]]] fresh [OF byte_v] f(4) s' by auto
  qed (simp_all only: own in_v fresh not_False_eq_True)
qed


subsection \<open>malloc\<close>

text \<open>How the part under the lock ends: where \<open>MmVmAllocate\<close> stops, or with the block it gave
  appended, for some choice of the best bet.\<close>

text \<open>The first request, and the later ones.\<close>

lemma malloc_locked_first:
  assumes ok: "heap_ok L s []" and img: "image_ok L" and sz: "unat size' + 48 < 4294967296"
  shows "case MmVmAllocate L s (pages_for size') of
      Inl e \<Rightarrow> malloc_locked L size' req s = Some (Inl e)
    | Inr (v, s') \<Rightarrow> (\<exists>b \<in> {v, NULL}. malloc_locked L size' req s = ret (data_of v, after_malloc size' req [] v b s'))"
proof (cases "MmVmAllocate L s (pages_for size')")
  case (Inl e)
  then show ?thesis using heap_okD(4) [OF ok] by (simp add: malloc_locked_def allocate_new_page_eq [OF img])
next
  case (Inr x)
  obtain v s' where al: "MmVmAllocate L s (pages_for size') = Inr (v, s')" using Inr by (cases x) simp
  have r: "l_memRoot s = NULL" "l_bestBet s = NULL" using heap_okD(4,5) [OF ok] by auto
  note v = image_ok_base [OF img al]
  have b: "l_bestBet s' = NULL" using MmVmAllocate_state [OF al] r by auto
  let ?n = "(new_block v (pages_for size') s')\<lparr>l_memRoot := v\<rparr>"
  have new: "maj_first (majors ?n v) = NULL"
    "maj_size (majors ?n v) - maj_usage (majors ?n v) = pages_for size' * 4096 - 24"
    by (simp_all add: new_block_def)
  have "malloc_locked L size' req s = malloc_loop L size' req v False 0 ?n"
    using r al v b by (simp add: malloc_locked_def allocate_new_page_eq [OF img] new_block_def Let_def)
  also have "\<dots> = ret (case_2 size' req v (?n\<lparr>l_bestBet := best v 0 ?n\<rparr>))"
    by (rule loop_new [OF v(1) new(1)])
       (use new(2) new_block_room [OF sz] MmVmAllocate_pages(2) [OF al] in simp)
  also have "\<dots> = ret (data_of v, after_malloc size' req [] v (best v 0 ?n) s')"
    by (simp add: case_2_eq after_malloc_def attached_def)
  finally show ?thesis using best_in [of v 0 ?n] b by (auto simp: al new_block_def)
qed

lemma mseg_drop: "mseg h pv (xs @ ws) \<Longrightarrow> mseg h (last_or pv xs) ws"
  by (induction xs arbitrary: pv) auto

lemma malloc_locked_later:
  assumes ok: "heap_ok L s bs" and img: "image_ok L" and sz: "unat size' + 48 < 4294967296" and ne: "bs \<noteq> []"
  shows "grown L size' req (last bs) (insert NULL (set bs)) s (malloc_locked L size' req s)"
proof -
  have root: "l_memRoot s = hd bs" "l_memRoot s \<noteq> NULL"
    using ne heap_okD(2,4) [OF ok] by (auto simp: neq_Nil_conv)
  note seg = heap_okD(3) [OF ok] heap_ok_full [OF ok]
  have B: "insert (l_bestBet s) (set bs) \<subseteq> insert NULL (set bs)" using heap_okD(5) [OF ok] by auto
  show ?thesis
  proof (cases "l_bestBet s \<noteq> NULL \<and> maj_size (majors s (l_bestBet s)) - maj_usage (majors s (l_bestBet s)) > size' + sizeof_minor")
    case True
    let ?k = "maj_size (majors s (l_bestBet s)) - maj_usage (majors s (l_bestBet s))"
    have "l_bestBet s \<in> set bs" using True heap_okD(5) [OF ok] by simp
    then obtain ys zs where bs: "bs = ys @ l_bestBet s # zs" by (auto simp: in_set_conv_decomp)
    have "mseg (majors s) (last_or NULL ys) (l_bestBet s # zs)" using seg(1) bs mseg_drop by metis
    moreover have "full (majors s) (l_bestBet s # zs)" "set (l_bestBet s # zs) \<subseteq> set bs"
      using seg(2) bs by (auto simp: full_def)
    ultimately have "grown L size' req (last bs) (insert (l_bestBet s) (set bs)) s
        (malloc_loop L size' req (hd (l_bestBet s # zs)) True ?k s)"
      by (intro loop_best [OF img sz root(1) seg ne]) simp_all
    moreover have "malloc_locked L size' req s = malloc_loop L size' req (l_bestBet s) True ?k s"
      using root True by (simp add: malloc_locked_def Let_def)
    ultimately show ?thesis using grown_mono [OF _ B] by simp
  next
    case no: False
    then have "malloc_locked L size' req s = malloc_loop L size' req (hd bs) False
        (if l_bestBet s \<noteq> NULL then maj_size (majors s (l_bestBet s)) - maj_usage (majors s (l_bestBet s)) else 0) s"
      using root by (auto simp: malloc_locked_def Let_def)
    then show ?thesis using grown_mono [OF loop_rest [OF img sz seg ne] B] by simp
  qed
qed

lemma malloc_locked_cases:
  assumes ok: "heap_ok L s bs" and img: "image_ok L" and sz: "unat size' + 48 < 4294967296"
  shows "\<exists>b0. case MmVmAllocate L (s\<lparr>l_bestBet := b0\<rparr>) (pages_for size') of
      Inl e \<Rightarrow> malloc_locked L size' req s = Some (Inl e)
    | Inr (v, s') \<Rightarrow> v \<notin> set bs \<longrightarrow> (\<exists>b \<in> insert v (insert NULL (set bs)).
        malloc_locked L size' req s = ret (data_of v, after_malloc size' req bs v b s'))"
proof (cases "bs = []")
  case True
  have "l_bestBet s = NULL" using heap_okD(5) [OF ok] True by simp
  then have "s\<lparr>l_bestBet := NULL\<rparr> = s" by simp
  then show ?thesis using malloc_locked_first [of L s size' req] ok img sz True
    by (intro exI [of _ NULL]) (auto split: sum.splits)
next
  case False
  have c2: "case_2 size' req v ((link (last bs) v (new_block v (pages_for size') s'))\<lparr>l_bestBet := b\<rparr>) =
      (data_of v, after_malloc size' req bs v b s')" for v b s'
    using False by (simp add: case_2_eq after_malloc_def attached_def)
  from malloc_locked_later [OF ok img sz False, of req] obtain b0 where
    "case MmVmAllocate L (s\<lparr>l_bestBet := b0\<rparr>) (pages_for size') of
      Inl e \<Rightarrow> malloc_locked L size' req s = Some (Inl e)
    | Inr (v, s') \<Rightarrow> v \<noteq> last bs \<longrightarrow> (\<exists>b \<in> insert v (insert NULL (set bs)).
        malloc_locked L size' req s = ret (data_of v, after_malloc size' req bs v b s'))"
    unfolding grown_def c2 by blast
  then show ?thesis
    using last_in_set [OF False] by (intro exI [of _ b0]) (auto split: sum.splits)
qed


lemma MmVmAllocate_Inl: "MmVmAllocate L s n = Inl e \<Longrightarrow>
    e \<in> {Panic ''Could not allocate physical page!'', Panic ''Could not allocate kernel virtual pages''}"
  by (auto simp: MmVmAllocate_def rbind_def dest: vm_map_Inl split: option.splits sum.splits)

text \<open>\<open>malloc\<close> under the lock, for sizes that leave room for the header.\<close>

lemma malloc_locked_ok:
  assumes ok: "heap_ok L s bs" and img: "image_ok L"
    and sz: "unat size' + 48 < 4294967296" "unat req + 4112 \<le> unat size'"
  shows "(\<exists>e \<in> {Panic ''Could not allocate physical page!'', Panic ''Could not allocate kernel virtual pages''}.
      malloc_locked L size' req s = Some (Inl e)) \<or>
    (\<exists>v s'. malloc_locked L size' req s = ret (data_of v, s') \<and> heap_ok L s' (bs @ [v]) \<and> v \<notin> set bs \<and>
      \<not> LibAllocLock s' \<and> maj_size (majors s' v) = pages_for size' * 4096 \<and>
      unat (maj_size (majors s' v)) = unat (pages_for size') * 4096 \<and>
      minors s' = (minors s)(v + 24 := \<lparr>min_prev = NULL, min_next = NULL,
        min_block = v, min_magic = LIBALLOC_MAGIC, min_size = size', min_req_size = req\<rparr>) \<and>
      bmem s' = (bmem s)(data_of v - 16 := ucast (pad v + 16)) \<and>
      (\<forall>a. owned L s' a \<longleftrightarrow> owned L s a \<or> in_block s' v a) \<and> (\<forall>a. in_block s' v a \<longrightarrow> \<not> owned L s a))"
proof -
  from malloc_locked_cases [OF ok img sz(1)] obtain b0 where
    c: "case MmVmAllocate L (s\<lparr>l_bestBet := b0\<rparr>) (pages_for size') of
      Inl e \<Rightarrow> malloc_locked L size' req s = Some (Inl e)
    | Inr (v, s') \<Rightarrow> v \<notin> set bs \<longrightarrow> (\<exists>b \<in> insert v (insert NULL (set bs)).
        malloc_locked L size' req s = ret (data_of v, after_malloc size' req bs v b s'))" by blast
  show ?thesis
  proof (cases "MmVmAllocate L (s\<lparr>l_bestBet := b0\<rparr>) (pages_for size')")
    case (Inl e)
    with c MmVmAllocate_Inl [OF Inl] show ?thesis by simp
  next
    case (Inr x)
    obtain v s' where x: "x = (v, s')" by (cases x)
    have al: "MmVmAllocate L (s\<lparr>l_bestBet := b0\<rparr>) (pages_for size') = Inr (v, s')" using Inr x by simp
    have vbs: "v \<notin> set bs" by (rule heap_ok_after(2) [OF ok img al sz insertI1])
    with c al obtain b where b: "b \<in> insert v (insert NULL (set bs))"
      and r: "malloc_locked L size' req s = ret (data_of v, after_malloc size' req bs v b s')" by auto
    note h = heap_ok_after [OF ok img al sz b] and f = after_malloc_fields [OF vbs, where size' = size' and req = req and b = b and s = s']
    from MmVmAllocate_state [OF al] have s': "minors s' = minors s" "bmem s' = bmem s" by auto
    have n: "unat (pages_for size' * 4096) = unat (pages_for size') * 4096"
      using MmVmAllocate_pages(2) [OF al] by (simp add: unat_word_ariths)
    show ?thesis
      by (rule disjI2, intro exI conjI, rule r, rule h, rule vbs)
         (use h(4,5) in \<open>simp_all add: f s' n\<close>)
  qed
qed

lemma malloc_small:
  assumes "\<not> LibAllocLock s" "unat req + 4160 < 4294967296"
  shows "malloc L req s = malloc_locked L (req + 4112) req (s\<lparr>LibAllocLock := True\<rparr>)"
    "unat (req + 4112) = unat req + 4112"
proof -
  show u: "unat (req + 4112) = unat req + 4112" using assms(2) by (simp add: unat_plus_if')
  then have "req + 4112 \<noteq> 0" by (auto simp: word_unat_eq_iff)
  then show "malloc L req s = malloc_locked L (req + 4112) req (s\<lparr>LibAllocLock := True\<rparr>)"
    using assms(1) by (simp add: malloc_def liballoc_lock_def ALIGNMENT_def ALIGN_INFO_def)
qed

lemma heap_ok_lock [simp]: "heap_ok L (s\<lparr>LibAllocLock := x\<rparr>) bs = heap_ok L s bs"
  by (simp add: heap_ok_def)

lemma data_in_block:
  assumes "in_range a (data_of v) n" "n + 4160 \<le> k"
  shows "in_range a v k"
proof -
  have le: "unat (x + y) \<le> unat x + unat y" for x y :: u32 by (simp add: unat_word_ariths)
  have "(a - data_of v) + (data_of v - v) = a - v" by simp
  with le [of "a - data_of v" "data_of v - v"]
  have "unat (a - v) \<le> unat (a - data_of v) + unat (data_of v - v)" by (simp only:)
  with assms pad_less [of v] show ?thesis by (simp add: in_range_def data_of_offset)
qed


text \<open>When frames and pages are plentiful, \<open>malloc\<close> returns.\<close>

text \<open>At least \<open>n\<close> frames from the search mark on are free.\<close>

definition frames_left :: "'z pm_state_scheme \<Rightarrow> nat \<Rightarrow> bool" where
  "frames_left s n \<longleftrightarrow> (\<exists>F. finite F \<and> n \<le> card F \<and>
     (\<forall>i \<in> F. MmPmBitmapTop s \<le> i \<and> i < MM_BITMAP_SIZE \<and> page_status s i = MmPmPageFree))"

lemma frames_leftI:
  assumes "inj_on f {..<n}"
    and "\<And>k. k < n \<Longrightarrow> unat (MmPmBitmapTop s) \<le> f k \<and> f k < 1048576 \<and> page_status s (of_nat (f k)) = MmPmPageFree"
  shows "frames_left s n"
proof -
  let ?F = "(\<lambda>k. of_nat (f k) :: u32) ` {..<n}"
  have u: "unat (of_nat (f k) :: u32) = f k" if "k < n" for k
    using assms(2) [OF that] by (intro unat_of_nat32) linarith
  have "inj_on (\<lambda>k. of_nat (f k) :: u32) {..<n}"
  proof (rule inj_onI)
    fix k l assume kl: "k \<in> {..<n}" "l \<in> {..<n}" "(of_nat (f k) :: u32) = of_nat (f l)"
    then have "k < n" "l < n" by simp_all
    then have "f k = f l" using u [of k] u [of l] kl(3) by metis
    then show "k = l" by (rule inj_onD [OF assms(1) _ kl(1,2)])
  qed
  then have "card ?F = n" by (simp add: card_image)
  moreover have "\<forall>i \<in> ?F. MmPmBitmapTop s \<le> i \<and> i < MM_BITMAP_SIZE \<and> page_status s i = MmPmPageFree"
  proof
    fix i assume "i \<in> ?F"
    then obtain k where k: "k < n" "i = of_nat (f k)" by blast
    have "unat (MM_BITMAP_SIZE) = 1048576" by (simp add: MM_BITMAP_SIZE_def)
    then show "MmPmBitmapTop s \<le> i \<and> i < MM_BITMAP_SIZE \<and> page_status s i = MmPmPageFree"
      using assms(2) [OF k(1)] u [OF k(1)] unfolding k(2) word_le_nat_alt word_less_nat_alt by metis
  qed
  ultimately show ?thesis unfolding frames_left_def by (intro exI [of _ ?F]) simp
qed

lemma plenty_frames:
  "frames_left s (n + m) \<Longrightarrow> \<exists>ps s'. alloc_frames MmPmAllocate n s = Inr (ps, s') \<and> frames_left s' m"
proof (induction n arbitrary: s)
  case (Suc n)
  obtain F where F: "finite F" "Suc n + m \<le> card F"
    "\<forall>i \<in> F. MmPmBitmapTop s \<le> i \<and> i < MM_BITMAP_SIZE \<and> page_status s i = MmPmPageFree"
    using Suc.prems by (auto simp: frames_left_def)
  then have "F \<noteq> {}" by auto
  then obtain j where j: "j \<in> F" by blast
  obtain i where i: "pm_search (MmPmBitmap s) (MmPmBitmapTop s) = Inr (Some i)"
    using pm_search_None [of "MmPmBitmap s" "MmPmBitmapTop s" j] F(3) j
    by (cases "pm_search (MmPmBitmap s) (MmPmBitmapTop s)") (auto simp: page_status_def)
  note first = pm_search_Some [OF i]
  let ?s = "s\<lparr>MmPmBitmapTop := i + 1, MmPmBitmap := pm_write (MmPmBitmap s) i 1\<rparr>"
  have al: "MmPmAllocate s = Inr (push_bit 12 i, ?s)" by (simp add: MmPmAllocate_eq i)
  have "\<forall>k \<in> F - {i}. MmPmBitmapTop ?s \<le> k \<and> k < MM_BITMAP_SIZE \<and> page_status ?s k = MmPmPageFree"
  proof
    fix k assume k: "k \<in> F - {i}"
    then have "\<not> k < i" using F(3) first by (auto simp: page_status_def)
    then have "i + 1 \<le> k" using k by (intro inc_le) auto
    moreover have "page_status ?s k = MmPmPageFree" using F(3) k by (auto simp: status_write pm_values)
    ultimately show "MmPmBitmapTop ?s \<le> k \<and> k < MM_BITMAP_SIZE \<and> page_status ?s k = MmPmPageFree" using F(3) k by simp
  qed
  moreover have "n + m \<le> card (F - {i})" using F(1,2) by (cases "i \<in> F") (simp_all add: card_Diff_singleton)
  ultimately have "frames_left ?s (n + m)" unfolding frames_left_def using F(1) by (intro exI [of _ "F - {i}"]) simp
  from Suc.IH [OF this] al show ?case by auto
qed simp


subsection \<open>Properties of malloc\<close>

text \<open>A heap before its first use, for concrete runs.\<close>

definition empty_heap :: heap_state where
  "empty_heap = \<lparr>MmPmBitmap = (\<lambda>_. 0), MmPmBitmapTop = 300, pmem = (\<lambda>_. 0), cr3 = 0,
     CurrentPageDirectoryPhys = 0, CurrentPageDirectory = 0, bmem = (\<lambda>_. 0), console = blank_tty,
     LibAllocLock = False,
     majors = (\<lambda>_. \<lparr>maj_prev = 0, maj_next = 0, maj_pages = 0, maj_size = 0, maj_usage = 0, maj_first = 0\<rparr>),
     minors = (\<lambda>_. \<lparr>min_prev = 0, min_next = 0, min_block = 0, min_magic = 0, min_size = 0, min_req_size = 0\<rparr>),
     l_memRoot = NULL, l_bestBet = NULL, l_allocated = 0, l_inuse = 0,
     l_warningCount = 0, l_errorCount = 0, l_possibleOverruns = 0\<rparr>"

lemma empty_heap_ok: "heap_ok L empty_heap []" "\<not> LibAllocLock empty_heap"
  by (simp_all add: heap_ok_def empty_heap_def)

lemma sample_image_ok: "image_ok sample_image"
  by (simp add: image_ok_def)

lemma empty_heap_alloc:
  assumes "n \<noteq> 0" "unat n \<le> 131071"
  shows "\<exists>s'. MmVmAllocate L (empty_heap\<lparr>l_bestBet := b, LibAllocLock := k\<rparr>) n =
    Inr (addr_VirtualAddress L + 4096, s')"
proof -
  let ?s = "empty_heap\<lparr>l_bestBet := b, LibAllocLock := k\<rparr>"
  have "0 < unat n" using assms(1) by (simp add: unat_gt_0)
  then have run: "first_run L ?s (unat n) 1"
    using assms(2) by (auto simp: first_run_def free_run_def KERNEL_PAGES_def kpt_def Present_def empty_heap_def)
  have "\<exists>ps a. alloc_frames MmPmAllocate (unat n) ?s = Inr (ps, a)"
  proof -
    have "frames_left ?s (unat n + 0)"
      by (rule frames_leftI [where f = "\<lambda>k. 300 + k"])
        (use assms(2) in \<open>auto simp: empty_heap_def page_status_def pm_field_def pm_values\<close>)
    from plenty_frames [OF this] show ?thesis by blast
  qed
  with MmVmAllocate_returns [OF run] show ?thesis by auto
qed

text \<open>A run of \<open>malloc\<close> on the empty heap.\<close>

lemma empty_heap_malloc:
  assumes "image_ok L" "unat size' + 48 < 4294967296" "unat (pages_for size') \<le> 131071"
  shows "\<exists>s1 b0 b. b \<in> {addr_VirtualAddress L + 4096, NULL} \<and>
    MmVmAllocate L (empty_heap\<lparr>LibAllocLock := True, l_bestBet := b0\<rparr>) (pages_for size') =
      Inr (addr_VirtualAddress L + 4096, s1) \<and>
    malloc_locked L size' req (empty_heap\<lparr>LibAllocLock := True\<rparr>) =
      ret (data_of (addr_VirtualAddress L + 4096), after_malloc size' req [] (addr_VirtualAddress L + 4096) b s1)"
proof -
  let ?s = "empty_heap\<lparr>LibAllocLock := True\<rparr>"
  have h: "heap_ok L ?s []" using empty_heap_ok(1) by simp
  from malloc_locked_cases [OF h assms(1,2), of req] obtain b0 where
    c: "case MmVmAllocate L (?s\<lparr>l_bestBet := b0\<rparr>) (pages_for size') of
      Inl e \<Rightarrow> malloc_locked L size' req ?s = Some (Inl e)
    | Inr (v, s') \<Rightarrow> v \<notin> set [] \<longrightarrow> (\<exists>b \<in> insert v (insert NULL (set [])).
        malloc_locked L size' req ?s = ret (data_of v, after_malloc size' req [] v b s'))" by blast
  have "pages_for size' \<noteq> 0" using pages_for_enough(2) [OF assms(2)] by auto
  moreover have "empty_heap\<lparr>l_bestBet := b0, LibAllocLock := True\<rparr> = ?s\<lparr>l_bestBet := b0\<rparr>" by simp
  ultimately obtain s1 where "MmVmAllocate L (?s\<lparr>l_bestBet := b0\<rparr>) (pages_for size') =
      Inr (addr_VirtualAddress L + 4096, s1)"
    using empty_heap_alloc [OF _ assms(3), where b = b0 and k = True] by metis
  moreover from this c have "\<exists>b \<in> insert (addr_VirtualAddress L + 4096) (insert NULL (set [])).
      malloc_locked L size' req ?s = ret (data_of (addr_VirtualAddress L + 4096),
        after_malloc size' req [] (addr_VirtualAddress L + 4096) b s1)" by simp
  ultimately show ?thesis by (metis list.set(1))
qed

lemma empty_heap_malloc_100:
  "image_ok L \<Longrightarrow> \<exists>s'. malloc L 100 empty_heap = ret (data_of (addr_VirtualAddress L + 4096), s')"
  using empty_heap_malloc [of L 4212 100] malloc_small(1) [OF empty_heap_ok(2), of 100 L]
  by (auto simp: pages_for_def Let_def liballoc_consts)

lemma malloc_returns_fresh:
  assumes "heap_ok L s bs" "image_ok L" "unat req + 4160 < 4294967296" and False: "\<not> LibAllocLock s"
  shows "(\<exists>e \<in> {Panic ''Could not allocate physical page!'', Panic ''Could not allocate kernel virtual pages''}.
        malloc L req s = Some (Inl e)) \<or>
      (\<exists>p v s'. malloc L req s = ret (p, s') \<and> p AND 0xFFF = 0 \<and>
        (\<forall>a. in_range a p (unat req) \<longrightarrow> \<not> owned L s a \<and> owned L s' a) \<and>
        (\<forall>a. owned L s a \<longrightarrow> owned L s' a \<and> bmem s' a = bmem s a) \<and>
        heap_ok L s' (bs @ [v]) \<and> p = data_of v \<and> min_req_size (minors s' (v + 24)) = req \<and> \<not> LibAllocLock s')"
proof -
  note m = malloc_small [OF False assms(3)]
  let ?s = "s\<lparr>LibAllocLock := True\<rparr>"
  have sz: "unat (req + 4112) + 48 < 4294967296" "unat req + 4112 \<le> unat (req + 4112)"
    using m(2) assms(3) by simp_all
  have "heap_ok L ?s bs" using assms(1) by simp
  from malloc_locked_ok [OF this assms(2) sz] show ?thesis
  proof (elim disjE exE conjE)
    assume "\<exists>e \<in> {Panic ''Could not allocate physical page!'', Panic ''Could not allocate kernel virtual pages''}.
      malloc_locked L (req + 4112) req ?s = Some (Inl e)"
    with False m(1) show ?thesis by simp
  next
    fix v s'
    assume r: "malloc_locked L (req + 4112) req ?s = ret (data_of v, s')" and h: "heap_ok L s' (bs @ [v])"
      and l: "\<not> LibAllocLock s'" and n: "unat (maj_size (majors s' v)) = unat (pages_for (req + 4112)) * 4096"
      and mi: "minors s' = (minors ?s)(v + 24 := \<lparr>min_prev = NULL, min_next = NULL,
        min_block = v, min_magic = LIBALLOC_MAGIC, min_size = req + 4112, min_req_size = req\<rparr>)"
      and bm: "bmem s' = (bmem ?s)(data_of v - 16 := ucast (pad v + 16))"
      and o: "\<forall>a. owned L s' a \<longleftrightarrow> owned L ?s a \<or> in_block s' v a" "\<forall>a. in_block s' v a \<longrightarrow> \<not> owned L ?s a"
    have k: "unat req + 4160 \<le> unat (maj_size (majors s' v))"
      using pages_for_enough(1) [OF sz(1)] m(2) n by simp
    have inb: "in_range a (data_of v) (unat req) \<Longrightarrow> in_block s' v a" for a
      by (rule data_in_block [OF _ k])
    have "in_block s' v (data_of v - 16)" using k by (intro align_byte_in_range) (simp add: n; use pages_for_enough(2) [OF sz(1)] in simp)
    with o bm have "owned L s a \<Longrightarrow> bmem s' a = bmem s a" for a by auto
    then show ?thesis
      using False m(1) r h l mi o inb data_of_aligned [of v] by auto
  qed
qed



definition heap_ready :: "linker \<Rightarrow> 'z heap_state_scheme \<Rightarrow> bool" where
  "heap_ready L s \<longleftrightarrow> image_ok L \<and> \<not> LibAllocLock s \<and> (\<exists>bs. heap_ok L s bs)"

definition request_fits :: "u32 \<Rightarrow> bool" where
  "request_fits n \<longleftrightarrow> unat n + 4160 < 4294967296"

lemma malloc_ret:
  assumes ok: "heap_ok L s bs" "image_ok L" "\<not> LibAllocLock s" "request_fits n" and r: "malloc L n s = ret (p, s')"
  shows "\<exists>v. p = data_of v \<and> heap_ok L s' (bs @ [v]) \<and> v \<notin> set bs \<and> \<not> LibAllocLock s' \<and>
    unat n + 4160 \<le> unat (maj_size (majors s' v)) \<and>
    minors s' = (minors s)(v + 24 := \<lparr>min_prev = NULL, min_next = NULL,
        min_block = v, min_magic = LIBALLOC_MAGIC, min_size = n + 4112, min_req_size = n\<rparr>) \<and>
    bmem s' = (bmem s)(data_of v - 16 := ucast (pad v + 16)) \<and>
    (\<forall>a. owned L s' a \<longleftrightarrow> owned L s a \<or> in_block s' v a) \<and> (\<forall>a. in_block s' v a \<longrightarrow> \<not> owned L s a)"
proof -
  note m = malloc_small [OF ok(3) ok(4) [unfolded request_fits_def]]
  have sz: "unat (n + 4112) + 48 < 4294967296" "unat n + 4112 \<le> unat (n + 4112)"
    using m(2) ok(4) by (simp_all add: request_fits_def)
  have "heap_ok L (s\<lparr>LibAllocLock := True\<rparr>) bs" using ok(1) by simp
  from malloc_locked_ok [OF this ok(2) sz] r [unfolded m(1)]
  obtain v where "p = data_of v" "heap_ok L s' (bs @ [v])" "v \<notin> set bs" "\<not> LibAllocLock s'"
      "unat (maj_size (majors s' v)) = unat (pages_for (n + 4112)) * 4096"
      "minors s' = (minors s)(v + 24 := \<lparr>min_prev = NULL, min_next = NULL,
        min_block = v, min_magic = LIBALLOC_MAGIC, min_size = n + 4112, min_req_size = n\<rparr>)"
      "bmem s' = (bmem s)(data_of v - 16 := ucast (pad v + 16))"
      "\<forall>a. owned L s' a \<longleftrightarrow> owned L s a \<or> in_block s' v a" "\<forall>a. in_block s' v a \<longrightarrow> \<not> owned L s a"
    by (auto simp: ret_def)
  moreover from this(5) pages_for_enough(1) [OF sz(1)] m(2)
  have "unat n + 4160 \<le> unat (maj_size (majors s' v))" by simp
  ultimately show ?thesis by blast
qed

interpretation heap: allocator "\<lambda>s n. malloc L n s" "heap_ready L" "owned L" request_fits for L
proof
  fix s s' :: "'a heap_state_scheme" and n p a
  assume ok: "heap_ready L s" and n: "request_fits n" and r: "malloc L n s = ret (p, s')"
  then obtain bs where "heap_ok L s bs" "image_ok L" "\<not> LibAllocLock s" by (auto simp: heap_ready_def)
  from malloc_ret [OF this n r] obtain v where v: "p = data_of v" "heap_ok L s' (bs @ [v])" "\<not> LibAllocLock s'"
    "unat n + 4160 \<le> unat (maj_size (majors s' v))"
    "\<forall>a. owned L s' a \<longleftrightarrow> owned L s a \<or> in_block s' v a" "\<forall>a. in_block s' v a \<longrightarrow> \<not> owned L s a" by blast
  have inb: "in_range a p (unat n) \<Longrightarrow> in_block s' v a" for a
    unfolding v(1) by (rule data_in_block [OF _ v(4)])
  show "heap_ready L s'" using v ok by (auto simp: heap_ready_def)
  show "\<not> owned L s a" if "in_range a p (unat n)" using inb [OF that] v(6) by simp
  show "owned L s' a" if "owned L s a \<or> in_range a p (unat n)" using that inb v(5) by auto
qed

text \<open>
  C10. The objects of any sequence of \<open>malloc\<close>s do not overlap one another or anything owned
  before: starting from a well-formed heap, for all sizes that fit, whatever their number.
\<close>

theorem malloced_objects_do_not_overlap:
  assumes "heap_ready L s" "list_all request_fits ns" "get_all (\<lambda>s n. malloc L n s) ns s = ret (ps, s')"
  shows "sorted_wrt no_overlap ps \<and> heap_ready L s' \<and>
    (\<forall>(p, n) \<in> set ps. \<forall>a. in_range a p (unat n) \<longrightarrow> owned L s' a \<and> \<not> owned L s a)"
  using heap.get_all_no_overlap [OF assms] heap.get_all_live [OF assms] by blast

lemma pages_for_small:
  assumes "unat k < 4112"
  shows "pages_for k = 16"
proof -
  let ?s = "k + sizeof_major + sizeof_minor"
  have "unat ?s = unat k + 48" using assms by (simp add: liballoc_consts add.assoc unat_plus_if')
  then have "unat (?s div l_pageSize) \<le> 1" using assms by (simp add: l_pageSize_def unat_div)
  then have "?s div l_pageSize \<le> 1" by (simp add: word_le_nat_alt)
  moreover from this have "?s div l_pageSize + 1 \<le> 2"
    by (simp add: word_le_nat_alt unat_plus_if')
  ultimately show ?thesis
    by (auto simp: pages_for_def Let_def l_pageCount_def word_le_nat_alt word_less_nat_alt)
qed

text \<open>
  A request within 4112 bytes of the top of the 32-bit range wraps round when the alignment
  is added: the block is 64 KiB, while its header records the whole request.
\<close>

lemma malloc_wraps_on_huge_requests:
  assumes "heap_ok L s bs" "image_ok L" "\<not> LibAllocLock s" "4294967296 < unat req + 4112"
    and "malloc L req s = ret (p, s')"
  shows "\<exists>v. p = data_of v \<and> unat (maj_size (majors s' v)) = 65536 \<and> min_req_size (minors s' (v + 24)) = req"
proof -
  let ?n = "req + 4112" and ?s = "s\<lparr>LibAllocLock := True\<rparr>"
  have "unat req < 4294967296" using unsigned_less [of req] by simp
  with assms(4) have n: "unat ?n = unat req + 4112 - 4294967296" "0 < unat ?n" "unat ?n < 4112"
    by (simp_all add: unat_plus_if')
  then have "?n \<noteq> 0" by auto
  with assms(3,5) have r: "malloc_locked L ?n req ?s = ret (p, s')"
    by (simp add: malloc_def liballoc_lock_def ALIGNMENT_def ALIGN_INFO_def)
  have h: "heap_ok L ?s bs" using assms(1) by simp
  have sz: "unat ?n + 48 < 4294967296" using n(3) by simp
  from malloc_locked_cases [OF h assms(2) sz, of req] obtain b0 where
    c: "case MmVmAllocate L (?s\<lparr>l_bestBet := b0\<rparr>) (pages_for ?n) of
      Inl e \<Rightarrow> malloc_locked L ?n req ?s = Some (Inl e)
    | Inr (v, s') \<Rightarrow> v \<notin> set bs \<longrightarrow> (\<exists>b \<in> insert v (insert NULL (set bs)).
        malloc_locked L ?n req ?s = ret (data_of v, after_malloc ?n req bs v b s'))" by blast
  then obtain v s1 where al: "MmVmAllocate L (?s\<lparr>l_bestBet := b0\<rparr>) (pages_for ?n) = Inr (v, s1)"
    using r by (auto simp: ret_def split: sum.splits)
  have v: "v \<notin> set bs" by (rule new_block_fresh [OF h al])
  with c al r obtain b where p: "p = data_of v" "s' = after_malloc ?n req bs v b s1" by auto
  have "pages_for ?n = 16" by (rule pages_for_small [OF n(3)])
  with p show ?thesis
    by (intro exI [of _ v]) (simp add: after_malloc_fields [OF v])
qed


theorem malloced_objects_do_not_overlap_witness:
  "\<exists>p q s'. get_all (\<lambda>s n. malloc sample_image n s) [100] empty_heap = ret ([(p, 100)], s') \<and>
     (\<forall>a. in_range a p 100 \<longrightarrow> \<not> owned sample_image empty_heap a)"
proof -
  obtain p s' where "malloc sample_image 100 empty_heap = ret (p, s')"
    using empty_heap_malloc_100 [OF sample_image_ok] by blast
  then have r: "get_all (\<lambda>s n. malloc sample_image n s) [100] empty_heap = ret ([(p, 100)], s')" by simp
  have "heap_ready sample_image empty_heap"
    using empty_heap_ok sample_image_ok by (auto simp: heap_ready_def)
  with malloced_objects_do_not_overlap [OF _ _ r] r show ?thesis by (auto simp: request_fits_def)
qed

lemma malloc_wraps_on_huge_requests_witness:
  "\<exists>v s'. malloc sample_image 0xFFFFFFFF empty_heap = ret (data_of v, s') \<and>
     unat (maj_size (majors s' v)) = 65536 \<and> min_req_size (minors s' (v + 24)) = 0xFFFFFFFF"
proof -
  obtain p s' where "malloc_locked sample_image 4111 0xFFFFFFFF (empty_heap\<lparr>LibAllocLock := True\<rparr>) = ret (p, s')"
    using empty_heap_malloc [OF sample_image_ok, of 4111 "0xFFFFFFFF"]
    by (auto simp: pages_for_def Let_def liballoc_consts)
  moreover have "(4294971407 :: u32) = 4111" by simp
  ultimately have r: "malloc sample_image 0xFFFFFFFF empty_heap = ret (p, s')"
    using empty_heap_ok(2)
    by (simp add: malloc_def liballoc_lock_def ALIGNMENT_def ALIGN_INFO_def \<open>(4294971407 :: u32) = 4111\<close>)
  from malloc_wraps_on_huge_requests [OF empty_heap_ok(1) sample_image_ok empty_heap_ok(2) _ r] r
  show ?thesis by auto
qed

subsection \<open>The copying helpers\<close>

declare liballoc_memset_loop.simps [simp del]

lemma liballoc_memset_loop_apply:
  "i \<le> n \<Longrightarrow> liballoc_memset_loop m p c n i a = (if a - p < n \<and> i \<le> a - p then ucast c else m a)"
proof (induction m p c n i rule: liballoc_memset_loop.induct)
  case (1 m p c n i)
  show ?case
  proof (cases "i < n")
    case True
    have step: "i + 1 \<le> n" using True by (rule inc_le)
    have split: "i \<le> a - p \<longleftrightarrow> i + 1 \<le> a - p \<or> a = p + i"
      using word_inc_le_iff [OF True] by (auto simp: algebra_simps)
    from 1(1) [OF True step] True split show ?thesis
      by (auto simp: liballoc_memset_loop.simps [of m p c n i] fun_upd_def)
  next
    case False
    with 1(2) have "i = n" by simp
    then show ?thesis by (auto simp: liballoc_memset_loop.simps)
  qed
qed

lemma liballoc_memset_apply: "liballoc_memset m p c n a = (if a - p < n then ucast c else m a)"
  by (simp add: liballoc_memset_def liballoc_memset_loop_apply)

lemma shift_less:
  fixes x n k :: u32
  assumes "k \<le> n" "unat k \<le> 4"
  shows "x - k < n - k \<longleftrightarrow> k \<le> x \<and> x < n"
proof -
  have "unat x < 4294967296" "unat n < 4294967296" using unsigned_less [of x] unsigned_less [of n] by simp_all
  then show ?thesis
    using assms by (auto simp: word_less_nat_alt word_le_nat_alt unat_sub_if' not_le)
qed

lemma copy_bytes_apply:
  "ranges_disjoint d s n \<Longrightarrow> copy_bytes m d s n a = (if a - d < n then m (s + (a - d)) else m a)"
proof (induction m d s n rule: copy_bytes.induct)
  case (1 m d s n)
  show ?case
  proof (cases "n > 0")
    case True
    have one: "1 \<le> n" using True by (simp add: word_le_nat_alt word_less_nat_alt)
    have sh: "x - 1 < n - 1 \<longleftrightarrow> x \<noteq> 0 \<and> x < n" for x :: u32
      using shift_less [OF one] by (simp add: word_le_nat_alt unat_gt_0 Suc_le_eq)
    have e: "b - (q + 1) = (b - q) - 1" for b q :: u32 by simp
    have "ranges_disjoint (d + 1) (s + 1) (n - 1)"
      using 1(2) unfolding ranges_disjoint_def e sh by blast
    from 1(1) [OF True this] have IH: "copy_bytes (m(d := m s)) (d + 1) (s + 1) (n - 1) a =
        (if a \<noteq> d \<and> a - d < n then (m(d := m s)) (s + (a - d)) else (m(d := m s)) a)"
      unfolding e sh by (simp add: fun_upd_def)
    have "s + (a - d) \<noteq> d" if "a - d < n"
      using 1(2) that True unfolding ranges_disjoint_def
      by (metis add_diff_cancel_left' diff_self)
    with IH True show ?thesis by (auto simp: copy_bytes.simps [of m d s n])
  next
    case False
    then have "n = 0" by (simp add: word_gt_0)
    then show ?thesis by (simp add: copy_bytes.simps)
  qed
qed

lemma four_cases: "x < 4 \<longleftrightarrow> x = 0 \<or> x = 1 \<or> x = 2 \<or> x = 3" for x :: u32
proof
  assume "x < 4"
  then have "unat x < 4" by (simp add: word_less_nat_alt)
  then have "unat x \<in> {0, 1, 2, 3}" by auto
  then show "x = 0 \<or> x = 1 \<or> x = 2 \<or> x = 3" by (auto simp: word_unat_eq_iff)
qed auto

lemma copy_word_apply: "copy_word m d s a = (if a - d < 4 then m (s + (a - d)) else m a)"
proof (cases "a - d < 4")
  case True
  have "a = d + (a - d)" by simp
  with True [unfolded four_cases] have "a = d + 0 \<or> a = d + 1 \<or> a = d + 2 \<or> a = d + 3" by metis
  with True show ?thesis by (elim disjE) (simp_all add: copy_word_def)
next
  case False
  then have "a \<noteq> d + 0" "a \<noteq> d + 1" "a \<noteq> d + 2" "a \<noteq> d + 3" by auto
  with False show ?thesis by (simp add: copy_word_def)
qed

lemma liballoc_memcpy_apply:
  "ranges_disjoint d s n \<Longrightarrow> liballoc_memcpy m d s n a = (if a - d < n then m (s + (a - d)) else m a)"
proof (induction m d s n rule: liballoc_memcpy.induct)
  case (1 m d s n)
  show ?case
  proof (cases "n \<ge> 4")
    case True
    note sh = shift_less [OF True]
    have e: "b - (q + 4) = (b - q) - 4" for b q :: u32 by simp
    have "ranges_disjoint (d + 4) (s + 4) (n - 4)"
      using 1(2) unfolding ranges_disjoint_def e by (simp add: sh)
    from 1(1) [OF True this] have IH: "liballoc_memcpy (copy_word m d s) (d + 4) (s + 4) (n - 4) a =
        (if 4 \<le> a - d \<and> a - d < n then copy_word m d s (s + (a - d)) else copy_word m d s a)"
      unfolding e by (simp add: sh)
    have "\<not> s + (a - d) - d < 4" if "a - d < n"
    proof
      assume "s + (a - d) - d < 4"
      with True have "s + (a - d) - d < n" by simp
      moreover have "s + (a - d) - s < n" using that by simp
      ultimately show False using 1(2) unfolding ranges_disjoint_def by blast
    qed
    with IH True show ?thesis
      by (auto simp: liballoc_memcpy.simps [of m d s n] copy_word_apply)
  next
    case False
    then show ?thesis using copy_bytes_apply [OF 1(2)] by (simp add: liballoc_memcpy.simps [of m d s n])
  qed
qed

text \<open>
  \<open>liballoc_memcpy\<close>, which copies words and then the remaining bytes, equals \<open>memcpy\<close> of
  libc on ranges that do not meet; \<open>liballoc_memset\<close>, which counts up, equals \<open>memset\<close>, which
  counts down, always.
\<close>

lemma word_copy_equals_byte_copy:
  "(ranges_disjoint d s n \<longrightarrow> liballoc_memcpy m d s n = memcpy m d s n) \<and>
   liballoc_memset m p c n = memset m p c n"
  by (auto simp: fun_eq_iff liballoc_memcpy_apply memcpy_apply liballoc_memset_apply memset_apply)

lemma word_copy_equals_byte_copy_witness:
  "liballoc_memcpy (\<lambda>a. ucast a) 0x200 0x100 7 = memcpy (\<lambda>a. ucast a) 0x200 0x100 7"
proof -
  have "ranges_disjoint 0x200 0x100 7"
    unfolding ranges_disjoint_def
  proof (intro allI notI, elim conjE)
    fix a :: ptr
    assume "a - 0x200 < 7" "a - 0x100 < 7"
    moreover obtain x where "a = x + 0x200" by (metis diff_add_cancel)
    ultimately have "x < 7" "0x100 + x < 7" by simp_all
    then show False by (simp add: word_less_nat_alt unat_plus_if' split: if_splits)
  qed
  with word_copy_equals_byte_copy [of "0x200" "0x100" 7 "\<lambda>a. ucast a"] show ?thesis by simp
qed

subsection \<open>realloc and calloc\<close>

lemma unlock_lock: "\<not> LibAllocLock s \<Longrightarrow> s\<lparr>LibAllocLock := False\<rparr> = s"
  by (cases s) simp

text \<open>The byte \<open>ALIGN\<close> stores holds the distance to the header only if that fits a byte.\<close>

lemma UNALIGN_data:
  assumes "m (data_of b - 16) = ucast (pad b + 16)"
  shows "UNALIGN (data_of b) m = data_of b - of_nat (unat (pad b + 16) mod 256)"
proof -
  have u: "unat (pad b + 16) = unat (pad b) + 16" using pad_less [of b] by (simp add: unat_plus_if')
  have "(ucast (ucast (pad b + 16) :: u8) :: u32) = of_nat (unat (pad b + 16) mod 256)"
    by (simp add: word_unat_eq_iff unsigned_ucast_eq unsigned_of_nat take_bit_eq_mod unat_mod)
  moreover have "(of_nat (unat (pad b + 16) mod 256) :: u32) < 4112"
    by (simp add: word_less_nat_alt unat_of_nat32)
  ultimately show ?thesis
    using assms by (simp add: UNALIGN_def ALIGNMENT_def ALIGN_INFO_def)
qed

lemma UNALIGN_near:
  assumes "m (data_of b - 16) = ucast (pad b + 16)" "unat (pad b) < 240"
  shows "UNALIGN (data_of b) m - 24 = b + 24"
proof -
  have "unat (pad b + 16) = unat (pad b) + 16" using pad_less [of b] by (simp add: unat_plus_if')
  with assms(2) have "(of_nat (unat (pad b + 16) mod 256) :: u32) = pad b + 16" by simp
  with UNALIGN_data [of m, OF assms(1)] show ?thesis by (simp add: data_of_def)
qed

text \<open>The state \<open>realloc\<close> ends in when it has to move the data.\<close>

lemma realloc_known:
  assumes "\<not> LibAllocLock s" "size' \<noteq> 0" "p \<noteq> NULL" "min_magic (minors s (UNALIGN p (bmem s) - 24)) = LIBALLOC_MAGIC"
  shows "realloc L p size' s =
    (let h = UNALIGN p (bmem s) - 24; old = min_req_size (minors s h) in
     if old \<ge> size' then ret (p, upd_minor h (\<lambda>m. m\<lparr>min_req_size := size'\<rparr>) s)
     else mbind (malloc L size' s) (\<lambda>(new, s). ret (new, s\<lparr>bmem := liballoc_memcpy (bmem s) new p old\<rparr>)))"
proof -
  have "(upd_minor h f (s\<lparr>LibAllocLock := True\<rparr>))\<lparr>LibAllocLock := False\<rparr> = upd_minor h f s" for h f
    using assms(1) by (cases s) (simp add: upd_minor_def)
  then show ?thesis
    using assms by (simp add: realloc_def Let_def sizeof_minor_def liballoc_lock_def liballoc_unlock_def unlock_lock)
qed

text \<open>
  C26. Growing an allocation with \<open>realloc\<close> keeps its contents when the alignment of its block
  needed fewer than 240 bytes of padding: the new pointer designates a fresh block that starts
  with a copy of the old bytes. Shrinking returns the same pointer.
\<close>

theorem realloc_keeps_contents:
  assumes ok: "heap_ok L s bs" "image_ok L" "\<not> LibAllocLock s" "request_fits n" "n \<noteq> 0"
    and b: "b \<in> set bs" "unat (pad b) < 240" "data_of b \<noteq> NULL"
    and r: "realloc L (data_of b) n s = ret (p, s')"
  shows "let old = min_req_size (minors s (b + 24)) in
    (n \<le> old \<longrightarrow> p = data_of b \<and> bmem s' = bmem s) \<and>
    (old < n \<longrightarrow> (\<forall>i < old. bmem s' (p + i) = bmem s (data_of b + i)) \<and>
       (\<forall>a. in_range a p (unat n) \<longrightarrow> \<not> owned L s a) \<and> (\<exists>v. p = data_of v))"
proof -
  let ?old = "min_req_size (minors s (b + 24))"
  have blk: "block_ok (majors s b) (minors s (b + 24)) b" using heap_okD(6) [OF ok(1) b(1)] .
  have h: "UNALIGN (data_of b) (bmem s) - 24 = b + 24"
    by (rule UNALIGN_near [of "bmem s" b, OF heap_okD(8) [OF ok(1) b(1)] b(2)])
  have "min_magic (minors s (b + 24)) = LIBALLOC_MAGIC" using blk by (simp add: block_ok_def)
  then have "min_magic (minors s (UNALIGN (data_of b) (bmem s) - 24)) = LIBALLOC_MAGIC" unfolding h .
  note rk = realloc_known [OF ok(3,5) b(3) this, of L, unfolded h Let_def]
  show ?thesis
  proof (cases "n \<le> ?old")
    case True
    with r rk show ?thesis by (auto simp: upd_minor_def)
  next
    case False
    with r rk obtain s1 where m: "malloc L n s = ret (p, s1)"
      and s': "s' = s1\<lparr>bmem := liballoc_memcpy (bmem s1) p (data_of b) ?old\<rparr>"
      by (auto simp: mbind_eq_ret)
    from malloc_ret [OF ok(1-4) m] obtain v where v: "p = data_of v" "unat n + 4160 \<le> unat (maj_size (majors s1 v))"
      "bmem s1 = (bmem s)(data_of v - 16 := ucast (pad v + 16))" "\<forall>a. in_block s1 v a \<longrightarrow> \<not> owned L s a" by blast
    have old: "in_block s b a" if "in_range a (data_of b) (unat ?old)" for a
      using data_in_block [OF that] blk by (simp add: block_ok_def)
    have new: "\<not> owned L s a" if "in_range a p (unat n)" for a
      using data_in_block [OF that [unfolded v(1)] v(2)] v(4) by blast
    from False have "?old < n" by simp
    then have lt: "unat ?old < unat n" by (simp only: word_less_nat_alt)
    have disj: "ranges_disjoint p (data_of b) ?old"
      unfolding ranges_disjoint_def
    proof (intro allI notI, elim conjE)
      fix a assume "a - p < ?old" "a - data_of b < ?old"
      then have "in_range a p (unat n)" "in_range a (data_of b) (unat ?old)"
        using lt by (simp_all add: in_range_def word_less_nat_alt)
      with new old heap_okD(7) [OF ok(1) b(1)] show False by blast
    qed
    have byte: "in_range (data_of v - 16) v (unat (maj_size (majors s1 v)))"
      using v(2) by (intro align_byte_in_range) simp
    have "bmem s' (p + i) = bmem s (data_of b + i)" if i: "i < ?old" for i
    proof -
      have "in_range (data_of b + i) (data_of b) (unat ?old)" using i by (simp add: in_range_def word_less_nat_alt)
      with old heap_okD(7) [OF ok(1) b(1)] have "owned L s (data_of b + i)" by blast
      with byte v(4) have "data_of b + i \<noteq> data_of v - 16" by auto
      with i show ?thesis unfolding s' by (simp add: liballoc_memcpy_apply [OF disj] v(3))
    qed
    with False new v(1) show ?thesis by (auto simp: Let_def)
  qed
qed

text \<open>A heap with one block, and an image in which its padding is small.\<close>

lemma one_block:
  assumes "image_ok L"
  shows "\<exists>s :: heap_state. heap_ok L s [addr_VirtualAddress L + 4096] \<and> \<not> LibAllocLock s \<and>
    min_req_size (minors s (addr_VirtualAddress L + 4120)) = 100 \<and>
    (\<forall>h. h \<noteq> addr_VirtualAddress L + 4120 \<longrightarrow> min_magic (minors s h) = 0)"
proof -
  let ?v = "addr_VirtualAddress L + 4096" and ?s = "empty_heap\<lparr>LibAllocLock := True\<rparr>"
  have sz: "unat (4212 :: u32) + 48 < 4294967296" "unat (100 :: u32) + 4112 \<le> unat (4212 :: u32)"
    "unat (pages_for 4212) \<le> 131071" by (simp_all add: pages_for_def Let_def liballoc_consts)
  from empty_heap_malloc [OF assms sz(1,3), of 100] obtain s1 b0 b where b: "b \<in> {?v, NULL}"
    and al: "MmVmAllocate L (?s\<lparr>l_bestBet := b0\<rparr>) (pages_for 4212) = Inr (?v, s1)" by blast
  let ?t = "after_malloc 4212 100 [] ?v b s1"
  have h: "heap_ok L ?s []" using empty_heap_ok(1) by simp
  have b': "b \<in> insert ?v (insert NULL (set []))" using b by simp
  have v: "?v \<notin> set []" by simp
  note f = after_malloc_fields [OF v, where size' = 4212 and req = 100 and b = b and s = s1]
  have m: "minors s1 = minors empty_heap" using MmVmAllocate_state [OF al] by auto
  have "heap_ok L ?t [?v]" using heap_ok_after(1) [OF h assms al sz(1,2) b'] by simp
  moreover have "min_magic (minors ?t x) = 0" if "x \<noteq> addr_VirtualAddress L + 4120" for x
    using that by (auto simp: f m empty_heap_def add.commute [of _ 4120])
  ultimately show ?thesis by (intro exI [of _ ?t]) (auto simp: f)
qed

theorem realloc_keeps_contents_witness:
  "\<exists>(s :: heap_state) p s'. heap_ok (sample_image\<lparr>addr_VirtualAddress := 0xE0009FB0\<rparr>) s [0xE000AFB0] \<and>
     realloc (sample_image\<lparr>addr_VirtualAddress := 0xE0009FB0\<rparr>) (data_of 0xE000AFB0) 50 s = ret (p, s') \<and>
     p = data_of 0xE000AFB0 \<and> bmem s' = bmem s"
proof -
  let ?L = "sample_image\<lparr>addr_VirtualAddress := 0xE0009FB0\<rparr>"
  have img: "image_ok ?L" by (simp add: image_ok_def)
  from one_block [OF img] show ?thesis
  proof (elim exE conjE)
  fix s :: heap_state
  assume "heap_ok ?L s [addr_VirtualAddress ?L + 4096]" and l: "\<not> LibAllocLock s"
    and "min_req_size (minors s (addr_VirtualAddress ?L + 4120)) = 100"
  then have h: "heap_ok ?L s [0xE000AFB0]" and req: "min_req_size (minors s 0xE000AFC8) = 100" by simp_all
  have p: "unat (pad 0xE000AFB0) < 240" "data_of 0xE000AFB0 \<noteq> NULL" "request_fits 50"
    by (simp_all add: pad_def data_of_def request_fits_def)
  have b: "0xE000AFB0 \<in> set [0xE000AFB0 :: ptr]" by simp
  have fifty: "(50 :: u32) \<noteq> 0" by simp
  have hd: "UNALIGN (data_of 0xE000AFB0) (bmem s) - 24 = 0xE000AFC8"
    using UNALIGN_near [of "bmem s" "0xE000AFB0", OF heap_okD(8) [OF h b] p(1)] by simp
  have "min_magic (minors s 0xE000AFC8) = LIBALLOC_MAGIC"
    using heap_okD(6) [OF h b] by (simp add: block_ok_def)
  then obtain s' where r: "realloc ?L (data_of 0xE000AFB0) 50 s = ret (data_of 0xE000AFB0, s')"
  proof -
    have m: "min_magic (minors s (UNALIGN (data_of 0xE000AFB0) (bmem s) - 24)) = LIBALLOC_MAGIC"
      using \<open>min_magic (minors s 0xE000AFC8) = LIBALLOC_MAGIC\<close> unfolding hd .
    have "50 \<le> min_req_size (minors s 0xE000AFC8)" unfolding req by simp
    then have "\<exists>s'. realloc ?L (data_of 0xE000AFB0) 50 s = ret (data_of 0xE000AFB0, s')"
      unfolding realloc_known [OF l fifty p(2) m] hd Let_def by (simp only: if_True) blast
    then show thesis using that by blast
  qed
  have e: "0xE000AFB0 + 24 = (0xE000AFC8 :: ptr)" and le: "(50 :: u32) \<le> 100" by simp_all
  from realloc_keeps_contents [OF h img l p(3) fifty b p(1,2) r, unfolded Let_def e req, THEN conjunct1, THEN mp, OF le]
  have "bmem s' = bmem s" by (rule conjunct2)
  with h r show ?thesis by blast
  qed
qed

lemma kprintf_ret:
  assumes "format (ascii msg) (map Number vs) = Some out"
  shows "\<exists>t. kprintf msg vs s = ret (s\<lparr>console := t\<rparr>)"
proof -
  have "list_all2 (passed m) (map Number vs) vs" for m
    by (simp add: list_all2_conv_all_nth)
  from Kprintf_loop_format [OF assms this] obtain t where
    "Kprintf_loop (bmem s) (ascii msg) vs (console s) = ret t" by blast
  then show ?thesis by (intro exI [of _ t]) (simp add: kprintf_def Kprintf_def)
qed

lemma bad_pointer_ret: "\<exists>s'. bad_pointer L p magic s = ret s' \<and> \<not> LibAllocLock s' \<and>
    bmem s' = bmem s \<and> majors s' = majors s \<and> minors s' = minors s \<and> l_errorCount s' = l_errorCount s + 1"
proof -
  let ?s = "s\<lparr>l_errorCount := l_errorCount s + 1\<rparr>"
  have 1: "\<exists>t. kprintf ''liballoc: ERROR: Possible 1-3 byte overrun for magic %x != %x\<newline>'' [v, w] s = ret (s\<lparr>console := t\<rparr>)"
    for v w and s :: "'a heap_state_scheme"
    by (rule kprintf_ret) (simp add: ascii_def)
  have 2: "\<exists>t. kprintf ''liballoc: ERROR: multiple PREFIX(free)() attempt on %x from %x.\<newline>'' [v, w] s = ret (s\<lparr>console := t\<rparr>)"
    for v w and s :: "'a heap_state_scheme"
    by (rule kprintf_ret) (simp add: ascii_def)
  have 3: "\<exists>t. kprintf ''liballoc: ERROR: Bad PREFIX(free)( %x ) called from %x\<newline>'' [v, w] s = ret (s\<lparr>console := t\<rparr>)"
    for v w and s :: "'a heap_state_scheme"
    by (rule kprintf_ret) (simp add: ascii_def)
  obtain t n where first: "(if magic AND 0xFFFFFF = LIBALLOC_MAGIC AND 0xFFFFFF \<or> magic AND 0xFFFF = LIBALLOC_MAGIC AND 0xFFFF
               \<or> magic AND 0xFF = LIBALLOC_MAGIC AND 0xFF
             then kprintf ''liballoc: ERROR: Possible 1-3 byte overrun for magic %x != %x\<newline>'' [magic, LIBALLOC_MAGIC]
                    (?s\<lparr>l_possibleOverruns := l_possibleOverruns ?s + 1\<rparr>)
             else ret ?s) = ret (?s\<lparr>l_possibleOverruns := n, console := t\<rparr>)" (is "?if = _")
  proof -
    obtain t where t: "kprintf ''liballoc: ERROR: Possible 1-3 byte overrun for magic %x != %x\<newline>'' [magic, LIBALLOC_MAGIC]
        (?s\<lparr>l_possibleOverruns := l_possibleOverruns ?s + 1\<rparr>) =
        ret (?s\<lparr>l_possibleOverruns := l_possibleOverruns ?s + 1, console := t\<rparr>)"
      using 1 [of magic LIBALLOC_MAGIC "?s\<lparr>l_possibleOverruns := l_possibleOverruns ?s + 1\<rparr>"] by auto
    have "?s = ?s\<lparr>l_possibleOverruns := l_possibleOverruns s, console := console s\<rparr>" by simp
    then show thesis using that t by (cases "?if = ret ?s") (metis, auto split: if_splits)
  qed
  obtain t' where "(if magic = LIBALLOC_DEAD
             then kprintf ''liballoc: ERROR: multiple PREFIX(free)() attempt on %x from %x.\<newline>'' [p, malloc_caller L]
                    (?s\<lparr>l_possibleOverruns := n, console := t\<rparr>)
             else kprintf ''liballoc: ERROR: Bad PREFIX(free)( %x ) called from %x\<newline>'' [p, malloc_caller L]
                    (?s\<lparr>l_possibleOverruns := n, console := t\<rparr>)) =
      ret (?s\<lparr>l_possibleOverruns := n, console := t'\<rparr>)"
  proof -
    let ?u = "?s\<lparr>l_possibleOverruns := n, console := t\<rparr>"
    obtain t2 t3 where
      "kprintf ''liballoc: ERROR: multiple PREFIX(free)() attempt on %x from %x.\<newline>'' [p, malloc_caller L] ?u = ret (?u\<lparr>console := t2\<rparr>)"
      "kprintf ''liballoc: ERROR: Bad PREFIX(free)( %x ) called from %x\<newline>'' [p, malloc_caller L] ?u = ret (?u\<lparr>console := t3\<rparr>)"
      using 2 [of p "malloc_caller L" ?u] 3 [of p "malloc_caller L" ?u] by blast
    then show thesis by (intro that [of "if magic = LIBALLOC_DEAD then t2 else t3"]) simp
  qed
  then show ?thesis
    unfolding bad_pointer_def Let_def first mbind_simps by (simp add: liballoc_unlock_def)
qed

lemma realloc_unknown:
  assumes "\<not> LibAllocLock s" "n \<noteq> 0" "p \<noteq> NULL"
  shows "min_magic (minors s (UNALIGN p (bmem s) - 24)) \<noteq> LIBALLOC_MAGIC \<longrightarrow>
    (\<exists>s'. realloc L p n s = ret (NULL, s') \<and> l_errorCount s' = l_errorCount s + 1 \<and> \<not> LibAllocLock s')"
proof
  let ?m = "min_magic (minors s (UNALIGN p (bmem s) - 24))"
  assume m: "?m \<noteq> LIBALLOC_MAGIC"
  obtain s' where "bad_pointer L (UNALIGN p (bmem s)) ?m (s\<lparr>LibAllocLock := True\<rparr>) = ret s'"
    "\<not> LibAllocLock s'" "l_errorCount s' = l_errorCount s + 1"
    using bad_pointer_ret [of L _ _ "s\<lparr>LibAllocLock := True\<rparr>"] by fastforce
  then show "\<exists>s'. realloc L p n s = ret (NULL, s') \<and> l_errorCount s' = l_errorCount s + 1 \<and> \<not> LibAllocLock s'"
    using assms m by (simp add: realloc_def Let_def sizeof_minor_def liballoc_lock_def)
qed

text \<open>
  C36. With 240 bytes of padding or more the distance does not fit the byte that stores it: the
  header is looked for inside the padding, 256 bytes or a multiple of that too high, and unless
  a magic number happens to lie there \<open>realloc\<close> reports a bad pointer and returns \<open>NULL\<close>.
\<close>

theorem realloc_loses_header:
  assumes ok: "heap_ok L s bs" "\<not> LibAllocLock s" "n \<noteq> 0"
    and b: "b \<in> set bs" "240 \<le> unat (pad b)" "data_of b \<noteq> NULL"
  shows "let h = b + 24 + of_nat ((unat (pad b) + 16) div 256 * 256) in
    UNALIGN (data_of b) (bmem s) - 24 = h \<and> h \<noteq> b + 24 \<and> in_block s b h \<and>
    (min_magic (minors s h) \<noteq> LIBALLOC_MAGIC \<longrightarrow>
      (\<exists>s'. realloc L (data_of b) n s = ret (NULL, s') \<and> l_errorCount s' = l_errorCount s + 1 \<and>
         \<not> LibAllocLock s'))"
proof -
  let ?k = "(unat (pad b) + 16) div 256 * 256"
  let ?h = "b + 24 + of_nat ?k"
  have u: "unat (pad b + 16) = unat (pad b) + 16" using pad_less [of b] by (simp add: unat_plus_if')
  have k: "256 \<le> ?k" "?k \<le> unat (pad b) + 16" using b(2) by simp_all
  have "(of_nat ?k :: u32) + of_nat (unat (pad b + 16) mod 256) = of_nat (unat (pad b + 16))"
    unfolding u of_nat_add [symmetric] div_mult_mod_eq ..
  then have "pad b + 16 - of_nat (unat (pad b + 16) mod 256) = of_nat ?k" by (simp add: algebra_simps)
  moreover have "data_of b - x - 24 = b + 24 + (pad b + 16 - x)" for x by (simp add: data_of_def)
  ultimately have h: "UNALIGN (data_of b) (bmem s) - 24 = ?h"
    using UNALIGN_data [of "bmem s", OF heap_okD(8) [OF ok(1) b(1)]] by (simp only:)
  have uk: "unat (of_nat ?k :: u32) = ?k" using k pad_less [of b] by (intro unat_of_nat32) simp
  then have ne: "?h \<noteq> b + 24" using k(1) by auto
  have blk: "block_ok (majors s b) (minors s (b + 24)) b" using heap_okD(6) [OF ok(1) b(1)] .
  have "unat (?h - b) = 24 + ?k" using uk k pad_less [of b] by (simp add: unat_plus_if')
  then have inb: "in_block s b ?h"
    using block_size [OF blk] k pad_less [of b] by (simp add: in_range_def)
  from realloc_unknown [OF ok(2,3) b(3), of L, unfolded h] h ne inb show ?thesis by (simp only: Let_def simp_thms)
qed

text \<open>
  \<open>calloc\<close> clears what it allocates: when the product of its arguments does not wrap, the
  block is zero, nobody owned it, and everything owned before is unchanged.
\<close>

lemma calloc_clears:
  assumes ok: "heap_ok L s bs" "image_ok L" "\<not> LibAllocLock s" "unat nobj * unat size' + 4160 < 4294967296"
    and r: "calloc L nobj size' s = ret (p, s')"
  shows "(\<forall>a. in_range a p (unat nobj * unat size') \<longrightarrow> bmem s' a = 0 \<and> \<not> owned L s a \<and> owned L s' a) \<and>
    (\<forall>a. owned L s a \<longrightarrow> bmem s' a = bmem s a)"
proof -
  let ?n = "nobj * size'"
  have n: "unat ?n = unat nobj * unat size'" using ok(4) by (simp add: unat_word_ariths)
  then have fits: "request_fits ?n" using ok(4) by (simp add: request_fits_def)
  from r obtain s1 where m: "malloc L ?n s = ret (p, s1)" and s': "s' = s1\<lparr>bmem := liballoc_memset (bmem s1) p 0 ?n\<rparr>"
    by (auto simp: calloc_def Let_def mbind_eq_ret)
  from malloc_ret [OF ok(1-3) fits m] obtain v where v: "p = data_of v" "unat ?n + 4160 \<le> unat (maj_size (majors s1 v))"
      "bmem s1 = (bmem s)(data_of v - 16 := ucast (pad v + 16))"
      "\<forall>a. owned L s1 a \<longleftrightarrow> owned L s a \<or> in_block s1 v a" "\<forall>a. in_block s1 v a \<longrightarrow> \<not> owned L s a" by blast
  have new: "in_block s1 v a" if "in_range a p (unat ?n)" for a
    using data_in_block [OF that [unfolded v(1)] v(2)] .
  have byte: "in_block s1 v (data_of v - 16)" using v(2) by (intro align_byte_in_range) simp
  have lt: "a - p < ?n \<longleftrightarrow> in_range a p (unat ?n)" for a by (simp add: in_range_def word_less_nat_alt)
  have "bmem s' a = (if in_range a p (unat ?n) then 0 else bmem s1 a)" for a
    unfolding s' by (simp add: liballoc_memset_apply lt)
  moreover have "owned L s' a \<longleftrightarrow> owned L s1 a" for a unfolding s' by simp
  ultimately show ?thesis using new byte v(3-5) unfolding n by auto
qed


lemma calloc_clears_witness:
  "\<exists>p s'. calloc sample_image 10 10 empty_heap = ret (p, s') \<and> (\<forall>a. in_range a p 100 \<longrightarrow> bmem s' a = 0)"
proof -
  obtain p s' where r: "calloc sample_image 10 10 empty_heap = ret (p, s')"
    using empty_heap_malloc_100 [OF sample_image_ok] by (auto simp: calloc_def)
  from calloc_clears [OF empty_heap_ok(1) sample_image_ok empty_heap_ok(2) _ r] r show ?thesis by auto
qed

theorem realloc_loses_header_witness:
  "\<exists>(s :: heap_state) s'. heap_ok sample_image s [0xE000A010] \<and> min_req_size (minors s 0xE000A028) = 100 \<and>
     realloc sample_image (data_of 0xE000A010) 50 s = ret (NULL, s')"
proof -
  from one_block [OF sample_image_ok] show ?thesis
  proof (elim exE conjE)
  fix s :: heap_state
  assume "heap_ok sample_image s [addr_VirtualAddress sample_image + 4096]" and l: "\<not> LibAllocLock s"
    and "min_req_size (minors s (addr_VirtualAddress sample_image + 4120)) = 100"
    and m: "\<forall>h. h \<noteq> addr_VirtualAddress sample_image + 4120 \<longrightarrow> min_magic (minors s h) = 0"
  then have h: "heap_ok sample_image s [0xE000A010]" and req: "min_req_size (minors s 0xE000A028) = 100" by simp_all
  have "min_magic (minors s 0xE000AF28) = 0" using m [THEN spec, of "0xE000AF28"] by simp
  then have magic: "min_magic (minors s 0xE000AF28) \<noteq> LIBALLOC_MAGIC" by (simp add: LIBALLOC_MAGIC_def)
  have p: "unat (pad 0xE000A010) = 4016" and d: "data_of 0xE000A010 \<noteq> NULL"
    by (simp_all add: pad_def data_of_def)
  have e: "0xE000A010 + 24 + of_nat ((4016 + 16) div 256 * 256) = (0xE000AF28 :: ptr)" by simp
  have b: "0xE000A010 \<in> set [0xE000A010 :: ptr]" "240 \<le> unat (pad 0xE000A010)" "(50 :: u32) \<noteq> 0"
    unfolding p by simp_all
  from realloc_loses_header [OF h l b(3) b(1,2) d, unfolded Let_def p e, THEN conjunct2, THEN conjunct2,
      THEN conjunct2, THEN mp, OF magic]
  obtain s' where "realloc sample_image (data_of 0xE000A010) 50 s = ret (NULL, s')" by (elim exE conjE)
  with h req show ?thesis by (intro exI conjI)
  qed
qed

end
