(* ===== verification/Heap_Clients.thy ===== *)
theory Heap_Clients
  imports Heap_Invariant
begin

text \<open>
  What the rest of the kernel relies on when it calls \<open>malloc\<close>: on a well-formed heap a call
  either stops for want of memory or returns a fresh object, and touches nothing but the
  allocators; and while there is room for another block it does return, an object away from \<open>NULL\<close>.
\<close>

text \<open>What no allocation changes: the console, the page directory and the state of the clients.\<close>

definition same_outside :: "'z heap_state_scheme \<Rightarrow> 'z heap_state_scheme \<Rightarrow> bool" where
  "same_outside s s' \<longleftrightarrow> heap_state.more s' = heap_state.more s \<and> console s' = console s \<and>
     cr3 s' = cr3 s \<and> CurrentPageDirectory s' = CurrentPageDirectory s \<and>
     CurrentPageDirectoryPhys s' = CurrentPageDirectoryPhys s"

lemma same_outside_refl [simp]: "same_outside s s"
  by (simp add: same_outside_def)

lemma same_outside_trans: "same_outside s s' \<Longrightarrow> same_outside s' s'' \<Longrightarrow> same_outside s s''"
  by (simp add: same_outside_def)

definition out_of_memory :: "halt set" where
  "out_of_memory = {Panic ''Could not allocate physical page!'', Panic ''Could not allocate kernel virtual pages''}"

lemma malloc_alloc:
  assumes "heap_ok L s bs" "image_ok L" "\<not> LibAllocLock s" "request_fits n"
  shows "\<exists>b0. case MmVmAllocate L (s\<lparr>LibAllocLock := True, l_bestBet := b0\<rparr>) (pages_for (n + 4112)) of
      Inl e \<Rightarrow> malloc L n s = Some (Inl e)
    | Inr (v, s1) \<Rightarrow> v \<notin> set bs \<and> (\<exists>b. malloc L n s = ret (data_of v, after_malloc (n + 4112) n bs v b s1))"
proof -
  note m = malloc_small [OF assms(3) assms(4) [unfolded request_fits_def]]
  let ?s = "s\<lparr>LibAllocLock := True\<rparr>"
  have h: "heap_ok L ?s bs" using assms(1) by simp
  have sz: "unat (n + 4112) + 48 < 4294967296" using m(2) assms(4) by (simp add: request_fits_def)
  from malloc_locked_cases [OF h assms(2) sz, of n] obtain b0 where
    c: "case MmVmAllocate L (?s\<lparr>l_bestBet := b0\<rparr>) (pages_for (n + 4112)) of
      Inl e \<Rightarrow> malloc_locked L (n + 4112) n ?s = Some (Inl e)
    | Inr (v, s') \<Rightarrow> v \<notin> set bs \<longrightarrow> (\<exists>b \<in> insert v (insert NULL (set bs)).
        malloc_locked L (n + 4112) n ?s = ret (data_of v, after_malloc (n + 4112) n bs v b s'))" by blast
  show ?thesis
  proof (rule exI [of _ b0], cases "MmVmAllocate L (?s\<lparr>l_bestBet := b0\<rparr>) (pages_for (n + 4112))")
    case (Inl e)
    with c m(1) show "case MmVmAllocate L (s\<lparr>LibAllocLock := True, l_bestBet := b0\<rparr>) (pages_for (n + 4112)) of
        Inl e \<Rightarrow> malloc L n s = Some (Inl e)
      | Inr (v, s1) \<Rightarrow> v \<notin> set bs \<and> (\<exists>b. malloc L n s = ret (data_of v, after_malloc (n + 4112) n bs v b s1))"
      by simp
  next
    case (Inr r)
    obtain v s1 where r: "r = (v, s1)" by (cases r)
    have "v \<notin> set bs" by (rule new_block_fresh [OF h Inr [unfolded r]])
    with c m(1) show "case MmVmAllocate L (s\<lparr>LibAllocLock := True, l_bestBet := b0\<rparr>) (pages_for (n + 4112)) of
        Inl e \<Rightarrow> malloc L n s = Some (Inl e)
      | Inr (v, s1) \<Rightarrow> v \<notin> set bs \<and> (\<exists>b. malloc L n s = ret (data_of v, after_malloc (n + 4112) n bs v b s1))"
      by (auto simp: Inr r)
  qed
qed

lemma after_malloc_outside: "same_outside s (after_malloc size' req bs v b s)"
  by (simp add: same_outside_def after_malloc_def filled_def attached_def link_def upd_major_def new_block_def)

lemma MmVmAllocate_outside:
  assumes "MmVmAllocate L s n = Inr (v, s')"
  shows "same_outside s s'"
  using MmVmAllocate_state [OF assms] by (auto simp: same_outside_def)

subsection \<open>The contract of \<open>malloc\<close>\<close>

lemma malloc_contract:
  assumes "heap_ready L s" "request_fits n"
  shows "(\<exists>e \<in> out_of_memory. malloc L n s = Some (Inl e)) \<or>
    (\<exists>p s'. malloc L n s = ret (p, s') \<and> heap_ready L s' \<and> same_outside s s' \<and>
      (\<forall>a. in_range a p (unat n) \<longrightarrow> \<not> owned L s a \<and> owned L s' a) \<and>
      (\<forall>a. owned L s a \<longrightarrow> owned L s' a \<and> bmem s' a = bmem s a))"
proof -
  obtain bs where h: "heap_ok L s bs" "image_ok L" "\<not> LibAllocLock s" using assms(1) by (auto simp: heap_ready_def)
  from malloc_returns_fresh [OF h(1,2) assms(2) [unfolded request_fits_def] h(3)] show ?thesis
  proof (elim disjE exE conjE)
    fix p v s'
    assume r: "malloc L n s = ret (p, s')" and rest: "heap_ok L s' (bs @ [v])" "\<not> LibAllocLock s'"
      "\<forall>a. in_range a p (unat n) \<longrightarrow> \<not> owned L s a \<and> owned L s' a"
      "\<forall>a. owned L s a \<longrightarrow> owned L s' a \<and> bmem s' a = bmem s a"
    have "same_outside s s'"
    proof -
      from malloc_alloc [OF h assms(2)] obtain b0 where c:
        "case MmVmAllocate L (s\<lparr>LibAllocLock := True, l_bestBet := b0\<rparr>) (pages_for (n + 4112)) of
          Inl e \<Rightarrow> malloc L n s = Some (Inl e)
        | Inr (v, s1) \<Rightarrow> v \<notin> set bs \<and> (\<exists>b. malloc L n s = ret (data_of v, after_malloc (n + 4112) n bs v b s1))" ..
      with r have "\<exists>u s1. MmVmAllocate L (s\<lparr>LibAllocLock := True, l_bestBet := b0\<rparr>) (pages_for (n + 4112)) = Inr (u, s1)"
        by (cases "MmVmAllocate L (s\<lparr>LibAllocLock := True, l_bestBet := b0\<rparr>) (pages_for (n + 4112))")
          (auto simp: ret_def)
      then obtain u s1 where
        al: "MmVmAllocate L (s\<lparr>LibAllocLock := True, l_bestBet := b0\<rparr>) (pages_for (n + 4112)) = Inr (u, s1)" by blast
      with c r obtain b where "s' = after_malloc (n + 4112) n bs u b s1" by auto
      moreover have "same_outside s (s\<lparr>LibAllocLock := True, l_bestBet := b0\<rparr>)" by (simp add: same_outside_def)
      ultimately show ?thesis
        using same_outside_trans [OF same_outside_trans [OF _ MmVmAllocate_outside [OF al]] after_malloc_outside] by blast
    qed
    with r rest h(2) show ?thesis by (auto simp: heap_ready_def)
  qed (auto simp: out_of_memory_def)
qed

subsection \<open>Room for more\<close>

text \<open>There is room for \<open>k\<close> blocks of the usual 16 pages: as many frames from the search
  mark on and all kernel pages from some page on are free, and no block reaches the end of the address space.\<close>

definition room :: "linker \<Rightarrow> 'z mm_state_scheme \<Rightarrow> nat \<Rightarrow> bool" where
  "room L s k \<longleftrightarrow> frames_left s (16 * k) \<and>
     (\<exists>t \<ge> 1. t + 16 * k \<le> KERNEL_PAGES \<and> unat (addr_VirtualAddress L) + (t + 16 * k) * 4096 + 8192 < 4294967296 \<and>
        (\<forall>j < KERNEL_PAGES. t \<le> j \<longrightarrow> \<not> kernel_present L s j))"

text \<open>Requests served by a block of 16 pages.\<close>

definition small :: "u32 \<Rightarrow> bool" where
  "small n \<longleftrightarrow> unat n \<le> 61376"

lemma small_fits: "small n \<Longrightarrow> request_fits n"
  by (simp add: small_def request_fits_def)

lemma small_pages:
  assumes "small n"
  shows "pages_for (n + 4112) = 16"
proof -
  let ?s = "n + 4112 + sizeof_major + sizeof_minor"
  have s: "unat ?s = unat n + 4160"
    using assms by (simp add: small_def liballoc_consts add.assoc unat_plus_if')
  have le: "unat (?s div l_pageSize) = (unat n + 4160) div 4096"
    by (simp only: unat_div s) (simp add: l_pageSize_def)
  have m: "(unat n + 4160) div 4096 \<le> 16" using assms by (simp add: small_def div_le_mono [of _ 65536 4096, simplified])
  show ?thesis
  proof (cases "?s mod l_pageSize = 0")
    case True
    have "?s div l_pageSize \<le> 16" using le m by (simp add: word_le_nat_alt)
    with True show ?thesis by (auto simp: pages_for_def Let_def l_pageCount_def)
  next
    case False
    then have "unat (?s mod l_pageSize) \<noteq> 0" by (simp add: unat_eq_0)
    then have "(unat n + 4160) mod 4096 \<noteq> 0" by (simp only: unat_mod s) (simp add: l_pageSize_def)
    then have "unat n + 4160 \<noteq> 65536" by auto
    then have "unat n + 4160 < 65536" using assms by (simp add: small_def)
    then have "(unat n + 4160) div 4096 < 16" by (simp add: less_mult_imp_div_less)
    with le have "unat (?s div l_pageSize + 1) \<le> 16" by (simp add: unat_plus_if')
    then have "?s div l_pageSize + 1 \<le> 16" by (simp add: word_le_nat_alt)
    with False show ?thesis by (auto simp: pages_for_def Let_def l_pageCount_def)
  qed
qed

lemma first_run_unique: "first_run L s n t \<Longrightarrow> first_run L s n u \<Longrightarrow> t = u"
  by (metis option.inject vm_search_first_run)

lemma first_run_exists:
  assumes "0 < n" "t + n \<le> KERNEL_PAGES" "free_run (kernel_present L s) n t"
  shows "\<exists>u \<le> t. first_run L s n u"
proof -
  let ?u = "LEAST u. free_run (kernel_present L s) n u"
  have u: "?u \<le> t" "free_run (kernel_present L s) n ?u" using assms(3) by (rule Least_le, rule LeastI)
  have "\<forall>u < ?u. \<not> free_run (kernel_present L s) n u" using not_less_Least by blast
  moreover have "?u + n \<le> KERNEL_PAGES" using u(1) assms(2) by linarith
  ultimately have "first_run L s n ?u" using u(2) assms(1) unfolding first_run_def by blast
  with u(1) show ?thesis by blast
qed

lemma data_of_not_null:
  assumes "unat v + 8192 < 4294967296"
  shows "data_of v \<noteq> NULL"
proof -
  have "unat (data_of v) = unat v + 64 + unat (pad v)"
    using assms pad_less [of v] unfolding data_of_def by (simp add: unat_plus_if')
  then show ?thesis by auto
qed

lemma unat_16: "unat (16 :: u32) = 16"
  by simp

lemma room_alloc:
  assumes "room L s (Suc k)"
  shows "\<exists>v s'. MmVmAllocate L s 16 = Inr (v, s') \<and> room L s' k \<and> data_of v \<noteq> NULL"
proof -
  obtain t where t: "1 \<le> t" "t + 16 * Suc k \<le> KERNEL_PAGES"
    "unat (addr_VirtualAddress L) + (t + 16 * Suc k) * 4096 + 8192 < 4294967296"
    and free: "\<forall>j < KERNEL_PAGES. t \<le> j \<longrightarrow> \<not> kernel_present L s j"
    and fr: "frames_left s (16 * Suc k)"
    using assms by (auto simp: room_def)
  have run: "free_run (kernel_present L s) 16 t" using free t unfolding free_run_def by auto
  have "(0 :: nat) < 16" "t + 16 \<le> KERNEL_PAGES" using t(2) by simp_all
  from first_run_exists [OF this run] obtain u where u: "u \<le> t" "first_run L s 16 u" by (elim exE conjE)
  have "frames_left s (16 + 16 * k)" using fr by (simp add: algebra_simps)
  from plenty_frames [OF this] obtain ps a where a: "alloc_frames MmPmAllocate 16 s = Inr (ps, a)" "frames_left a (16 * k)"
    by (elim exE conjE)
  obtain s' where s': "MmVmAllocate L s 16 = Inr (addr_VirtualAddress L + of_nat u * 4096, s')"
  proof -
    from MmVmAllocate_returns [of L s 16 u ps a, unfolded unat_16, OF u(2) a(1)] that show ?thesis by blast
  qed
  obtain u' ps' a' where u': "first_run L s 16 u'"
    and a': "alloc_frames MmPmAllocate 16 s = Inr (ps', a')" "s' = a'\<lparr>pmem := pmem s'\<rparr>"
    and k': "\<forall>j < KERNEL_PAGES. kpt L s' j =
       (if u' \<le> j \<and> j < u' + 16 then mapped_entry (ps' ! (j - u')) (kpt L s j) else kpt L s j)"
    by (rule MmVmAllocate_InrE [OF s', unfolded unat_16])
  have eq: "u' = u" "a' = a" using first_run_unique [OF u' u(2)] a(1) a'(1) by simp_all
  have top: "frames_left s' (16 * k)"
  proof -
    have b: "MmPmBitmap s' = MmPmBitmap a" "MmPmBitmapTop s' = MmPmBitmapTop a"
      by (subst a'(2), simp add: eq)+
    with a(2) show ?thesis by (simp add: frames_left_def page_status_def)
  qed
  have "\<forall>j < KERNEL_PAGES. t + 16 \<le> j \<longrightarrow> \<not> kernel_present L s' j"
    using k' free u(1) unfolding eq by simp
  moreover have "1 \<le> t + 16" "t + 16 + 16 * k \<le> KERNEL_PAGES"
    "unat (addr_VirtualAddress L) + (t + 16 + 16 * k) * 4096 + 8192 < 4294967296"
    using t by simp_all
  ultimately have "room L s' k" using top unfolding room_def by blast
  moreover have "data_of (addr_VirtualAddress L + of_nat u * 4096) \<noteq> NULL"
  proof -
    let ?v = "addr_VirtualAddress L + of_nat u * 4096"
    have le: "unat (addr_VirtualAddress L) + u * 4096 + 8192 < 4294967296"
    proof -
      have "u * 4096 \<le> (t + 16 * Suc k) * 4096" using u(1) by simp
      with t(3) show ?thesis by linarith
    qed
    have o: "unat (of_nat (u * 4096) :: u32) = u * 4096" using le by (intro unat_of_nat32) linarith
    have v: "unat ?v = unat (addr_VirtualAddress L) + u * 4096"
    proof -
      have "unat (addr_VirtualAddress L + of_nat (u * 4096)) = unat (addr_VirtualAddress L) + u * 4096"
        using le o by (simp only: unat_plus_if' o) simp
      then show ?thesis by simp
    qed
    show ?thesis by (rule data_of_not_null) (use le in \<open>simp only: v\<close>)
  qed
  ultimately show ?thesis using s' by blast
qed

lemma room_outside:
  "room L (s\<lparr>LibAllocLock := x, l_bestBet := b\<rparr>) k = room L s k" "room L (s\<lparr>bmem := m\<rparr>) k = room L s k"
  "room L (s\<lparr>console := t\<rparr>) k = room L s k" "room L (heap_state.more_update f s) k = room L s k"
  "room L (after_malloc size' req bs v c s) k = room L s k"
  by (simp_all add: room_def frames_left_def page_status_def kpt_def after_malloc_def filled_def attached_def
      link_def upd_major_def new_block_def)

lemma malloc_with_room:
  assumes "heap_ready L s" "small n" "room L s (Suc k)"
  shows "\<exists>p s'. malloc L n s = ret (p, s') \<and> p \<noteq> NULL \<and> room L s' k \<and> heap_ready L s' \<and> same_outside s s' \<and>
      (\<forall>a. in_range a p (unat n) \<longrightarrow> \<not> owned L s a \<and> owned L s' a) \<and>
      (\<forall>a. owned L s a \<longrightarrow> owned L s' a \<and> bmem s' a = bmem s a)"
proof -
  obtain bs where h: "heap_ok L s bs" "image_ok L" "\<not> LibAllocLock s" using assms(1) by (auto simp: heap_ready_def)
  from malloc_alloc [OF h small_fits [OF assms(2)]] obtain b0 where
    c: "case MmVmAllocate L (s\<lparr>LibAllocLock := True, l_bestBet := b0\<rparr>) 16 of
      Inl e \<Rightarrow> malloc L n s = Some (Inl e)
    | Inr (v, s1) \<Rightarrow> v \<notin> set bs \<and> (\<exists>b. malloc L n s = ret (data_of v, after_malloc (n + 4112) n bs v b s1))"
    unfolding small_pages [OF assms(2)] ..
  have "room L (s\<lparr>LibAllocLock := True, l_bestBet := b0\<rparr>) (Suc k)" using assms(3) by (simp only: room_outside)
  from room_alloc [OF this] obtain v s1 where
    "MmVmAllocate L (s\<lparr>LibAllocLock := True, l_bestBet := b0\<rparr>) 16 = Inr (v, s1)" "room L s1 k" "data_of v \<noteq> NULL"
    by (elim exE conjE)
  with c obtain b where r: "malloc L n s = ret (data_of v, after_malloc (n + 4112) n bs v b s1)" by auto
  have "room L (after_malloc (n + 4112) n bs v b s1) k" using \<open>room L s1 k\<close> by (simp only: room_outside)
  with malloc_contract [OF assms(1) small_fits [OF assms(2)]] r \<open>data_of v \<noteq> NULL\<close> show ?thesis
    by (auto simp: ret_def)
qed

subsection \<open>Writing into an object\<close>

lemma mseg_unique:
  "mseg h pv bs \<Longrightarrow> mseg h pv cs \<Longrightarrow> head_or NULL bs = head_or NULL cs \<Longrightarrow> NULL \<notin> set bs \<Longrightarrow> NULL \<notin> set cs \<Longrightarrow> bs = cs"
proof (induction bs arbitrary: pv cs)
  case Nil
  then show ?case by (cases cs) auto
next
  case (Cons b bs)
  then obtain cs' where cs: "cs = b # cs'" by (cases cs) auto
  with Cons.prems show ?case using Cons.IH [of b cs'] by auto
qed

lemma heap_ok_unique: "heap_ok L s bs \<Longrightarrow> heap_ok L s cs \<Longrightarrow> bs = cs"
  using mseg_unique [of "majors s" NULL bs cs] by (auto simp: heap_ok_def)

text \<open>The bytes in which the allocator keeps the alignment distances.\<close>

definition bookkeeping :: "linker \<Rightarrow> 'z heap_state_scheme \<Rightarrow> ptr \<Rightarrow> bool" where
  "bookkeeping L s a \<longleftrightarrow> (\<exists>bs. heap_ok L s bs \<and> a \<in> (\<lambda>b. data_of b - 16) ` set bs)"

lemma bookkeeping_eq: "heap_ok L s bs \<Longrightarrow> bookkeeping L s a \<longleftrightarrow> a \<in> (\<lambda>b. data_of b - 16) ` set bs"
  using heap_ok_unique unfolding bookkeeping_def by blast

text \<open>An object of a client: \<open>n\<close> owned bytes at \<open>p\<close> that are not the allocator's.\<close>

definition object :: "linker \<Rightarrow> 'z heap_state_scheme \<Rightarrow> ptr \<Rightarrow> nat \<Rightarrow> bool" where
  "object L s p n \<longleftrightarrow> (\<forall>a. in_range a p n \<longrightarrow> owned L s a \<and> \<not> bookkeeping L s a)"

lemma heap_ready_write:
  assumes "heap_ready L s" "\<forall>a. f a \<noteq> bmem s a \<longrightarrow> \<not> bookkeeping L s a"
  shows "heap_ready L (s\<lparr>bmem := f\<rparr>)"
proof -
  obtain bs where h: "heap_ok L s bs" "image_ok L" "\<not> LibAllocLock s" using assms(1) by (auto simp: heap_ready_def)
  then have "\<forall>b \<in> set bs. f (data_of b - 16) = bmem s (data_of b - 16)"
    using assms(2) by (auto simp: bookkeeping_def)
  with h(1) have "heap_ok L (s\<lparr>bmem := f\<rparr>) bs" by (auto simp: heap_ok_def)
  with h show ?thesis by (auto simp: heap_ready_def)
qed

lemma malloc_objects:
  assumes "heap_ready L s" "request_fits n" "malloc L n s = ret (p, s')"
  shows "object L s' p (unat n)" "object L s q k \<Longrightarrow> object L s' q k"
    "object L s q k \<Longrightarrow> in_range a q k \<Longrightarrow> \<not> in_range a p (unat n)"
proof -
  obtain bs where h: "heap_ok L s bs" "image_ok L" "\<not> LibAllocLock s" using assms(1) by (auto simp: heap_ready_def)
  from malloc_ret [OF h assms(2,3)] obtain v where v: "p = data_of v" "heap_ok L s' (bs @ [v])"
    "unat n + 4160 \<le> unat (maj_size (majors s' v))"
    "\<forall>a. owned L s' a \<longleftrightarrow> owned L s a \<or> in_block s' v a" "\<forall>a. in_block s' v a \<longrightarrow> \<not> owned L s a" by blast
  have book: "bookkeeping L s' a \<longleftrightarrow> bookkeeping L s a \<or> a = data_of v - 16" for a
    unfolding bookkeeping_eq [OF h(1)] bookkeeping_eq [OF v(2)] set_append image_Un by auto
  have inb: "in_range a p (unat n) \<Longrightarrow> in_block s' v a" for a
    unfolding v(1) by (rule data_in_block [OF _ v(3)])
  have old: "bookkeeping L s a \<Longrightarrow> owned L s a" for a
  proof -
    assume "bookkeeping L s a"
    then obtain b where b: "b \<in> set bs" "a = data_of b - 16"
      unfolding bookkeeping_eq [OF h(1)] by blast
    then have "block_ok (majors s b) (minors s (b + 24)) b" by (intro heap_okD(6) [OF h(1)])
    then have "in_block s b (data_of b - 16)"
      unfolding block_ok_def by (intro align_byte_in_range) linarith
    then show ?thesis using heap_okD(7) [OF h(1) b(1)] b(2) by simp
  qed
  have new: "in_block s' v (data_of v - 16)" by (rule align_byte_in_range) (use v(3) in simp)
  show "object L s' p (unat n)"
    unfolding object_def
  proof (intro allI impI conjI)
    fix a assume a: "in_range a p (unat n)"
    then show "owned L s' a" using inb v(4) by blast
    have "a \<noteq> data_of v - 16"
    proof
      assume "a = data_of v - 16"
      then have "a - p = 0 - 16" by (simp add: v(1))
      then have "unat (a - p) = 4294967280" by (simp only:) simp
      with a assms(2) show False by (simp add: in_range_def request_fits_def)
    qed
    then show "\<not> bookkeeping L s' a" using book old inb [OF a] v(5) by blast
  qed
  show "object L s q k \<Longrightarrow> object L s' q k"
    unfolding object_def book using v(4,5) new by blast
  show "object L s q k \<Longrightarrow> in_range a q k \<Longrightarrow> \<not> in_range a p (unat n)"
    unfolding object_def using inb v(5) by blast
qed

subsection \<open>Memory the allocator leaves alone\<close>

text \<open>A byte is settled when \<open>MmVmAllocate\<close> will not hand it out: its page is taken, or lies outside
  the pages it looks at, like the image below the variable \<open>VirtualAddress\<close>.\<close>

definition settled :: "linker \<Rightarrow> 'z mm_state_scheme \<Rightarrow> ptr \<Rightarrow> bool" where
  "settled L s a \<longleftrightarrow> owned L s a \<or> KERNEL_PAGES \<le> unat (a - addr_VirtualAddress L) div 4096"

definition keeps :: "linker \<Rightarrow> 'z heap_state_scheme \<Rightarrow> 'z heap_state_scheme \<Rightarrow> bool" where
  "keeps L s s' \<longleftrightarrow> (\<forall>a. settled L s a \<longrightarrow> settled L s' a \<and> bmem s' a = bmem s a)"

lemma keeps_refl [simp]: "keeps L s s"
  by (simp add: keeps_def)

lemma keeps_trans: "keeps L s s' \<Longrightarrow> keeps L s' s'' \<Longrightarrow> keeps L s s''"
  by (simp add: keeps_def)

lemma malloc_keeps:
  assumes "heap_ready L s" "request_fits n" "malloc L n s = ret (p, s')"
  shows "keeps L s s'" "in_range a p (unat n) \<Longrightarrow> \<not> settled L s a" "in_range a p (unat n) \<Longrightarrow> settled L s' a"
proof -
  obtain bs where h: "heap_ok L s bs" "image_ok L" "\<not> LibAllocLock s" using assms(1) by (auto simp: heap_ready_def)
  from malloc_ret [OF h assms(2,3)] obtain v where v: "p = data_of v"
    "unat n + 4160 \<le> unat (maj_size (majors s' v))"
    "bmem s' = (bmem s)(data_of v - 16 := ucast (pad v + 16))"
    "\<forall>a. owned L s' a \<longleftrightarrow> owned L s a \<or> in_block s' v a" "\<forall>a. in_block s' v a \<longrightarrow> \<not> owned L s a" by blast
  have low: "owned L s' a \<Longrightarrow> unat (a - addr_VirtualAddress L) div 4096 < KERNEL_PAGES" for a
    by (simp add: owned_def Let_def)
  have new: "in_block s' v a \<Longrightarrow> \<not> settled L s a" for a
    using v(4,5) low [of a] by (auto simp: settled_def)
  have "in_block s' v (data_of v - 16)" by (rule align_byte_in_range) (use v(2) in simp)
  with new v(3,4) show "keeps L s s'" by (auto simp: keeps_def settled_def)
  have inb: "in_range a p (unat n) \<Longrightarrow> in_block s' v a" for a
    unfolding v(1) by (rule data_in_block [OF _ v(2)])
  show "in_range a p (unat n) \<Longrightarrow> \<not> settled L s a" using inb new by blast
  show "in_range a p (unat n) \<Longrightarrow> settled L s' a" using inb v(4) by (auto simp: settled_def)
qed

text \<open>A terminated string that stays where it is.\<close>

definition text_at :: "linker \<Rightarrow> 'z heap_state_scheme \<Rightarrow> ptr \<Rightarrow> u8 list \<Rightarrow> bool" where
  "text_at L s p str \<longleftrightarrow> p \<noteq> NULL \<and> cstr (bmem s) p str \<and> (\<forall>i \<le> length str. settled L s (p + of_nat i))"

lemma cstr_cong: "(\<And>i. i \<le> length str \<Longrightarrow> m' (p + of_nat i) = m (p + of_nat i)) \<Longrightarrow> cstr m' p str = cstr m p str"
proof (induction str arbitrary: p)
  case Nil
  from Nil [of 0] show ?case by simp
next
  case (Cons c str)
  have "m' p = m p" using Cons.prems [of 0] by simp
  moreover have "cstr m' (p + 1) str = cstr m (p + 1) str"
  proof (rule Cons.IH)
    fix i assume "i \<le> length str"
    then show "m' (p + 1 + of_nat i) = m (p + 1 + of_nat i)" using Cons.prems [of "Suc i"] by (simp add: add.assoc)
  qed
  ultimately show ?case by simp
qed

lemma text_at_keeps: "keeps L s s' \<Longrightarrow> text_at L s p str \<Longrightarrow> text_at L s' p str"
  unfolding text_at_def keeps_def using cstr_cong [of str "bmem s'" p "bmem s"] by blast

subsection \<open>Steps that do not touch memory\<close>

text \<open>Printing, and changing what a client keeps for itself, leaves all of this as it is.\<close>

definition same_mem :: "'z heap_state_scheme \<Rightarrow> 'z heap_state_scheme \<Rightarrow> bool" where
  "same_mem s s' \<longleftrightarrow> MmPmBitmap s' = MmPmBitmap s \<and> MmPmBitmapTop s' = MmPmBitmapTop s \<and> pmem s' = pmem s \<and>
     bmem s' = bmem s \<and> LibAllocLock s' = LibAllocLock s \<and> majors s' = majors s \<and> minors s' = minors s \<and>
     l_memRoot s' = l_memRoot s \<and> l_bestBet s' = l_bestBet s"

lemma same_mem_owned: "same_mem s s' \<Longrightarrow> owned L s' = owned L s"
  by (simp add: same_mem_def owned_def [abs_def] kpt_def)

lemma same_mem_frame:
  assumes "same_mem s s'"
  shows "heap_ready L s' = heap_ready L s" "room L s' k = room L s k" "owned L s' = owned L s"
    "settled L s' = settled L s" "text_at L s' p str = text_at L s p str" "keeps L s s'"
    "bookkeeping L s' = bookkeeping L s" "object L s' p n = object L s p n"
proof -
  note o = same_mem_owned [OF assms]
  have h: "heap_ok L s' bs = heap_ok L s bs" for bs
    using assms o by (simp add: same_mem_def heap_ok_def)
  have l: "LibAllocLock s' = LibAllocLock s" "bmem s' = bmem s" using assms by (simp_all add: same_mem_def)
  show "heap_ready L s' = heap_ready L s" by (simp only: heap_ready_def h l)
  show "room L s' k = room L s k"
    using assms by (simp add: room_def frames_left_def page_status_def kpt_def same_mem_def)
  show "owned L s' = owned L s" by (rule o)
  show s: "settled L s' = settled L s" by (simp add: settled_def [abs_def] o)
  show "text_at L s' p str = text_at L s p str" by (simp add: text_at_def s l)
  show "keeps L s s'" by (simp add: keeps_def s l)
  show b: "bookkeeping L s' = bookkeeping L s" by (simp add: bookkeeping_def [abs_def] h)
  show "object L s' p n = object L s p n" by (simp only: object_def o b)
qed

subsection \<open>One call, in full\<close>

text \<open>All a client learns from a call of \<open>malloc\<close> that leaves room for \<open>k\<close> more.\<close>

definition got :: "linker \<Rightarrow> u32 \<Rightarrow> nat \<Rightarrow> 'z heap_state_scheme \<Rightarrow> ptr \<Rightarrow> 'z heap_state_scheme \<Rightarrow> bool" where
  "got L n k s p s' \<longleftrightarrow> malloc L n s = ret (p, s') \<and> p \<noteq> NULL \<and> room L s' k \<and> heap_ready L s' \<and>
     same_outside s s' \<and> keeps L s s' \<and> (\<forall>a. in_range a p (unat n) \<longrightarrow> \<not> settled L s a \<and> owned L s' a) \<and>
     object L s' p (unat n) \<and> (\<forall>q m. object L s q m \<longrightarrow> object L s' q m) \<and> (\<forall>a. owned L s a \<longrightarrow> owned L s' a)"

lemma malloc_got:
  assumes "heap_ready L s" "small n" "room L s (Suc k)"
  shows "\<exists>p s'. got L n k s p s'"
proof -
  obtain p s' where m: "malloc L n s = ret (p, s')" "p \<noteq> NULL" "room L s' k" "heap_ready L s'"
    "same_outside s s'" "\<forall>a. in_range a p (unat n) \<longrightarrow> \<not> owned L s a \<and> owned L s' a"
    "\<forall>a. owned L s a \<longrightarrow> owned L s' a \<and> bmem s' a = bmem s a"
    using malloc_with_room [OF assms] by (elim exE conjE)
  note f = small_fits [OF assms(2)]
  note o = malloc_objects(1,2) [OF assms(1) f m(1)] and k = malloc_keeps(1,2) [OF assms(1) f m(1)]
  show ?thesis unfolding got_def using m o k by blast
qed

lemma gotD:
  assumes "got L n k s p s'"
  shows "malloc L n s = ret (p, s')" "p \<noteq> NULL" "room L s' k" "heap_ready L s'" "same_outside s s'" "keeps L s s'"
    "in_range a p (unat n) \<Longrightarrow> \<not> settled L s a" "in_range a p (unat n) \<Longrightarrow> owned L s' a" "object L s' p (unat n)"
    "object L s q m \<Longrightarrow> object L s' q m" "owned L s a \<Longrightarrow> owned L s' a"
  using assms by (simp_all add: got_def)

lemma got_fresh: "got L n k s p s' \<Longrightarrow> n \<noteq> 0 \<Longrightarrow> \<not> owned L s p \<and> owned L s' p"
  using gotD(7,8) [of L n k s p s' p] by (auto simp: in_range_def settled_def unat_gt_0)

subsection \<open>A fresh machine\<close>

text \<open>Memory as in \<open>empty_heap\<close>, whatever the rest of the state: plenty of room.\<close>

definition fresh :: "'z heap_state_scheme \<Rightarrow> bool" where
  "fresh s \<longleftrightarrow> MmPmBitmap s = (\<lambda>_. 0) \<and> MmPmBitmapTop s = 300 \<and> pmem s = (\<lambda>_. 0) \<and>
     \<not> LibAllocLock s \<and> l_memRoot s = NULL \<and> l_bestBet s = NULL"

lemma fresh_ready: "fresh s \<Longrightarrow> heap_ready sample_image s"
  using sample_image_ok by (auto simp: fresh_def heap_ready_def heap_ok_def intro!: exI [of _ "[]"])

lemma fresh_room:
  assumes "fresh s" "k \<le> 50"
  shows "room sample_image s k"
proof -
  have "frames_left s (16 * k)"
    by (rule frames_leftI [where f = "\<lambda>j. 300 + j"])
      (use assms in \<open>auto simp: fresh_def page_status_def pm_field_def pm_values\<close>)
  then show ?thesis using assms
    by (auto simp: fresh_def room_def KERNEL_PAGES_def kpt_def Present_def intro!: exI [of _ 1])
qed

end
