(* ===== verification/Paging.thy ===== *)
theory Paging
  imports Heap_Invariant
begin

unbundle bit_operations_syntax

text \<open>
  The writing half of \<open>kernel/src/MM/Paging.c\<close>: switching and allocating page directories,
  mapping and unmapping single pages, and \<open>MmMmap\<close>. Entries are read and written through the
  processor's page walk (\<open>load\<close> and \<open>store\<close>), like any other memory the code reaches by a
  computed pointer.
\<close>

text \<open>\<open>p->Field = v\<close> on a bit field: the word is read, changed and written back.\<close>

definition upd :: "'z mm_state_scheme \<Rightarrow> ptr \<Rightarrow> (u32 \<Rightarrow> u32) \<Rightarrow> 'z mm_state_scheme res" where
  "upd s p f = rbind (load s p) (\<lambda>w. store s p (f w))"

subsection \<open>Page directories\<close>

definition SwitchPageDirectory :: "linker \<Rightarrow> ptr \<Rightarrow> 'z mm_state_scheme \<Rightarrow> 'z mm_state_scheme res" where
  "SwitchPageDirectory L pd s =
     rbind (MmVirtToPhys L s (CurrentPageDirectory s) pd) (\<lambda>phys.
       Inr (s\<lparr>CurrentPageDirectoryPhys := phys, CurrentPageDirectory := pd, cr3 := phys\<rparr>))"

text \<open>One entry of a new directory: cleared, then filled.\<close>

definition init_entry :: "ptr \<Rightarrow> u32 \<Rightarrow> 'z mm_state_scheme \<Rightarrow> 'z mm_state_scheme res" where
  "init_entry current raw s =
     rbind (store s current 0) (\<lambda>s.
     rbind (store s current raw) (\<lambda>s.
     rbind (upd s current (set_Present True)) (\<lambda>s.
     rbind (upd s current (set_Writable True)) (\<lambda>s.
     upd s current (set_User False)))))"

text \<open>The loop over the 128 tables of kernel space, with \<open>n\<close> entries to go.\<close>

fun map_kernel_space :: "linker \<Rightarrow> ptr \<Rightarrow> nat \<Rightarrow> nat \<Rightarrow> 'z mm_state_scheme \<Rightarrow> 'z mm_state_scheme res" where
  "map_kernel_space L result i 0 s = Inr s"
| "map_kernel_space L result i (Suc n) s =
     rbind (init_entry (result + 4 * of_nat (896 + i)) (kpt_addr L (i * 1024)) s) (\<lambda>s.
       map_kernel_space L result (Suc i) n s)"

text \<open>What is done to the new directory: kernel space, then the identity mapping of low memory.\<close>

definition fill_directory :: "linker \<Rightarrow> ptr \<Rightarrow> 'z mm_state_scheme \<Rightarrow> 'z mm_state_scheme res" where
  "fill_directory L result s =
     rbind (map_kernel_space L result 0 128 s) (\<lambda>s.
       init_entry result (K_VIRT_TO_PHYS (addr_ZeroIdentityPage L)) s)"

definition MmAllocPageDirectory :: "linker \<Rightarrow> 'z heap_state_scheme \<Rightarrow> (ptr \<times> 'z heap_state_scheme) run" where
  "MmAllocPageDirectory L s =
     mbind (malloc L 4096 s) (\<lambda>(result, s).
       if result = NULL then ret (NULL, s)
       else mbind (Some (fill_directory L result s)) (\<lambda>s. ret (result, s)))"

subsection \<open>Single pages\<close>

text \<open>A new page table for \<open>virt\<close>; its entries are not initialised.\<close>

definition add_table :: "linker \<Rightarrow> ptr \<Rightarrow> u32 \<Rightarrow> bool \<Rightarrow> bool \<Rightarrow> 'z heap_state_scheme \<Rightarrow> (ptr \<times> 'z heap_state_scheme) run" where
  "add_table L pde virt user writable s =
     (let entry = pde + 4 * drop_bit 22 virt in
      mbind (malloc L 4096 s) (\<lambda>(table, s).
      mbind (Some (MmVirtToPhys L s (CurrentPageDirectory s) table)) (\<lambda>phys.
      mbind (Some (store s entry (phys AND NOT 0xFFF))) (\<lambda>s.
      mbind (Some (upd s entry (set_User user))) (\<lambda>s.
      mbind (Some (upd s entry (set_Writable writable))) (\<lambda>s.
      mbind (Some (upd s entry (set_Present True))) (\<lambda>s.
      mbind (Some (MmGetTableEntry L s pde virt)) (\<lambda>pte.
      ret (pte, s)))))))))"

definition set_entry :: "ptr \<Rightarrow> u32 \<Rightarrow> bool \<Rightarrow> bool \<Rightarrow> bool \<Rightarrow> 'z mm_state_scheme \<Rightarrow> 'z mm_state_scheme res" where
  "set_entry pte frame present user writable s =
     rbind (upd s pte (set_PhysAddress frame)) (\<lambda>s.
     rbind (upd s pte (set_Present present)) (\<lambda>s.
     rbind (upd s pte (set_User user)) (\<lambda>s.
     upd s pte (set_Writable writable))))"

definition MmMap :: "linker \<Rightarrow> u32 \<Rightarrow> u32 \<Rightarrow> bool \<Rightarrow> bool \<Rightarrow> 'z heap_state_scheme \<Rightarrow> (bool \<times> 'z heap_state_scheme) run" where
  "MmMap L phys virt user writable s =
     (let pde = CurrentPageDirectory s in
      mbind (Some (MmGetTableEntry L s pde virt)) (\<lambda>pte.
      mbind (if pte = NULL then add_table L pde virt user writable s else ret (pte, s)) (\<lambda>(pte, s).
      mbind (Some (set_entry pte (drop_bit 12 phys) True user writable s)) (\<lambda>s.
      ret (True, s)))))"

definition MmUnmap :: "linker \<Rightarrow> u32 \<Rightarrow> 'z mm_state_scheme \<Rightarrow> (bool \<times> 'z mm_state_scheme) res" where
  "MmUnmap L virt s =
     rbind (MmGetTableEntry L s (CurrentPageDirectory s) virt) (\<lambda>pte.
       if pte = NULL then Inr (False, s)
       else rbind (set_entry pte 0 False False False s) (\<lambda>s. Inr (True, s)))"

subsection \<open>MmMmap\<close>

definition startingPage :: u32 where "startingPage = 1024"
definition endingPage :: u32 where "endingPage = 917503"

text \<open>The search for a block: \<open>ptrPage\<close>, \<open>foundStartingPoint\<close>, \<open>foundPageBase\<close> and \<open>pagesFound\<close> when
  the loop is left.\<close>

function mmap_search :: "linker \<Rightarrow> 'z mm_state_scheme \<Rightarrow> u32 \<Rightarrow> u32 \<Rightarrow> bool \<Rightarrow> u32 \<Rightarrow> u32
    \<Rightarrow> (u32 \<times> bool \<times> u32) res" where
  "mmap_search L s pages ptrPage started base found =
     (if ptrPage \<le> endingPage then
        rbind (MmIsPresent L s (push_bit 12 ptrPage)) (\<lambda>present.
          let (started', base', found') =
            (if present then (False, 0, 0)
             else (True, if started then base else ptrPage, found + 1))
          in if started' \<and> found' = pages then Inr (ptrPage, started', base')
             else mmap_search L s pages (ptrPage + 1) started' base' found')
      else Inr (ptrPage, started, base))"
  by pat_completeness auto
termination
proof (relation "measure (\<lambda>(L, s, pages, ptrPage, st, b, f). unat endingPage + 1 - unat ptrPage)", goal_cases)
  case (2 L s pages ptrPage)
  then have "unat ptrPage \<le> 917503" by (simp add: endingPage_def word_le_nat_alt)
  then have "unat (ptrPage + 1) = unat ptrPage + 1" by (simp add: unat_plus_if')
  then show ?case using \<open>unat ptrPage \<le> 917503\<close> by (simp add: endingPage_def)
qed simp

declare mmap_search.simps [simp del]

text \<open>The check of a given block. Its loop condition compares \<open>ptrPage\<close>, which never changes,
  instead of \<open>i\<close>; the result is \<open>blockBigEnough\<close>.\<close>

partial_function (option) mmap_check :: "linker \<Rightarrow> 'z mm_state_scheme \<Rightarrow> u32 \<Rightarrow> u32 \<Rightarrow> u32 \<Rightarrow> bool run" where
  "mmap_check L s ptrPage pages i =
     (if ptrPage < ptrPage + pages then
        (case MmIsPresent L s (push_bit 12 i) of
           Inl e \<Rightarrow> Some (Inl e)
         | Inr present \<Rightarrow> if present then ret False else mmap_check L s ptrPage pages (i + 1))
      else ret True)"

text \<open>The mapping loop, with the same condition; every iteration maps the same address.\<close>

partial_function (option) mmap_fill :: "linker \<Rightarrow> u32 \<Rightarrow> u32 \<Rightarrow> ptr \<Rightarrow> bool \<Rightarrow> bool \<Rightarrow> u32
    \<Rightarrow> 'z heap_state_scheme \<Rightarrow> 'z heap_state_scheme run" where
  "mmap_fill L ptrPage pages p user writable i s =
     (if ptrPage < ptrPage + pages then
        (case mbind (Some (MmPmAllocate s)) (\<lambda>(phys, s). MmMap L phys p user writable s) of
           None \<Rightarrow> None
         | Some (Inl e) \<Rightarrow> Some (Inl e)
         | Some (Inr (b, s)) \<Rightarrow> mmap_fill L ptrPage pages p user writable (i + 1) s)
      else ret s)"

definition MmMmap :: "linker \<Rightarrow> ptr \<Rightarrow> u32 \<Rightarrow> bool \<Rightarrow> bool \<Rightarrow> 'z heap_state_scheme \<Rightarrow> (ptr \<times> 'z heap_state_scheme) run" where
  "MmMmap L p pages user writable s =
     mbind (KAssert (pages > 0) ''pages > 0'') (\<lambda>_.
     if p = NULL then
       mbind (Some (mmap_search L s pages startingPage False 0 0)) (\<lambda>(ptrPage, started, base).
         if \<not> started then ret (NULL, s)
         else mbind (mmap_fill L ptrPage pages (push_bit 12 base) user writable ptrPage s) (\<lambda>s.
           ret (push_bit 12 base, s)))
     else
       (let ptrPage = drop_bit 12 p in
        mbind (KAssert (p AND 0xFFF = 0) ''((uintptr_t) ptr & 0xFFF) == 0'') (\<lambda>_.
        mbind (KAssert (startingPage \<le> ptrPage \<and> ptrPage \<le> endingPage)
          ''ptrPage >= startingPage && ptrPage <= endingPage'') (\<lambda>_.
        mbind (KAssert (ptrPage + pages \<le> endingPage) ''(ptrPage + pages) <= endingPage'') (\<lambda>_.
        mbind (mmap_check L s ptrPage pages ptrPage) (\<lambda>big.
          if \<not> big then ret (NULL, s)
          else mbind (mmap_fill L ptrPage pages p user writable ptrPage s) (\<lambda>s. ret (p, s))))))))"

subsection \<open>Writing an entry that is seen at its physical address\<close>

definition pde_addr :: "'z mm_state_scheme \<Rightarrow> u32 \<Rightarrow> u32" where
  "pde_addr s virt = frame_of (cr3 s) + 4 * drop_bit 22 virt"

definition pte_addr :: "'z mm_state_scheme \<Rightarrow> u32 \<Rightarrow> u32" where
  "pte_addr s virt = table_frame s virt + 4 * (drop_bit 12 virt AND 1023)"

text \<open>The translation of \<open>virt\<close> does not read the word at the physical address \<open>a\<close>.\<close>

definition avoids :: "'z mm_state_scheme \<Rightarrow> u32 \<Rightarrow> u32 \<Rightarrow> bool" where
  "avoids s a virt \<longleftrightarrow> pde_addr s virt \<noteq> a \<and> pte_addr s virt \<noteq> a"

lemma walk_cong:
  assumes "m (pde_addr s v) = pmem s (pde_addr s v)" "m (pte_addr s v) = pmem s (pte_addr s v)"
  shows "mmu_walk m (cr3 s) v = mmu_walk (pmem s) (cr3 s) v"
  using assms by (simp add: mmu_walk_def pde_addr_def pte_addr_def table_frame_def Let_def)

lemma walk_avoids: "avoids s a v \<Longrightarrow> mmu_walk ((pmem s)(a := w)) (cr3 s) v = mmu_walk (pmem s) (cr3 s) v"
  by (rule walk_cong) (auto simp: avoids_def)

lemma upd_at:
  assumes "mmu_walk (pmem s) (cr3 s) p = Some a"
  shows "upd s p f = Inr (s\<lparr>pmem := (pmem s)(a := f (pmem s a))\<rparr>)"
    "store s p w = Inr (s\<lparr>pmem := (pmem s)(a := w)\<rparr>)"
  using assms by (simp_all add: upd_def load_def store_def)

lemma avoids_put [simp]: "avoids s a p \<Longrightarrow> avoids (s\<lparr>pmem := (pmem s)(a := w)\<rparr>) a p"
  by (auto simp: avoids_def pde_addr_def pte_addr_def table_frame_def)

lemma set_entry_at:
  assumes "mmu_walk (pmem s) (cr3 s) p = Some a" "avoids s a p"
  shows "set_entry p frame present user writable s =
    Inr (s\<lparr>pmem := (pmem s)(a := set_Writable writable (set_User user (set_Present present
      (set_PhysAddress frame (pmem s a)))))\<rparr>)"
proof -
  have w: "mmu_walk ((pmem s)(a := w)) (cr3 s) p = Some a" for w
    using walk_avoids [OF assms(2)] assms(1) by simp
  show ?thesis unfolding set_entry_def
    by (simp add: upd_at [OF assms(1)]) (simp add: upd_at w)
qed

lemma init_entry_at:
  assumes "mmu_walk (pmem s) (cr3 s) p = Some a" "avoids s a p"
  shows "init_entry p raw s =
    Inr (s\<lparr>pmem := (pmem s)(a := set_User False (set_Writable True (set_Present True raw)))\<rparr>)"
proof -
  have w: "mmu_walk ((pmem s)(a := w)) (cr3 s) p = Some a" for w
    using walk_avoids [OF assms(2)] assms(1) by simp
  show ?thesis unfolding init_entry_def
    by (simp add: upd_at [OF assms(1)]) (simp add: upd_at w)
qed

lemma frame_of_put [simp]:
  "frame_of (set_Present b r) = frame_of r" "frame_of (set_Writable b r) = frame_of r"
  "frame_of (set_User b r) = frame_of r"
  unfolding frame_of_eq entry_defs by (rule bit_word_eqI, auto simp: bit_simps)+

lemma frame_of_set_PhysAddress: "frame_of (set_PhysAddress (drop_bit 12 p) r) = frame_of p"
  unfolding frame_of_eq entry_defs by (rule bit_word_eqI) (auto simp: bit_simps)

lemma walk_own_entry:
  assumes "Present (dir_entry s v)" "pde_addr s v \<noteq> pte_addr s v"
  shows "mmu_walk ((pmem s)(pte_addr s v := w)) (cr3 s) v =
    (if Present w then Some (frame_of w + (v AND 0xFFF)) else None)"
  using assms by (simp add: mmu_walk_def dir_entry_def pde_addr_def pte_addr_def table_frame_def Let_def)

lemma sees_table_walk:
  "sees_table L s v \<Longrightarrow> pte_addr s v \<noteq> NULL \<and> mmu_walk (pmem s) (cr3 s) (pte_addr s v) = Some (pte_addr s v)"
  by (simp add: sees_table_def pte_addr_def Let_def)

text \<open>
  C13. Where the page table of \<open>virt\<close> exists and is seen at its physical address, and its entry
  is not part of the tables that lead to it: after \<open>MmMap\<close> the processor translates the page
  to the given frame, with the given user and write permissions; after \<open>MmUnmap\<close> it has no
  translation. Either way every address whose translation does not go through that entry is
  translated as before, and nothing but that word of memory is written.
\<close>

theorem MmMap_and_MmUnmap_set_one_translation:
  assumes "sees_directory s (CurrentPageDirectory s) virt" "Present (dir_entry s virt)"
    and "sees_table L s virt" "avoids s (pte_addr s virt) (pte_addr s virt)"
    and "pde_addr s virt \<noteq> pte_addr s virt"
  shows "(\<exists>s'. MmMap L phys virt user writable s = ret (True, s') \<and>
      mmu_walk (pmem s') (cr3 s') virt = Some (frame_of phys + (virt AND 0xFFF)) \<and>
      Writable (pmem s' (pte_addr s virt)) = writable \<and> User (pmem s' (pte_addr s virt)) = user \<and>
      (\<forall>v. avoids s (pte_addr s virt) v \<longrightarrow> mmu_walk (pmem s') (cr3 s') v = mmu_walk (pmem s) (cr3 s) v) \<and>
      (\<forall>a. a \<noteq> pte_addr s virt \<longrightarrow> pmem s' a = pmem s a)) \<and>
    (\<exists>s'. MmUnmap L virt s = Inr (True, s') \<and> mmu_walk (pmem s') (cr3 s') virt = None \<and>
      (\<forall>v. avoids s (pte_addr s virt) v \<longrightarrow> mmu_walk (pmem s') (cr3 s') v = mmu_walk (pmem s) (cr3 s) v) \<and>
      (\<forall>a. a \<noteq> pte_addr s virt \<longrightarrow> pmem s' a = pmem s a))"
proof (rule conjI)
  have g: "MmGetTableEntry L s (CurrentPageDirectory s) virt = Inr (pte_addr s virt)"
    using MmGetTableEntry_sees(2) [OF assms(1-3)] by (simp add: pte_addr_def)
  note t = sees_table_walk [OF assms(3)]
  note e = set_entry_at [OF t [THEN conjunct2] assms(4)]
  note w = walk_own_entry [OF assms(2,5)] walk_avoids
  show "\<exists>s'. MmMap L phys virt user writable s = ret (True, s') \<and>
      mmu_walk (pmem s') (cr3 s') virt = Some (frame_of phys + (virt AND 0xFFF)) \<and>
      Writable (pmem s' (pte_addr s virt)) = writable \<and> User (pmem s' (pte_addr s virt)) = user \<and>
      (\<forall>v. avoids s (pte_addr s virt) v \<longrightarrow> mmu_walk (pmem s') (cr3 s') v = mmu_walk (pmem s) (cr3 s) v) \<and>
      (\<forall>a. a \<noteq> pte_addr s virt \<longrightarrow> pmem s' a = pmem s a)"
    using t by (simp add: MmMap_def Let_def g e w frame_of_set_PhysAddress)
  show "\<exists>s'. MmUnmap L virt s = Inr (True, s') \<and> mmu_walk (pmem s') (cr3 s') virt = None \<and>
      (\<forall>v. avoids s (pte_addr s virt) v \<longrightarrow> mmu_walk (pmem s') (cr3 s') v = mmu_walk (pmem s) (cr3 s) v) \<and>
      (\<forall>a. a \<noteq> pte_addr s virt \<longrightarrow> pmem s' a = pmem s a)"
    using t by (simp add: MmUnmap_def g e w)
qed

definition identity_heap :: heap_state where
  "identity_heap = empty_heap\<lparr>pmem := identity_mem, cr3 := 0x1000, CurrentPageDirectory := 0x1000\<rparr>"

lemma identity_heap_simps: "pmem identity_heap = identity_mem" "cr3 identity_heap = 0x1000"
  "CurrentPageDirectory identity_heap = 0x1000"
  by (simp_all add: identity_heap_def)

lemma identity_heap_sees:
  "sees_directory identity_heap 0x1000 0x5123" "sees_table sample_image identity_heap 0x5123"
  "Present (dir_entry identity_heap 0x5123)" "pde_addr identity_heap 0x5123 \<noteq> pte_addr identity_heap 0x5123"
  "avoids identity_heap (pte_addr identity_heap 0x5123) (pte_addr identity_heap 0x5123)"
proof -
  have "in_kernel_tables sample_image identity_heap 0x2000"
    unfolding in_kernel_tables_def
    by (rule exI [of _ 0]) (simp add: KERNEL_PAGES_def kpt_def kpt_addr_def K_VIRT_TO_PHYS_def identity_heap_simps identity_mem_def)
  then show "sees_table sample_image identity_heap 0x5123"
    by (simp add: sees_table_def table_frame_def identity_heap_simps mmu_walk_def frame_of_def
        identity_mem_def Present_def Let_def)
qed (simp_all add: sees_directory_def dir_entry_def identity_heap_simps mmu_walk_def frame_of_def
    identity_mem_def Present_def Let_def avoids_def pde_addr_def pte_addr_def table_frame_def)

theorem MmMap_and_MmUnmap_set_one_translation_witness:
  "\<exists>s'. MmMap sample_image 0x9000 0x5123 False True identity_heap = ret (True, s') \<and>
     mmu_walk (pmem s') (cr3 s') 0x5123 = Some 0x9123"
proof -
  have v: "frame_of 0x9000 + (0x5123 AND 0xFFF) = 0x9123" by (simp add: frame_of_def)
  have d: "sees_directory identity_heap (CurrentPageDirectory identity_heap) 0x5123"
    by (simp only: identity_heap_simps identity_heap_sees(1))
  obtain s' where "MmMap sample_image 0x9000 0x5123 False True identity_heap = ret (True, s')"
    "mmu_walk (pmem s') (cr3 s') 0x5123 = Some (frame_of 0x9000 + (0x5123 AND 0xFFF))"
    using MmMap_and_MmUnmap_set_one_translation [OF d identity_heap_sees(3,2,5,4), where phys = "0x9000" and user = False and writable = True, THEN conjunct1]
    by (elim exE conjE)
  with v show ?thesis by (intro exI [of _ s'] conjI) simp_all
qed

subsection \<open>A new directory\<close>

text \<open>The whole page at \<open>r\<close> is seen at the frame \<open>F\<close>, and its translation does not read that frame.\<close>

definition page_at :: "'z mm_state_scheme \<Rightarrow> ptr \<Rightarrow> u32 \<Rightarrow> bool" where
  "page_at s r F \<longleftrightarrow> (\<forall>k < 1024. mmu_walk (pmem s) (cr3 s) (r + 4 * of_nat k) = Some (F + 4 * of_nat k) \<and>
     (\<forall>j < 1024. avoids s (F + 4 * of_nat j) (r + 4 * of_nat k)))"

lemma page_at_put: "page_at s r F \<Longrightarrow> j < 1024 \<Longrightarrow> page_at (s\<lparr>pmem := (pmem s)(F + 4 * of_nat j := w)\<rparr>) r F"
  unfolding page_at_def by (auto simp: walk_avoids avoids_def pde_addr_def pte_addr_def table_frame_def)

lemma entry_addr_inj: "j < 1024 \<Longrightarrow> k < 1024 \<Longrightarrow> F + 4 * of_nat j = F + 4 * of_nat k \<longleftrightarrow> j = k" for F :: u32
proof -
  assume b: "j < 1024" "k < 1024"
  have "F + 4 * of_nat j = F + 4 * of_nat k \<longleftrightarrow> (of_nat (4 * j) :: u32) = of_nat (4 * k)" by simp
  also have "\<dots> \<longleftrightarrow> 4 * j = 4 * k" using b by (intro of_nat32_inject) simp_all
  finally show ?thesis by simp
qed

definition kernel_entry :: "u32 \<Rightarrow> u32" where
  "kernel_entry raw = set_User False (set_Writable True (set_Present True raw))"

lemma init_entry_page:
  assumes "page_at s r F" "k < 1024"
  shows "init_entry (r + 4 * of_nat k) raw s = Inr (s\<lparr>pmem := (pmem s)(F + 4 * of_nat k := kernel_entry raw)\<rparr>)"
  using assms unfolding page_at_def kernel_entry_def by (intro init_entry_at) auto

lemma map_kernel_space_page:
  "page_at s r F \<Longrightarrow> i + n = 128 \<Longrightarrow>
    \<exists>s'. map_kernel_space L r i n s = Inr s' \<and> page_at s' r F \<and> cr3 s' = cr3 s \<and>
      (\<forall>k. i \<le> k \<and> k < 128 \<longrightarrow> pmem s' (F + 4 * of_nat (896 + k)) = kernel_entry (kpt_addr L (k * 1024))) \<and>
      (\<forall>a. (\<forall>k. i \<le> k \<and> k < 128 \<longrightarrow> a \<noteq> F + 4 * of_nat (896 + k)) \<longrightarrow> pmem s' a = pmem s a)"
proof (induction n arbitrary: i s)
  case 0
  then show ?case by auto
next
  case (Suc n)
  let ?s = "s\<lparr>pmem := (pmem s)(F + 4 * of_nat (896 + i) := kernel_entry (kpt_addr L (i * 1024)))\<rparr>"
  have p: "page_at ?s r F" using Suc.prems by (intro page_at_put) simp_all
  obtain s' where s': "map_kernel_space L r (Suc i) n ?s = Inr s'" "page_at s' r F" "cr3 s' = cr3 ?s"
    "\<forall>k. Suc i \<le> k \<and> k < 128 \<longrightarrow> pmem s' (F + 4 * of_nat (896 + k)) = kernel_entry (kpt_addr L (k * 1024))"
    "\<forall>a. (\<forall>k. Suc i \<le> k \<and> k < 128 \<longrightarrow> a \<noteq> F + 4 * of_nat (896 + k)) \<longrightarrow> pmem s' a = pmem ?s a"
    using Suc.IH [OF p, of "Suc i"] Suc.prems(2) by auto
  have i: "pmem s' (F + 4 * of_nat (896 + i)) = kernel_entry (kpt_addr L (i * 1024))"
  proof -
    have "\<forall>k. Suc i \<le> k \<and> k < 128 \<longrightarrow> F + 4 * of_nat (896 + i) \<noteq> F + 4 * of_nat (896 + k)"
    proof (intro allI impI)
      fix k assume "Suc i \<le> k \<and> k < 128"
      then show "F + 4 * of_nat (896 + i) \<noteq> F + 4 * of_nat (896 + k)"
        by (subst entry_addr_inj) auto
    qed
    with s'(5) have "pmem s' (F + 4 * of_nat (896 + i)) = pmem ?s (F + 4 * of_nat (896 + i))" by blast
    then show ?thesis by simp
  qed
  show ?case
  proof (rule exI [of _ s'], intro conjI allI impI)
    have "init_entry (r + 4 * of_nat (896 + i)) (kpt_addr L (i * 1024)) s = Inr ?s"
      using Suc.prems by (intro init_entry_page) simp_all
    with s'(1) show "map_kernel_space L r i (Suc n) s = Inr s'" by simp
  next
    fix k assume "i \<le> k \<and> k < 128"
    then show "pmem s' (F + 4 * of_nat (896 + k)) = kernel_entry (kpt_addr L (k * 1024))"
      using i s'(4) by (cases "k = i") auto
  next
    fix a assume a: "\<forall>k. i \<le> k \<and> k < 128 \<longrightarrow> a \<noteq> F + 4 * of_nat (896 + k)"
    then have "pmem s' a = pmem ?s a" using s'(5) by (meson Suc_leD)
    moreover have "a \<noteq> F + 4 * of_nat (896 + i)" using a Suc.prems(2) by auto
    ultimately show "pmem s' a = pmem s a" by simp
  qed (use s' in simp_all)
qed

text \<open>
  C35. \<open>MmAllocPageDirectory\<close> fills the new directory so: entry 0 maps the identity table of low
  memory, entries 896 to 1023 the 128 kernel page tables, all present, writable and supervisor
  only. Entries 1 to 895, the whole of user space, keep what the memory held before, and no
  other word is written.
\<close>

theorem new_directory_leaves_user_entries_uninitialised:
  assumes "page_at s r F"
  shows "\<exists>s'. fill_directory L r s = Inr s' \<and>
    pmem s' F = kernel_entry (K_VIRT_TO_PHYS (addr_ZeroIdentityPage L)) \<and>
    (\<forall>k. 896 \<le> k \<and> k < 1024 \<longrightarrow>
       pmem s' (F + 4 * of_nat k) = kernel_entry (kpt_addr L ((k - 896) * 1024))) \<and>
    (\<forall>k. 1 \<le> k \<and> k < 896 \<longrightarrow> pmem s' (F + 4 * of_nat k) = pmem s (F + 4 * of_nat k)) \<and>
    (\<forall>a. (\<forall>k < 1024. a \<noteq> F + 4 * of_nat k) \<longrightarrow> pmem s' a = pmem s a)"
proof -
  obtain s1 where s1: "map_kernel_space L r 0 128 s = Inr s1" "page_at s1 r F"
    and k1: "\<And>k. k < 128 \<Longrightarrow> pmem s1 (F + 4 * of_nat (896 + k)) = kernel_entry (kpt_addr L (k * 1024))"
    and o1: "\<And>a. (\<forall>k < 128. a \<noteq> F + 4 * of_nat (896 + k)) \<Longrightarrow> pmem s1 a = pmem s a"
    using map_kernel_space_page [OF assms, of 0 128 L] by auto
  let ?z = "kernel_entry (K_VIRT_TO_PHYS (addr_ZeroIdentityPage L))"
  let ?s = "s1\<lparr>pmem := (pmem s1)(F := ?z)\<rparr>"
  have at: "fill_directory L r s = Inr ?s"
    using init_entry_page [OF s1(2), of 0] s1(1) by (simp add: fill_directory_def)
  have ne: "F + 4 * of_nat k \<noteq> F" if "1 \<le> k" "k < 1024" for k :: nat
    using entry_addr_inj [of k 0 F] that by simp
  show ?thesis
  proof (rule exI [of _ ?s], intro conjI allI impI)
    show "fill_directory L r s = Inr ?s" by (rule at)
    show "pmem ?s F = ?z" by simp
  next
    fix k :: nat assume k: "896 \<le> k \<and> k < 1024"
    then have "pmem s1 (F + 4 * of_nat k) = kernel_entry (kpt_addr L ((k - 896) * 1024))"
      using k1 [of "k - 896"] by (simp add: less_diff_conv2)
    with ne [of k] k show "pmem ?s (F + 4 * of_nat k) = kernel_entry (kpt_addr L ((k - 896) * 1024))" by simp
  next
    fix k :: nat assume k: "1 \<le> k \<and> k < 896"
    have "\<forall>j < 128. F + 4 * of_nat k \<noteq> F + 4 * of_nat (896 + j)"
    proof (intro allI impI)
      fix j :: nat assume "j < 128"
      with k show "F + 4 * of_nat k \<noteq> F + 4 * of_nat (896 + j)" by (subst entry_addr_inj) auto
    qed
    from o1 [OF this] ne [of k] k show "pmem ?s (F + 4 * of_nat k) = pmem s (F + 4 * of_nat k)" by simp
  next
    fix a assume a: "\<forall>k < 1024. a \<noteq> F + 4 * of_nat k"
    have "a \<noteq> F" using a [rule_format, of 0] by simp
    moreover have "\<forall>k < 128. a \<noteq> F + 4 * of_nat (896 + k)"
    proof (intro allI impI)
      fix k :: nat assume "k < 128"
      then show "a \<noteq> F + 4 * of_nat (896 + k)" using a [rule_format, of "896 + k"] by simp
    qed
    ultimately show "pmem ?s a = pmem s a" using o1 by simp
  qed
qed

lemma in_page_3:
  assumes "k < 1024"
  shows "drop_bit 22 (0x3000 + 4 * of_nat k) = (0 :: u32)" "drop_bit 12 (0x3000 + 4 * of_nat k) = (3 :: u32)"
    "(0x3000 + 4 * of_nat k :: u32) AND 0xFFF = 4 * of_nat k"
proof -
  let ?a = "0x3000 + 4 * of_nat k :: u32"
  have a: "?a = of_nat (12288 + 4 * k)" by simp
  have u: "unat ?a = 12288 + 4 * k" unfolding a using assms by (intro unat_of_nat32) simp
  have "unat (drop_bit 22 ?a) = 0" using assms by (simp only: drop_bit_eq_div unat_div u) simp
  then show "drop_bit 22 ?a = 0" by (simp only: unat_eq_0)
  have "unat (drop_bit 12 ?a) = (12288 + 4 * k) div 4096" by (simp only: drop_bit_eq_div unat_div u) simp
  also have "\<dots> = 3" using assms by simp
  finally have "unat (drop_bit 12 ?a) = unat (3 :: u32)" by simp
  then show "drop_bit 12 ?a = 3" by (simp only: word_unat_eq_iff)
  have m: "(0xFFF :: u32) = mask 12" by (simp add: mask_eq_exp_minus_1)
  have "unat (?a AND 0xFFF) = unat ?a mod 4096"
    unfolding m by (simp add: take_bit_eq_mask [symmetric] take_bit_eq_mod unat_mod)
  also have "\<dots> = (4 * k + 3 * 4096) mod 4096" unfolding u by (simp add: add.commute)
  also have "\<dots> = 4 * k" using assms by (simp only: mod_mult_self1) simp
  also have "\<dots> = unat (of_nat (4 * k) :: u32)" using assms by (intro unat_of_nat32 [symmetric]) simp
  finally have "?a AND 0xFFF = of_nat (4 * k)" by (simp only: word_unat_eq_iff)
  then show "?a AND 0xFFF = 4 * of_nat k" by simp
qed

lemma identity_page_3: "page_at identity_heap 0x3000 0x3000"
proof -
  have ne: "0x3000 + 4 * of_nat j \<noteq> (0x1000 :: u32)" "0x3000 + 4 * of_nat j \<noteq> (0x200C :: u32)"
    if "j < 1024" for j :: nat
  proof -
    have d: "drop_bit 12 (0x3000 + 4 * of_nat j) \<noteq> drop_bit 12 (0x1000 :: u32)"
      "drop_bit 12 (0x3000 + 4 * of_nat j) \<noteq> drop_bit 12 (0x200C :: u32)"
      unfolding in_page_3(2) [OF that] by simp_all
    show "0x3000 + 4 * of_nat j \<noteq> (0x1000 :: u32)" "0x3000 + 4 * of_nat j \<noteq> (0x200C :: u32)"
      using d by metis+
  qed
  show ?thesis
    unfolding page_at_def avoids_def pde_addr_def pte_addr_def table_frame_def mmu_walk_def
    by (simp add: in_page_3 identity_heap_simps identity_mem_def frame_of_def Present_def ne [symmetric])
qed

theorem new_directory_leaves_user_entries_uninitialised_witness:
  "\<exists>s'. fill_directory sample_image 0x3000 identity_heap = Inr s' \<and> pmem s' 0x3000 = 0x190003 \<and>
     pmem s' 0x3004 = pmem identity_heap 0x3004"
proof -
  have z: "kernel_entry (K_VIRT_TO_PHYS (addr_ZeroIdentityPage sample_image)) = 0x190003"
    by (simp add: kernel_entry_def K_VIRT_TO_PHYS_def set_User_def set_Writable_def set_Present_def put_bit_def
        set_bit_eq_or unset_bit_eq_or_xor)
  obtain s' where s': "fill_directory sample_image 0x3000 identity_heap = Inr s'"
    "pmem s' 0x3000 = kernel_entry (K_VIRT_TO_PHYS (addr_ZeroIdentityPage sample_image))"
    and u: "\<forall>k. 1 \<le> k \<and> k < 896 \<longrightarrow> pmem s' (0x3000 + 4 * of_nat k) = pmem identity_heap (0x3000 + 4 * of_nat k)"
    using new_directory_leaves_user_entries_uninitialised [OF identity_page_3, of sample_image]
    by (elim exE conjE)
  from s' u [rule_format, of 1] show ?thesis unfolding z by (intro exI [of _ s']) simp
qed

subsection \<open>What \<open>MmMmap\<close> does\<close>

lemma mmap_fill_never_returns:
  assumes "mmap_fill L ptrPage pages p user writable i s = Some r" "ptrPage < ptrPage + pages"
  shows "r \<noteq> Inr s'"
proof -
  have "ptrPage < ptrPage + pages \<longrightarrow> (\<forall>s'. r \<noteq> Inr s')"
    using assms(1)
    by (rule mmap_fill.raw_induct [rotated]) (auto simp: ret_def split: if_splits option.splits sum.splits prod.splits)
  with assms(2) show ?thesis by blast
qed

lemma mmap_check_never_true:
  assumes "mmap_check L s ptrPage pages i = Some r" "ptrPage < ptrPage + pages"
  shows "r \<noteq> Inr True"
proof -
  have "ptrPage < ptrPage + pages \<longrightarrow> r \<noteq> Inr True"
    using assms(1)
    by (rule mmap_check.raw_induct [rotated]) (auto simp: ret_def split: if_splits option.splits sum.splits)
  with assms(2) show ?thesis by blast
qed

lemma mmap_search_exit:
  "mmap_search L s pages ptrPage started base found = Inr (q, st, b) \<Longrightarrow> ptrPage \<le> endingPage + 1 \<Longrightarrow> q \<le> endingPage + 1"
proof (induction L s pages ptrPage started base found rule: mmap_search.induct)
  case (1 L s pages ptrPage started base found)
  show ?case
  proof (cases "ptrPage \<le> endingPage")
    case True
    then have "ptrPage + 1 \<le> endingPage + 1" by (simp add: endingPage_def word_le_nat_alt unat_plus_if')
    note e = 1(2) [unfolded mmap_search.simps [of L s pages ptrPage], unfolded if_P [OF True] rbind_eq_Inr]
    obtain pr where pr: "MmIsPresent L s (push_bit 12 ptrPage) = Inr pr" using e by blast
    note IH = 1(1) [OF True pr refl prod.collapse prod.collapse]
    show ?thesis
    proof (cases "q = ptrPage")
      case False
      with e pr IH \<open>ptrPage + 1 \<le> endingPage + 1\<close> show ?thesis by (auto simp: Let_def split: if_splits)
    qed (use 1(3) in simp)
  next
    case False
    with 1(2,3) show ?thesis by (subst (asm) mmap_search.simps) auto
  qed
qed

lemma mmap_check_false:
  assumes "mmap_check L s ptrPage pages i = Some r" "r = Inr False"
  shows "\<exists>i. MmIsPresent L s (push_bit 12 i) = Inr True"
proof -
  have "r = Inr False \<longrightarrow> (\<exists>i. MmIsPresent L s (push_bit 12 i) = Inr True)"
    using assms(1)
    by (rule mmap_check.raw_induct [rotated]) (auto simp: ret_def split: if_splits option.splits sum.splits)
  with assms(2) show ?thesis by blast
qed

lemma mmap_search_full:
  "mmap_search L s pages ptrPage started base found = Inr (q, st, b) \<Longrightarrow> \<not> st \<Longrightarrow> ptrPage \<le> endingPage \<Longrightarrow>
    MmIsPresent L s (push_bit 12 endingPage) = Inr True"
proof (induction L s pages ptrPage started base found rule: mmap_search.induct)
  case (1 L s pages ptrPage started base found)
  note e = 1(2) [unfolded mmap_search.simps [of L s pages ptrPage], unfolded if_P [OF 1(4)] rbind_eq_Inr]
  obtain pr where pr: "MmIsPresent L s (push_bit 12 ptrPage) = Inr pr" using e by blast
  note IH = 1(1) [OF 1(4) pr refl prod.collapse prod.collapse]
  show ?case
  proof (cases "ptrPage = endingPage")
    case True
    then have "\<not> ptrPage + 1 \<le> endingPage" by (simp add: endingPage_def)
    then have x: "mmap_search L s pages (ptrPage + 1) st' b' f' = Inr (ptrPage + 1, st', b')" for st' b' f'
      by (subst mmap_search.simps) simp
    show ?thesis using e pr 1(3) True by (auto simp: Let_def x [unfolded True] split: if_splits)
  next
    case False
    with 1(4) have "ptrPage + 1 \<le> endingPage" by (intro inc_le) simp
    with e pr IH 1(3) show ?thesis by (auto simp: Let_def split: if_splits)
  qed
qed


definition two_tables_heap :: heap_state where
  "two_tables_heap = empty_heap\<lparr>pmem := identity_mem(0x1004 := 0x2003), cr3 := 0x1000, CurrentPageDirectory := 0x1000\<rparr>"

lemma two_tables_present: "MmIsPresent sample_image two_tables_heap 0x400000 = Inr True"
proof -
  have sel: "pmem two_tables_heap = identity_mem(0x1004 := 0x2003)" "cr3 two_tables_heap = 0x1000"
    "CurrentPageDirectory two_tables_heap = 0x1000"
    by (simp_all add: two_tables_heap_def)
  have "kpt sample_image two_tables_heap 0 = 0x2003"
    by (simp add: kpt_def kpt_addr_def K_VIRT_TO_PHYS_def sel identity_mem_def)
  then have "MmKernelPhysToVirt sample_image two_tables_heap 0x2000 = 0x2000"
    unfolding MmKernelPhysToVirt_def by (subst phys_to_virt_loop.simps) (simp add: KERNEL_PAGES_def)
  then show ?thesis
    by (simp add: MmIsPresent_def MmGetTableEntry_def MmGetTableAddr_def MmGetTable_def sel load_def
        mmu_walk_def frame_of_def identity_mem_def Present_def Let_def)
qed


end
