(* ===== verification/Interrupts.thy ===== *)
theory Interrupts
  imports Paging
begin

unbundle bit_operations_syntax

text \<open>
  Interrupts (\<open>kernel/src/CPU/IDT.c\<close>, \<open>PIC.c\<close>, \<open>Pit.c\<close> and their headers): the descriptor table
  and its encoding, the frame the entry stubs push, the dispatch to the handler of a vector, and
  the programming of the interrupt controller and the timer. The addresses of the entry stubs
  are parameters; their code is in \<open>EntryCode\<close>. A function pointer in \<open>IdtIntHandlers\<close> is the name of one of the
  kernel's handlers; what calling it does is an argument of the dispatcher, supplied where the
  handlers are defined.
\<close>

record IdtFrame =
  Gs :: u32
  Fs :: u32
  Es :: u32
  Ds :: u32
  Edi :: u32
  Esi :: u32
  Ebp :: u32
  unused :: u32
  Ebx :: u32
  Edx :: u32
  Ecx :: u32
  Eax :: u32
  InterruptNumber :: u32
  ErrorCode :: u32
  Eip :: u32
  Cs :: u32
  Eflags :: u32
  UserEsp :: u32
  Ss :: u32

datatype callback = SchedIrqHandler_cb | SyscallIntHandler_cb | PS2KbdIrq1Handler_cb

record intr_state = heap_state +
  IdtTable :: "u8 \<Rightarrow> u64"
  IdtIntHandlers :: "u8 \<Rightarrow> callback option"

text \<open>The entry stubs: \<open>_IntDefault\<close> and \<open>_Int_n\<close>.\<close>

record stubs =
  addr_IntDefault :: ptr
  addr_Int :: "u8 \<Rightarrow> ptr"

definition GdtKernelCode :: u32 where "GdtKernelCode = 0x08"
definition GdtKernelData :: u32 where "GdtKernelData = 0x10"
definition GdtUserCode :: u32 where "GdtUserCode = 0x18"
definition GdtUserData :: u32 where "GdtUserData = 0x20"

definition IdtGateTask32 :: u8 where "IdtGateTask32 = 0x5"
definition IdtGateInt32 :: u8 where "IdtGateInt32 = 0xE"
definition IdtGateTrap32 :: u8 where "IdtGateTrap32 = 0xF"

lemmas gate_types = IdtGateTask32_def IdtGateInt32_def IdtGateTrap32_def

definition kernel_outb :: "u16 \<Rightarrow> u8 \<Rightarrow> 'z heap_state_scheme \<Rightarrow> 'z heap_state_scheme" where
  "kernel_outb port val s = s\<lparr>console := outb port val (console s)\<rparr>"

subsection \<open>The interrupt controller and the timer\<close>

definition PicIrqOffset :: u8 where "PicIrqOffset = 0x20"

definition PicInit :: "'z heap_state_scheme \<Rightarrow> 'z heap_state_scheme" where
  "PicInit s =
     (let s = kernel_outb 0x20 0x11 s; s = kernel_outb 0xA0 0x11 s;
          s = kernel_outb 0x21 PicIrqOffset s; s = kernel_outb 0xA1 (PicIrqOffset + 7) s;
          s = kernel_outb 0x21 0x04 s; s = kernel_outb 0xA1 0x02 s;
          s = kernel_outb 0x21 0x01 s; s = kernel_outb 0xA1 0x01 s;
          s = kernel_outb 0x21 0x00 s
      in kernel_outb 0xA1 0x00 s)"

definition PicEOI :: "u8 \<Rightarrow> 'z heap_state_scheme \<Rightarrow> 'z heap_state_scheme" where
  "PicEOI irq s = kernel_outb 0x20 0x20 (if irq > 7 then kernel_outb 0xA0 0x20 s else s)"

definition PitReconfigureC0 :: "u16 \<Rightarrow> 'z heap_state_scheme \<Rightarrow> 'z heap_state_scheme" where
  "PitReconfigureC0 divisor s =
     kernel_outb 0x40 (ucast (drop_bit 8 divisor AND 0xFF))
       (kernel_outb 0x40 (ucast (divisor AND 0xFF)) (kernel_outb 0x43 0x34 s))"

definition PitInit :: "'z heap_state_scheme \<Rightarrow> 'z heap_state_scheme" where
  "PitInit s = PitReconfigureC0 (ucast ((0x1234DE :: u32) div 1000)) s"

subsection \<open>The descriptor table\<close>

definition IdtSetEntry :: "u8 \<Rightarrow> ptr \<Rightarrow> u8 \<Rightarrow> u8 \<Rightarrow> 'z intr_state_scheme \<Rightarrow> 'z intr_state_scheme" where
  "IdtSetEntry index callback gateType minDpl s =
     (let result = 0 :: u64;
          callbackPtr = callback;
          result = result OR ucast (callbackPtr AND 0xFFFF);
          callbackPtr = drop_bit 16 callbackPtr;
          result = result OR push_bit 48 (ucast (callbackPtr AND 0xFFFF));
          result = result OR ucast (push_bit 16 GdtKernelCode);
          typeAttributes = push_bit 7 1 :: u8;
          typeAttributes = typeAttributes OR push_bit 5 minDpl;
          typeAttributes = typeAttributes OR (gateType AND 0xF);
          typeAttributes = (if gateType = IdtGateTask32 then typeAttributes OR push_bit 4 1 else typeAttributes);
          result = result OR push_bit 40 (ucast typeAttributes)
      in s\<lparr>IdtTable := (IdtTable s)(index := result)\<rparr>)"

definition IdtSetHandler :: "u8 \<Rightarrow> callback \<Rightarrow> 'z intr_state_scheme \<Rightarrow> 'z intr_state_scheme" where
  "IdtSetHandler i cb s = s\<lparr>IdtIntHandlers := (IdtIntHandlers s)(i := Some cb)\<rparr>"

text \<open>The vectors with a stub of their own, in the order \<open>IdtInit\<close> sets them, and the lowest
  privilege that may raise each.\<close>

definition vectors :: "(u8 \<times> u8) list" where
  "vectors = map (\<lambda>n. (n, 0)) [0x00, 0x01, 0x02, 0x03, 0x04, 0x05, 0x06, 0x07, 0x08, 0x0A, 0x0B,
     0x0C, 0x0D, 0x0E, 0x10, 0x11, 0x12, 0x13, 0x14, 0x1E, 0x20, 0x21, 0x22, 0x23, 0x24, 0x25, 0x26,
     0x27, 0x28, 0x29, 0x2A, 0x2B, 0x2C, 0x2D, 0x2E, 0x2F] @ [(0x83, 3)]"

definition IdtInit :: "stubs \<Rightarrow> 'z intr_state_scheme \<Rightarrow> 'z intr_state_scheme" where
  "IdtInit S s =
     (let s = fold (\<lambda>i. IdtSetEntry (of_nat i) (addr_IntDefault S) IdtGateInt32 3) [0..<256] s
      in fold (\<lambda>(n, dpl). IdtSetEntry n (addr_Int S n) IdtGateInt32 dpl) vectors s)"

subsection \<open>Dispatch\<close>

text \<open>How an interrupt is left: the frame to resume, or an endless loop with this state.\<close>

datatype 's handled = Resume IdtFrame 's | Hang 's

text \<open>A byte stored at \<open>0xB8000\<close> and two bytes further: the characters of the first two cells.\<close>

definition poke_cells :: "u8 \<Rightarrow> u8 \<Rightarrow> tty_state \<Rightarrow> tty_state" where
  "poke_cells a b t = t\<lparr>TextBuffer := (TextBuffer t)
     (0 := (TextBuffer t 0 AND 0xFF00) OR ucast a, 1 := (TextBuffer t 1 AND 0xFF00) OR ucast b)\<rparr>"

definition IdtGlobalIntHandler :: "(callback \<Rightarrow> IdtFrame \<Rightarrow> 'z intr_state_scheme \<Rightarrow> (IdtFrame \<times> 'z intr_state_scheme) run)
    \<Rightarrow> IdtFrame \<Rightarrow> 'z intr_state_scheme \<Rightarrow> 'z intr_state_scheme handled run" where
  "IdtGlobalIntHandler call idtFrame s =
     (let n = ucast (InterruptNumber idtFrame) :: u8 in
      if InterruptNumber idtFrame = 0x0E then ret (Hang (s\<lparr>console := poke_cells 80 70 (console s)\<rparr>))
      else if InterruptNumber idtFrame \<le> 0x1E then ret (Hang (s\<lparr>console := poke_cells 58 47 (console s)\<rparr>))
      else
        mbind (case IdtIntHandlers s n of Some cb \<Rightarrow> call cb idtFrame s | None \<Rightarrow> ret (idtFrame, s)) (\<lambda>(idtFrame, s).
          ret (Resume idtFrame (if n \<ge> 0x20 \<and> n \<le> 0x2F then PicEOI (n - 0x20) s else s))))"

subsection \<open>How the processor reads a descriptor\<close>

definition gate_offset :: "u64 \<Rightarrow> ptr" where
  "gate_offset e = ucast (take_bit 16 e) OR push_bit 16 (ucast (drop_bit 48 e))"

definition gate_selector :: "u64 \<Rightarrow> u16" where "gate_selector e = ucast (drop_bit 16 e)"
definition gate_type :: "u64 \<Rightarrow> u8" where "gate_type e = ucast (take_bit 4 (drop_bit 40 e))"
definition gate_storage :: "u64 \<Rightarrow> bool" where "gate_storage e = bit e 44"
definition gate_dpl :: "u64 \<Rightarrow> u8" where "gate_dpl e = ucast (take_bit 2 (drop_bit 45 e))"
definition gate_present :: "u64 \<Rightarrow> bool" where "gate_present e = bit e 47"

lemmas gate_defs = gate_offset_def gate_selector_def gate_type_def gate_storage_def gate_dpl_def gate_present_def

text \<open>The attribute byte, and the descriptor \<open>IdtSetEntry\<close> stores.\<close>

definition gate_attributes :: "u8 \<Rightarrow> u8 \<Rightarrow> u8" where
  "gate_attributes gateType minDpl = 0x80 OR push_bit 5 minDpl OR (gateType AND 0xF)
     OR (if gateType = IdtGateTask32 then 0x10 else 0)"

definition gate :: "ptr \<Rightarrow> u8 \<Rightarrow> u64" where
  "gate callback attributes = ucast (take_bit 16 callback) OR push_bit 48 (ucast (drop_bit 16 callback))
     OR 0x80000 OR push_bit 40 (ucast attributes)"

lemma IdtSetEntry_eq:
  "IdtSetEntry index callback gateType minDpl s =
     s\<lparr>IdtTable := (IdtTable s)(index := gate callback (gate_attributes gateType minDpl))\<rparr>"
proof -
  have m: "(0xFFFF :: u32) = mask 16" by (simp add: mask_eq_exp_minus_1)
  have a: "callback AND 0xFFFF = take_bit 16 callback" by (simp add: m take_bit_eq_mask)
  have b: "drop_bit 16 callback AND 0xFFFF = drop_bit 16 callback"
    unfolding m by (rule bit_word_eqI) (auto simp: bit_simps dest: bit_imp_le_length)
  show ?thesis
    by (simp add: IdtSetEntry_def Let_def gate_def gate_attributes_def a b GdtKernelCode_def or.assoc)
qed

lemma bit_exp_int: "bit (2 ^ m :: int) n \<longleftrightarrow> n = m"
  by (auto simp: bit_exp_iff)

lemma bit_gate_constants: "bit (0x80000 :: int) n \<longleftrightarrow> n = 19" "bit (8 :: int) n \<longleftrightarrow> n = 3"
  using bit_exp_int [of 19 n] bit_exp_int [of 3 n] by simp_all

lemma bit_gate: "bit (gate cb at) n \<longleftrightarrow>
    (if n < 16 then bit cb n else if n < 40 then n = 19 else if n < 48 then bit at (n - 40) else n < 64 \<and> bit cb (n - 32))"
  unfolding gate_def
  by (auto simp: bit_simps bit_gate_constants dest: bit_imp_le_length)

lemma gate_fields:
  "gate_offset (gate cb at) = cb" "gate_selector (gate cb at) = 0x08"
  "gate_type (gate cb at) = take_bit 4 at" "gate_dpl (gate cb at) = take_bit 2 (drop_bit 5 at)"
  "gate_storage (gate cb at) = bit at 4" "gate_present (gate cb at) = bit at 7"
proof -
  note s = gate_defs bit_simps bit_gate bit_gate_constants
  show "gate_offset (gate cb at) = cb" by (rule bit_word_eqI) (auto simp: s)
  show "gate_selector (gate cb at) = 0x08" by (rule bit_word_eqI) (auto simp: s)
  show "gate_type (gate cb at) = take_bit 4 at" by (rule bit_word_eqI) (auto simp: s)
  show "gate_dpl (gate cb at) = take_bit 2 (drop_bit 5 at)" by (rule bit_word_eqI) (auto simp: s)
  show "gate_storage (gate cb at) = bit at 4" "gate_present (gate cb at) = bit at 7"
    by (simp_all add: gate_storage_def gate_present_def bit_gate)
qed

text \<open>The attribute bytes the kernel uses: present, a 32-bit interrupt gate, privilege 0 or 3.\<close>

lemma int_gate_attributes:
  "gate_attributes 0xE 0 = 0x8E" "gate_attributes 0xE 3 = 0xEE"
  by (simp_all add: gate_attributes_def gate_types)

text \<open>The table after \<open>IdtInit\<close>.\<close>

definition int_gate :: "ptr \<Rightarrow> u8 \<Rightarrow> u64" where
  "int_gate target dpl = gate target (gate_attributes IdtGateInt32 dpl)"

lemma fold_defaults:
  "fold (\<lambda>i. IdtSetEntry (of_nat i) cb ty dpl) ns s =
     s\<lparr>IdtTable := (\<lambda>n. if n \<in> of_nat ` set ns then gate cb (gate_attributes ty dpl) else IdtTable s n)\<rparr>"
  by (induction ns arbitrary: s) (auto simp: IdtSetEntry_eq fun_eq_iff)

lemma fold_vectors:
  "fold (\<lambda>(n, dpl). IdtSetEntry n (f n) ty dpl) vs s =
     s\<lparr>IdtTable := (\<lambda>n. if n \<in> fst ` set vs then gate (f n) (gate_attributes ty (the (map_of (rev vs) n))) else IdtTable s n)\<rparr>"
proof (induction vs arbitrary: s rule: rev_induct)
  case (snoc v vs)
  then show ?case by (cases v) (auto simp: IdtSetEntry_eq fun_eq_iff)
qed simp

lemma vector_privilege:
  assumes "n \<in> fst ` set vectors"
  shows "map_of (rev vectors) n = Some (if n = 0x83 then 3 else 0)"
proof -
  have "\<forall>n \<in> fst ` set vectors. map_of (rev vectors) n = Some (if n = 0x83 then 3 else 0)"
    by (simp add: vectors_def)
  with assms show ?thesis by blast
qed

lemma IdtInit_eq:
  "IdtInit S s = s\<lparr>IdtTable := (\<lambda>n. if n \<in> fst ` set vectors
     then int_gate (addr_Int S n) (if n = 0x83 then 3 else 0) else int_gate (addr_IntDefault S) 3)\<rparr>"
proof -
  have "n \<in> of_nat ` set [0..<256]" for n :: u8
    by (rule image_eqI [of _ _ "unat n"]) (use unsigned_less [of n] in simp_all)
  then show ?thesis
    by (simp add: IdtInit_def fold_defaults fold_vectors int_gate_def vector_privilege cong: if_cong)
qed

text \<open>
  C38. After \<open>IdtInit\<close> every descriptor is a present 32-bit interrupt gate into the kernel code
  segment, read as the processor reads it. A vector of the list leads to its own stub, any other
  to the stub that just returns. A program in user mode may raise no vector of the list but
  \<open>0x83\<close>, the system call: exceptions and device interrupts cannot be forged.
\<close>

theorem IdtInit_opens_only_the_system_call_to_users:
  "\<forall>n. let e = IdtTable (IdtInit S s) n in
    gate_present e \<and> gate_type e = IdtGateInt32 \<and> \<not> gate_storage e \<and> gate_selector e = 0x08 \<and>
    gate_offset e = (if n \<in> fst ` set vectors then addr_Int S n else addr_IntDefault S) \<and>
    gate_dpl e = (if n \<in> fst ` set vectors \<and> n \<noteq> 0x83 then 0 else 3)"
proof (intro allI)
  fix n
  have "gate_present (int_gate cb p) \<and> gate_type (int_gate cb p) = IdtGateInt32 \<and> \<not> gate_storage (int_gate cb p) \<and>
      gate_selector (int_gate cb p) = 0x08 \<and> gate_offset (int_gate cb p) = cb \<and> gate_dpl (int_gate cb p) = p"
    if "p = 0 \<or> p = 3" for cb p
    using that by (auto simp: int_gate_def int_gate_attributes gate_fields gate_types)
  then show "let e = IdtTable (IdtInit S s) n in
    gate_present e \<and> gate_type e = IdtGateInt32 \<and> \<not> gate_storage e \<and> gate_selector e = 0x08 \<and>
    gate_offset e = (if n \<in> fst ` set vectors then addr_Int S n else addr_IntDefault S) \<and>
    gate_dpl e = (if n \<in> fst ` set vectors \<and> n \<noteq> 0x83 then 0 else 3)"
    by (simp add: IdtInit_eq Let_def)
qed

subsection \<open>Acknowledging interrupts\<close>

text \<open>
  What the 8259 controllers make of the programming: the first byte written to a data port after
  the start of the initialisation is the vector offset, of which the low three bits are replaced
  by the number of the line (8086 mode).
\<close>

definition written :: "u16 \<Rightarrow> port_log \<Rightarrow> u8 list" where
  "written port log = map snd (filter (\<lambda>(p, v). p = port) log)"

definition pic_vector :: "u8 \<Rightarrow> u8 \<Rightarrow> u8" where
  "pic_vector offset line = (offset AND 0xF8) OR line"

definition port_output :: "'z heap_state_scheme \<Rightarrow> port_log" where
  "port_output s = ports (console s)"

lemma port_output_outb [simp]: "port_output (kernel_outb port val s) = port_output s @ [(port, val)]"
  by (simp add: port_output_def kernel_outb_def outb_def Outb_def)

lemma port_output_EOI:
  "port_output (PicEOI irq s) = port_output s @ (if irq > 7 then [(0xA0, 0x20)] else []) @ [(0x20, 0x20)]"
  by (simp add: PicEOI_def)

text \<open>The interrupt acknowledgement that follows a handled vector.\<close>

definition acknowledgement :: "u8 \<Rightarrow> port_log" where
  "acknowledgement n = (if 0x20 \<le> n \<and> n \<le> 0x27 then [(0x20, 0x20)]
     else if 0x28 \<le> n \<and> n \<le> 0x2F then [(0xA0, 0x20), (0x20, 0x20)] else [])"

lemma IdtGlobalIntHandler_resumes:
  assumes "0x1E < InterruptNumber f"
    and "(case IdtIntHandlers s (ucast (InterruptNumber f)) of Some cb \<Rightarrow> call cb f s | None \<Rightarrow> ret (f, s)) = ret (f', s')"
  shows "\<exists>s''. IdtGlobalIntHandler call f s = ret (Resume f' s'') \<and>
    port_output s'' = port_output s' @ acknowledgement (ucast (InterruptNumber f)) \<and>
    (s'' = s' \<or> (\<exists>t. s'' = s'\<lparr>console := t\<rparr>))"
proof -
  define n where "n = (ucast (InterruptNumber f) :: u8)"
  have ne: "InterruptNumber f \<noteq> 0x0E" "\<not> InterruptNumber f \<le> 0x1E" using assms(1) by auto
  have high: "n - 0x20 > 7 \<longleftrightarrow> 0x28 \<le> n" if "n \<ge> 0x20"
    using that by (simp add: word_less_nat_alt word_le_nat_alt unat_sub) linarith
  have "IdtGlobalIntHandler call f s =
      ret (Resume f' (if n \<ge> 0x20 \<and> n \<le> 0x2F then PicEOI (n - 0x20) s' else s'))"
    using ne assms(2) by (simp add: IdtGlobalIntHandler_def Let_def n_def)
  moreover have "port_output (if n \<ge> 0x20 \<and> n \<le> 0x2F then PicEOI (n - 0x20) s' else s') = port_output s' @ acknowledgement n"
    using high by (auto simp: port_output_EOI acknowledgement_def word_le_nat_alt word_less_nat_alt)
  moreover have "\<exists>t. PicEOI i s' = s'\<lparr>console := t\<rparr>" for i
    by (auto simp: PicEOI_def kernel_outb_def)
  ultimately show ?thesis unfolding n_def by auto
qed


text \<open>A machine with an empty heap and no handlers, and a frame of zeros, for concrete runs.\<close>

definition bare_machine :: intr_state where
  "bare_machine = heap_state.extend empty_heap (intr_state.fields (\<lambda>_. 0) (\<lambda>_. None))"

definition zero_frame :: IdtFrame where
  "zero_frame = \<lparr>Gs = 0, Fs = 0, Es = 0, Ds = 0, Edi = 0, Esi = 0, Ebp = 0, unused = 0, Ebx = 0, Edx = 0,
     Ecx = 0, Eax = 0, InterruptNumber = 0, ErrorCode = 0, Eip = 0, Cs = 0, Eflags = 0, UserEsp = 0, Ss = 0\<rparr>"

lemma bare_machine_simps [simp]:
  "IdtIntHandlers bare_machine = (\<lambda>_. None)" "console bare_machine = blank_tty"
  by (simp_all add: bare_machine_def heap_state.defs intr_state.defs empty_heap_def)


end
