(* ===== verification/Drivers.thy ===== *)
theory Drivers
  imports Heap_Clients Interrupts
begin

text \<open>
  The driver manager (\<open>kernel/src/Drivers/DriverManager.c\<close>) and the drivers that only register
  themselves (\<open>PS2Keyboard.c\<close>, the end of \<open>TTYInit\<close>). Static objects and string literals are at
  addresses the linker decides, collected in \<open>image\<close>; the \<open>DriverID\<close> of a definition is a map
  from its address.
\<close>

record image =
  lk :: linker
  entry_stubs :: stubs
  addr_TTYDriver :: ptr
  str_TTY :: ptr
  addr_RamDiskDriver :: ptr
  str_RamDisk :: ptr
  addr_PS2KbdDef :: ptr
  str_PS2Kbd :: ptr
  addr_RamDiskEntries :: ptr
  addr_DevfsInfo :: ptr
  str_devfs :: ptr
  addr_DevfsInstance :: ptr
  addr_DevfsRootDir :: ptr
  addr_DevfsRootDirOps :: ptr
  addr_TTYDevfsDev :: ptr
  addr_TTYDevfsOps :: ptr
  str_tty :: ptr
  str_empty :: ptr
  str_KIdle :: ptr
  str_Test :: ptr
  addr_SchedIdle :: ptr
  addr_SchedSleepTest :: ptr

record driver_state = intr_state +
  DriverID :: "ptr \<Rightarrow> ptr"
  DmDriverCount :: u32
  DmDriverList :: "nat \<Rightarrow> ptr"

definition DM_MAX_REGISTERED_DRIVERS :: u32 where "DM_MAX_REGISTERED_DRIVERS = 32"

definition DmInit :: "'z driver_state_scheme \<Rightarrow> 'z driver_state_scheme" where
  "DmInit s = s\<lparr>DmDriverCount := 0\<rparr>"

definition DmRegisterDriver :: "ptr \<Rightarrow> 'z driver_state_scheme \<Rightarrow> (u32 \<times> 'z driver_state_scheme) run" where
  "DmRegisterDriver def s =
     mbind (KAssert (def \<noteq> NULL) ''def != NULL'') (\<lambda>_.
     if DmDriverCount s = DM_MAX_REGISTERED_DRIVERS then ret (0, s)
     else
       (let s = s\<lparr>DmDriverList := (DmDriverList s)(unat (DmDriverCount s) := def),
                  DmDriverCount := DmDriverCount s + 1\<rparr>
        in mbind (kprintf ''[DriverManager] Registered driver `%s`.\<newline>'' [DriverID s def] s) (\<lambda>s. ret (1, s))))"

definition set_DriverID :: "ptr \<Rightarrow> ptr \<Rightarrow> 'z driver_state_scheme \<Rightarrow> 'z driver_state_scheme" where
  "set_DriverID def name s = s\<lparr>DriverID := (DriverID s)(def := name)\<rparr>"

text \<open>The registration at the end of \<open>TTYInit\<close> (the return value is ignored).\<close>

definition TTY_register_driver :: "image \<Rightarrow> 'z driver_state_scheme \<Rightarrow> 'z driver_state_scheme run" where
  "TTY_register_driver I s =
     mbind (DmRegisterDriver (addr_TTYDriver I) (set_DriverID (addr_TTYDriver I) (str_TTY I) s)) (\<lambda>(r, s). ret s)"

subsection \<open>The keyboard driver\<close>

definition PS2KbdIrq1Handler :: "IdtFrame \<Rightarrow> 's \<Rightarrow> (IdtFrame \<times> 's) run" where
  "PS2KbdIrq1Handler frame s = ret (frame, s)"

definition PS2KbdInit :: "image \<Rightarrow> 'z driver_state_scheme \<Rightarrow> 'z driver_state_scheme run" where
  "PS2KbdInit I s =
     (let s = s\<lparr>IdtIntHandlers := (IdtIntHandlers s)(0x21 := Some PS2KbdIrq1Handler_cb)\<rparr> in
      mbind (DmRegisterDriver (addr_PS2KbdDef I) (set_DriverID (addr_PS2KbdDef I) (str_PS2Kbd I) s)) (\<lambda>(r, s). ret s))"

definition PS2KbdSendCommand :: "ptr \<Rightarrow> bool" where
  "PS2KbdSendCommand cmd = False"

subsection \<open>Registration\<close>

lemma kprintf_format:
  assumes "format (ascii msg) vs = Some out" "list_all2 (passed (bmem s)) vs vargs"
  shows "\<exists>t. kprintf msg vargs s = ret (s\<lparr>console := t\<rparr>) \<and> prints out (console s) t"
  using Kprintf_loop_format [OF assms, of "console s"] by (auto simp: kprintf_def Kprintf_def)

text \<open>The drivers and the interrupt tables are as before.\<close>

definition same_drivers :: "'z driver_state_scheme \<Rightarrow> 'z driver_state_scheme \<Rightarrow> bool" where
  "same_drivers s s' \<longleftrightarrow> IdtTable s' = IdtTable s \<and> IdtIntHandlers s' = IdtIntHandlers s \<and> DriverID s' = DriverID s \<and>
     DmDriverCount s' = DmDriverCount s \<and> DmDriverList s' = DmDriverList s"

lemma same_outside_drivers: "same_outside s s' \<Longrightarrow> same_drivers s s'"
  by (cases s', cases s, simp add: same_outside_def same_drivers_def)

lemma same_drivers_trans: "same_drivers s s' \<Longrightarrow> same_drivers s' s'' \<Longrightarrow> same_drivers s s''"
  by (simp add: same_drivers_def)

text \<open>The registry of drivers holds the definitions \<open>ds\<close>, in the order of registration.\<close>

definition drivers :: "'z driver_state_scheme \<Rightarrow> ptr list" where
  "drivers s = map (DmDriverList s) [0..<unat (DmDriverCount s)]"

lemma DmInit_empties: "drivers (DmInit s) = []"
  by (simp add: drivers_def DmInit_def)

lemma DmRegisterDriver_cases:
  assumes "unat (DmDriverCount s) \<le> 32" "def \<noteq> NULL" "DriverID s def \<noteq> NULL" "cstr (bmem s) (DriverID s def) name"
  shows "if length (drivers s) = 32 then DmRegisterDriver def s = ret (0, s)
    else \<exists>t. DmRegisterDriver def s = ret (1, s\<lparr>DmDriverList := (DmDriverList s)(unat (DmDriverCount s) := def),
             DmDriverCount := DmDriverCount s + 1, console := t\<rparr>) \<and>
         drivers (s\<lparr>DmDriverList := (DmDriverList s)(unat (DmDriverCount s) := def),
             DmDriverCount := DmDriverCount s + 1, console := t\<rparr>) = drivers s @ [def] \<and>
         prints (ascii ''[DriverManager] Registered driver `'' @ name @ ascii ''`.\<newline>'') (console s) t"
proof (cases "DmDriverCount s = 32")
  case True
  with assms(2) show ?thesis by (simp add: DmRegisterDriver_def DM_MAX_REGISTERED_DRIVERS_def drivers_def)
next
  case False
  then have c: "unat (DmDriverCount s) \<noteq> 32" by (simp add: word_unat_eq_iff)
  then have "unat (DmDriverCount s + 1) = Suc (unat (DmDriverCount s))" using assms(1) by (simp add: unat_plus_if')
  moreover obtain t where "kprintf ''[DriverManager] Registered driver `%s`.\<newline>'' [DriverID s def]
      (s\<lparr>DmDriverList := (DmDriverList s)(unat (DmDriverCount s) := def), DmDriverCount := DmDriverCount s + 1\<rparr>) =
      ret (s\<lparr>DmDriverList := (DmDriverList s)(unat (DmDriverCount s) := def),
             DmDriverCount := DmDriverCount s + 1, console := t\<rparr>)"
    "prints (ascii ''[DriverManager] Registered driver `'' @ name @ ascii ''`.\<newline>'') (console s) t"
    using kprintf_format [of "''[DriverManager] Registered driver `%s`.\<newline>''" "[Text name]"
        "ascii ''[DriverManager] Registered driver `'' @ name @ ascii ''`.\<newline>''"
        "s\<lparr>DmDriverList := (DmDriverList s)(unat (DmDriverCount s) := def), DmDriverCount := DmDriverCount s + 1\<rparr>"
        "[DriverID s def]"] assms(3,4)
    by (auto simp: ascii_def)
  ultimately show ?thesis
    using False c assms(2)
    by (auto simp: DmRegisterDriver_def DM_MAX_REGISTERED_DRIVERS_def Let_def drivers_def)
qed

end
