(* ===== verification/RamDisk.thy ===== *)
theory RamDisk
  imports Drivers
begin

text \<open>
  RAM disks (\<open>kernel/src/Drivers/RamDisk.c\<close>): streams over a region of memory. Stream objects are
  a map from their address; \<open>ParentEntry\<close> is the index of the entry the pointer designates. The
  contents of disks and of the callers' buffers are in the byte memory \<open>bmem\<close>.
\<close>

record RamDiskStream =
  StreamCursor :: u64
  ParentEntry :: nat

record RamDiskEntry =
  ID :: u32
  Buffer :: ptr
  BufferSize :: u32
  Stream :: ptr

record ramdisk_state = driver_state +
  RamDiskEntries :: "nat \<Rightarrow> RamDiskEntry"
  RamDiskCount :: u32
  ramdisk_streams :: "ptr \<Rightarrow> RamDiskStream"

definition RAMDISK_MAX_DISKS :: u32 where "RAMDISK_MAX_DISKS = 64"

subsection \<open>The stream callbacks\<close>

text \<open>How many bytes an access moves: the comparison is on 64 bits, the result on 32.\<close>

definition clamp :: "u64 \<Rightarrow> u32 \<Rightarrow> u32 \<Rightarrow> u32" where
  "clamp cursor bufferSize size' =
     (if cursor + ucast size' \<ge> ucast bufferSize then ucast (ucast bufferSize - cursor) else size')"

definition upd_stream :: "ptr \<Rightarrow> (u64 \<Rightarrow> u64) \<Rightarrow> 'z ramdisk_state_scheme \<Rightarrow> 'z ramdisk_state_scheme" where
  "upd_stream p f s = s\<lparr>ramdisk_streams := (ramdisk_streams s)
     (p := (ramdisk_streams s p)\<lparr>StreamCursor := f (StreamCursor (ramdisk_streams s p))\<rparr>)\<rparr>"

definition RamDiskWrite :: "ptr \<Rightarrow> ptr \<Rightarrow> u32 \<Rightarrow> 'z ramdisk_state_scheme \<Rightarrow> u32 \<times> 'z ramdisk_state_scheme" where
  "RamDiskWrite p b size' s =
     (let st = ramdisk_streams s p; e = RamDiskEntries s (ParentEntry st);
          size' = clamp (StreamCursor st) (BufferSize e) size';
          s = s\<lparr>bmem := memcpy (bmem s) b (Buffer e + ucast (StreamCursor st)) size'\<rparr>
      in (size', upd_stream p (\<lambda>c. c + ucast size') s))"

definition RamDiskRead :: "ptr \<Rightarrow> ptr \<Rightarrow> u32 \<Rightarrow> 'z ramdisk_state_scheme \<Rightarrow> u32 \<times> 'z ramdisk_state_scheme" where
  "RamDiskRead p b size' s =
     (let st = ramdisk_streams s p; e = RamDiskEntries s (ParentEntry st);
          size' = clamp (StreamCursor st) (BufferSize e) size';
          s = s\<lparr>bmem := memcpy (bmem s) (Buffer e + ucast (StreamCursor st)) b size'\<rparr>
      in (size', upd_stream p (\<lambda>c. c + ucast size') s))"

definition RamDiskCanRead :: "'s \<Rightarrow> u32" where "RamDiskCanRead s = 1"
definition RamDiskCanWrite :: "'s \<Rightarrow> u32" where "RamDiskCanWrite s = 1"
definition RamDiskClose :: "'s \<Rightarrow> u32" where "RamDiskClose s = 0"

definition RamDiskSeek :: "ptr \<Rightarrow> u64 \<Rightarrow> IoOrigin \<Rightarrow> 'z ramdisk_state_scheme \<Rightarrow> u32 \<times> 'z ramdisk_state_scheme" where
  "RamDiskSeek p pos mode s =
     (let st = ramdisk_streams s p; bufferSize = ucast (BufferSize (RamDiskEntries s (ParentEntry st))) in
      case mode of
        SEEK_SET \<Rightarrow> if pos \<ge> bufferSize then (0, s) else (1, upd_stream p (\<lambda>c. pos) s)
      | SEEK_CUR \<Rightarrow> if StreamCursor st + pos \<ge> bufferSize then (0, s) else (1, upd_stream p (\<lambda>c. c + pos) s)
      | SEEK_END \<Rightarrow> if pos \<ge> bufferSize then (0, s) else (1, upd_stream p (\<lambda>c. bufferSize - pos) s)
      | OtherOrigin \<Rightarrow> (0, s))"

definition RamDiskTell :: "ptr \<Rightarrow> 'z ramdisk_state_scheme \<Rightarrow> u32" where
  "RamDiskTell p s = ucast (StreamCursor (ramdisk_streams s p))"

text \<open>The callbacks \<open>RamDiskAddDisk\<close> inserts in the stream at \<open>p\<close>.\<close>

definition RamDiskIoStream :: "ptr \<Rightarrow> (ptr, 'z ramdisk_state_scheme) IoStream" where
  "RamDiskIoStream p = IoInsertStreamCallbacks null_stream (Some (RamDiskWrite p)) (Some (RamDiskRead p))
     (Some RamDiskCanRead) (Some RamDiskCanWrite) (Some RamDiskClose) (Some (RamDiskSeek p)) (Some (RamDiskTell p))"

subsection \<open>Disks\<close>

definition RamDiskInit :: "image \<Rightarrow> 'z driver_state_scheme \<Rightarrow> 'z driver_state_scheme run" where
  "RamDiskInit I s =
     mbind (DmRegisterDriver (addr_RamDiskDriver I) (set_DriverID (addr_RamDiskDriver I) (str_RamDisk I) s)) (\<lambda>(r, s). ret s)"

text \<open>An entry past the end of the array designates no object.\<close>

definition RamDiskAddDisk :: "image \<Rightarrow> ptr \<Rightarrow> u32 \<Rightarrow> 'z ramdisk_state_scheme \<Rightarrow> (u32 \<times> 'z ramdisk_state_scheme) run" where
  "RamDiskAddDisk I buffer' bufferSize s =
     (let s = s\<lparr>RamDiskCount := RamDiskCount s + 1\<rparr>; ramDiskID = RamDiskCount s in
      if RamDiskCount s = RAMDISK_MAX_DISKS then ret (0, s)
      else
        mbind (malloc (lk I) 40 s) (\<lambda>(stream, s).
          if stream = NULL then ret (0, s)
          else
            (let s = s\<lparr>ramdisk_streams := (ramdisk_streams s)
                        (stream := \<lparr>StreamCursor = 0, ParentEntry = unat ramDiskID\<rparr>)\<rparr> in
             if unat ramDiskID \<ge> unat RAMDISK_MAX_DISKS then Some (Inl (BadAccess (addr_RamDiskEntries I + 16 * ramDiskID)))
             else ret (ramDiskID, s\<lparr>RamDiskEntries := (RamDiskEntries s)
               (unat ramDiskID := \<lparr>ID = ramDiskID, Buffer = buffer', BufferSize = bufferSize, Stream = stream\<rparr>)\<rparr>))))"

subsection \<open>The cursor\<close>

text \<open>The cursor of the stream at \<open>p\<close> never leaves its disk.\<close>

definition disk_of :: "'z ramdisk_state_scheme \<Rightarrow> ptr \<Rightarrow> RamDiskEntry" where
  "disk_of s p = RamDiskEntries s (ParentEntry (ramdisk_streams s p))"

definition cursor_ok :: "'z ramdisk_state_scheme \<Rightarrow> ptr \<Rightarrow> bool" where
  "cursor_ok s p \<longleftrightarrow> unat (StreamCursor (ramdisk_streams s p)) \<le> unat (BufferSize (disk_of s p))"

lemma unat_up: "unat (ucast (x :: u32) :: u64) = unat x"
  by (simp add: unsigned_ucast_eq take_bit_nat_eq_self less_le_trans [OF unsigned_less [of x]])

lemma clamp_eq:
  assumes "unat c \<le> unat b"
  shows "unat (clamp c b n) = min (unat n) (unat b - unat c)"
proof -
  have b: "unat b < 4294967296" "unat n < 4294967296" using unsigned_less [of b] unsigned_less [of n] by simp_all
  have sum: "unat (c + ucast n) = unat c + unat n"
    using assms b by (simp add: unat_plus_if' unat_up)
  have diff: "unat (ucast (ucast b - c :: u64) :: u32) = unat b - unat c"
  proof -
    have "unat (ucast b - c :: u64) = unat b - unat c" using assms by (simp add: unat_sub_if' unat_up)
    then have "unat (ucast (ucast b - c :: u64) :: u32) = take_bit 32 (unat b - unat c)"
      by (simp add: unsigned_ucast_eq)
    also have "\<dots> = unat b - unat c" using b by (intro take_bit_nat_eq_self) simp
    finally show ?thesis .
  qed
  show ?thesis
    using sum diff assms by (auto simp: clamp_def word_le_nat_alt unat_up)
qed

lemma stream_upd [simp]:
  "ramdisk_streams (upd_stream p f s) p = (ramdisk_streams s p)\<lparr>StreamCursor := f (StreamCursor (ramdisk_streams s p))\<rparr>"
  "bmem (upd_stream p f s) = bmem s" "RamDiskEntries (upd_stream p f s) = RamDiskEntries s"
  "disk_of (upd_stream p f s) p = disk_of s p" "disk_of (s\<lparr>bmem := m\<rparr>) p = disk_of s p"
  by (simp_all add: upd_stream_def disk_of_def)

lemma cursor_ok_upd:
  "cursor_ok (upd_stream p f s) p \<longleftrightarrow> unat (f (StreamCursor (ramdisk_streams s p))) \<le> unat (BufferSize (disk_of s p))"
  "cursor_ok (s\<lparr>bmem := m\<rparr>) p = cursor_ok s p"
  by (simp_all add: cursor_ok_def)

lemma cursor_advance:
  assumes "cursor_ok s p"
  defines "c \<equiv> StreamCursor (ramdisk_streams s p)" and "b \<equiv> BufferSize (disk_of s p)"
  shows "unat (c + ucast (clamp c b n)) = unat c + min (unat n) (unat b - unat c)"
    "unat (c + ucast (clamp c b n)) \<le> unat b"
proof -
  have le: "unat c \<le> unat b" using assms by (simp add: cursor_ok_def)
  have b: "unat b < 4294967296" using unsigned_less [of b] by simp
  show "unat (c + ucast (clamp c b n)) = unat c + min (unat n) (unat b - unat c)"
  proof -
    have "unat c + min (unat n) (unat b - unat c) < 18446744073709551616" using le b by linarith
    then show ?thesis by (simp add: unat_plus_if' unat_up clamp_eq [OF le])
  qed
  then show "unat (c + ucast (clamp c b n)) \<le> unat b" using le by simp
qed

text \<open>What a client of the stream can do.\<close>

datatype disk_op = WriteOp ptr u32 | ReadOp ptr u32 | SeekOp u64 IoOrigin

fun disk_step :: "ptr \<Rightarrow> disk_op \<Rightarrow> 'z ramdisk_state_scheme \<Rightarrow> 'z ramdisk_state_scheme" where
  "disk_step p (WriteOp b n) s = snd (IoWrite (RamDiskIoStream p) b n s)"
| "disk_step p (ReadOp b n) s = snd (IoRead (RamDiskIoStream p) b n s)"
| "disk_step p (SeekOp pos mode) s = snd (IoSeek (RamDiskIoStream p) pos mode s)"

lemma RamDiskIoStream_simps [simp]:
  "IoWrite (RamDiskIoStream p) b n s = RamDiskWrite p b n s" "IoRead (RamDiskIoStream p) b n s = RamDiskRead p b n s"
  "IoSeek (RamDiskIoStream p) pos mode s = RamDiskSeek p pos mode s" "IoTell (RamDiskIoStream p) s = RamDiskTell p s"
  by (simp_all add: IoWrite_def IoRead_def IoSeek_def IoTell_def RamDiskIoStream_def IoInsertStreamCallbacks_def)

lemma disk_of_step [simp]: "disk_of (disk_step p op s) p = disk_of s p"
  by (cases op) (auto simp: RamDiskWrite_def RamDiskRead_def RamDiskSeek_def Let_def split: IoOrigin.splits)

lemma seek_ok:
  assumes "cursor_ok s p"
  shows "cursor_ok (snd (RamDiskSeek p pos mode s)) p"
proof -
  let ?b = "ucast (BufferSize (disk_of s p)) :: u64"
  have b: "unat ?b = unat (BufferSize (disk_of s p))" by (rule unat_up)
  have "x < ?b \<Longrightarrow> unat x \<le> unat (BufferSize (disk_of s p))" for x
    using b by (simp add: word_less_nat_alt)
  moreover have "x < ?b \<Longrightarrow> unat (?b - x) \<le> unat (BufferSize (disk_of s p))" for x
    using b by (simp add: word_less_nat_alt unat_sub_if')
  ultimately show ?thesis
    using assms by (auto simp: RamDiskSeek_def Let_def cursor_ok_upd not_le simp flip: disk_of_def split: IoOrigin.split)
qed

lemma step_ok: "cursor_ok s p \<Longrightarrow> cursor_ok (disk_step p op s) p"
proof (cases op)
  case (SeekOp pos mode)
  assume "cursor_ok s p"
  with SeekOp seek_ok show ?thesis by simp
qed (use cursor_advance(2) in \<open>auto simp: RamDiskWrite_def RamDiskRead_def Let_def cursor_ok_upd simp flip: disk_of_def\<close>)

subsection \<open>Properties\<close>

text \<open>
  C30. The cursor of a disk stream stays on the disk: whatever a client writes, reads or seeks, with
  any sizes, positions (a negative one being a large 64-bit number) and origins, in any order.
\<close>

theorem cursor_stays_on_the_disk:
  assumes "cursor_ok s p"
  shows "cursor_ok (fold (disk_step p) ops s) p \<and> disk_of (fold (disk_step p) ops s) p = disk_of s p"
  using assms by (induction ops arbitrary: s) (simp_all add: step_ok)

text \<open>
  C31. The two transfers are swapped. For a stream with its cursor at the address \<open>pos\<close> of a disk,
  both move \<open>k\<close> bytes, the size asked for or what is left of the disk, and advance the cursor by
  \<open>k\<close>. But \<open>IoWrite\<close> copies from the disk to the caller's buffer and leaves the disk as it was,
  and \<open>IoRead\<close> overwrites the disk with the buffer.
\<close>

theorem ram_disk_transfers_are_swapped:
  assumes "cursor_ok s p" "k = clamp (StreamCursor (ramdisk_streams s p)) (BufferSize (disk_of s p)) n"
    and "pos = Buffer (disk_of s p) + ucast (StreamCursor (ramdisk_streams s p))" "ranges_disjoint b pos k"
  shows "unat k = min (unat n) (unat (BufferSize (disk_of s p)) - unat (StreamCursor (ramdisk_streams s p))) \<and>
    (\<exists>s'. IoWrite (RamDiskIoStream p) b n s = (k, s') \<and> cursor_ok s' p \<and>
       StreamCursor (ramdisk_streams s' p) = StreamCursor (ramdisk_streams s p) + ucast k \<and>
       (\<forall>a. bmem s' a = (if a - b < k then bmem s (pos + (a - b)) else bmem s a))) \<and>
    (\<exists>s'. IoRead (RamDiskIoStream p) b n s = (k, s') \<and> cursor_ok s' p \<and>
       StreamCursor (ramdisk_streams s' p) = StreamCursor (ramdisk_streams s p) + ucast k \<and>
       (\<forall>a. bmem s' a = (if a - pos < k then bmem s (b + (a - pos)) else bmem s a)))"
proof -
  have d: "ranges_disjoint pos b k" using assms(4) by (auto simp: ranges_disjoint_def)
  note ok = step_ok [OF assms(1), of "WriteOp b n"] step_ok [OF assms(1), of "ReadOp b n"]
  show ?thesis
    using ok clamp_eq [OF assms(1) [unfolded cursor_ok_def], of n]
    by (simp add: RamDiskWrite_def RamDiskRead_def Let_def memcpy_apply [OF assms(4)] memcpy_apply [OF d]
        flip: disk_of_def assms(2,3))
qed

text \<open>A machine with one disk of 512 bytes at \<open>0x8000\<close>, its stream at \<open>0x100\<close>.\<close>

definition no_disk :: RamDiskEntry where
  "no_disk = \<lparr>ID = 0, Buffer = 0, BufferSize = 0, Stream = 0\<rparr>"

definition driver_machine :: driver_state where
  "driver_machine = intr_state.extend bare_machine (driver_state.fields (\<lambda>_. 0x100) 0 (\<lambda>_. 0))"

definition disk_machine :: ramdisk_state where
  "disk_machine = driver_state.extend driver_machine (ramdisk_state.fields
     ((\<lambda>_. no_disk)(1 := \<lparr>ID = 1, Buffer = 0x8000, BufferSize = 512, Stream = 0x100\<rparr>)) 1
     (\<lambda>_. \<lparr>StreamCursor = 0, ParentEntry = 1\<rparr>))"

lemmas machine_defs = disk_machine_def driver_machine_def bare_machine_def heap_state.defs intr_state.defs
  driver_state.defs ramdisk_state.defs

lemma disk_machine_simps [simp]:
  "disk_of disk_machine p = \<lparr>ID = 1, Buffer = 0x8000, BufferSize = 512, Stream = 0x100\<rparr>"
  "ramdisk_streams disk_machine p = \<lparr>StreamCursor = 0, ParentEntry = 1\<rparr>" "cursor_ok disk_machine p"
  by (simp_all add: disk_of_def machine_defs cursor_ok_def)

theorem cursor_stays_on_the_disk_witness:
  "cursor_ok (fold (disk_step 0x100) [SeekOp 500 SEEK_SET, WriteOp 0x9000 100, SeekOp 0 SEEK_CUR] disk_machine) 0x100"
  by (rule cursor_stays_on_the_disk [THEN conjunct1]) simp

theorem ram_disk_transfers_are_swapped_witness:
  "\<exists>s'. IoRead (RamDiskIoStream 0x100) 0x9000 4 disk_machine = (4, s') \<and>
     bmem s' 0x8001 = bmem disk_machine 0x9001"
proof -
  have c: "clamp 0 512 4 = 4" by (simp add: clamp_def)
  have d: "ranges_disjoint 0x9000 0x8000 4"
    unfolding ranges_disjoint_def
  proof (intro allI notI)
    fix a :: ptr assume "a - 0x9000 < 4 \<and> a - 0x8000 < 4"
    then have lt: "unat (a - 0x9000) < 4" "unat (a - 0x8000) < 4" by (simp_all add: word_less_nat_alt)
    have add: "unat (x + 0x1000) = unat x + 4096" if "unat x < 4" for x :: u32
      using that by (simp add: unat_plus_if')
    have "a - 0x8000 = (a - 0x9000) + 0x1000" by simp
    then have "unat (a - 0x8000) = unat (a - 0x9000) + 4096" using add [OF lt(1)] by (simp only:)
    with lt show False by linarith
  qed
  have k: "4 = clamp (StreamCursor (ramdisk_streams disk_machine 0x100)) (BufferSize (disk_of disk_machine 0x100)) 4"
    using c by simp
  have pos: "0x8000 = Buffer (disk_of disk_machine 0x100) + ucast (StreamCursor (ramdisk_streams disk_machine 0x100))"
    by simp
  obtain s' where s': "IoRead (RamDiskIoStream 0x100) 0x9000 4 disk_machine = (4, s')"
    "\<forall>a. bmem s' a = (if a - 0x8000 < 4 then bmem disk_machine (0x9000 + (a - 0x8000)) else bmem disk_machine a)"
    using ram_disk_transfers_are_swapped [OF disk_machine_simps(3) k pos d, THEN conjunct2, THEN conjunct2]
    by (elim exE conjE)
  have "bmem s' 0x8001 = bmem disk_machine 0x9001" using s'(2) [rule_format, of "0x8001"] by simp
  with s'(1) show ?thesis by blast
qed

text \<open>
  \<open>RamDiskAddDisk\<close>, while memory lasts: disk number \<open>n\<close>, for \<open>n\<close> up to 63, gets the identifier
  \<open>n\<close>, an entry of its own and a fresh stream at its start, and no other entry changes. The 64th
  is refused. From the 65th on nothing is refused: the entry is written past the end of the array.
\<close>

lemma RamDiskAddDisk_overruns_after_the_refusal:
  assumes "heap_ready (lk I) s" "room (lk I) s (Suc k)" "RamDiskCount s < 0xFFFFFFFF"
  shows "if RamDiskCount s < 63 then
      (\<exists>s' p. RamDiskAddDisk I b n s = ret (RamDiskCount s + 1, s') \<and> RamDiskCount s' = RamDiskCount s + 1 \<and>
         p \<noteq> NULL \<and> (\<forall>a. in_range a p 40 \<longrightarrow> \<not> owned (lk I) s a) \<and> RamDiskTell p s' = 0 \<and>
         disk_of s' p = \<lparr>ID = RamDiskCount s + 1, Buffer = b, BufferSize = n, Stream = p\<rparr> \<and>
         RamDiskEntries s' = (RamDiskEntries s)(unat (RamDiskCount s + 1) := disk_of s' p))
    else if RamDiskCount s = 63 then RamDiskAddDisk I b n s = ret (0, s\<lparr>RamDiskCount := 64\<rparr>)
    else RamDiskAddDisk I b n s = Some (Inl (BadAccess (addr_RamDiskEntries I + 16 * (RamDiskCount s + 1))))"
proof -
  let ?s = "s\<lparr>RamDiskCount := RamDiskCount s + 1\<rparr>"
  have u: "unat (RamDiskCount s + 1) = Suc (unat (RamDiskCount s))" by (rule unat_inc32 [OF assms(3)])
  have h: "heap_ready (lk I) ?s" "room (lk I) ?s (Suc k)" "owned (lk I) ?s = owned (lk I) s"
    using assms(1,2) by (simp_all add: heap_ready_def heap_ok_def room_def frames_left_def page_status_def
        kpt_def owned_def [abs_def])
  have sm: "small 40" by (simp add: small_def)
  obtain p s1 where m: "malloc (lk I) 40 ?s = ret (p, s1)" "p \<noteq> NULL" "room (lk I) s1 k" "heap_ready (lk I) s1"
      "same_outside ?s s1" "\<forall>a. in_range a p (unat (40 :: u32)) \<longrightarrow> \<not> owned (lk I) s a \<and> owned (lk I) s1 a"
      "\<forall>a. owned (lk I) s a \<longrightarrow> owned (lk I) s1 a \<and> bmem s1 a = bmem ?s a"
    using malloc_with_room [OF h(1) sm h(2)] unfolding h(3) by (elim exE conjE)
  have same: "RamDiskCount s1 = RamDiskCount s + 1" "RamDiskEntries s1 = RamDiskEntries s"
    using m(5) by (cases s1, cases s, simp add: same_outside_def)+
  have eq: "RamDiskCount s + 1 = 64 \<longleftrightarrow> RamDiskCount s = 63" by (simp add: eq_diff_eq [symmetric])
  show ?thesis
    using m(1,2,6) same u eq
    by (auto simp: RamDiskAddDisk_def Let_def RAMDISK_MAX_DISKS_def word_less_nat_alt RamDiskTell_def disk_of_def
        word_unat_eq_iff)
qed

definition driver_image :: image where
  "driver_image = \<lparr>lk = sample_image, entry_stubs = \<lparr>addr_IntDefault = 0xE0001000, addr_Int = (\<lambda>n. 0xE0001100 + 16 * ucast n)\<rparr>,
     addr_TTYDriver = 0xE00A0000, str_TTY = 0xE0003000, addr_RamDiskDriver = 0xE00A0010, str_RamDisk = 0xE0003010,
     addr_PS2KbdDef = 0xE00A0020, str_PS2Kbd = 0xE0003020, addr_RamDiskEntries = 0xE00A1000,
     addr_DevfsInfo = 0xE00A2000, str_devfs = 0xE0003030, addr_DevfsInstance = 0xE00A2010,
     addr_DevfsRootDir = 0xE00A2020, addr_DevfsRootDirOps = 0xE00A2050, addr_TTYDevfsDev = 0xE00A2060,
     addr_TTYDevfsOps = 0xE00A2070, str_tty = 0xE0003040, str_empty = 0xE0003050, str_KIdle = 0xE0003060,
     str_Test = 0xE0003070, addr_SchedIdle = 0xE0005000, addr_SchedSleepTest = 0xE0005100\<rparr>"

lemma disk_machine_fresh: "fresh (disk_machine\<lparr>RamDiskCount := n\<rparr>)"
  by (simp add: fresh_def machine_defs empty_heap_def)

lemma RamDiskAddDisk_overruns_after_the_refusal_witness:
  "RamDiskAddDisk driver_image 0x8000 512 (disk_machine\<lparr>RamDiskCount := 64\<rparr>) = Some (Inl (BadAccess 0xE00A1410))"
proof -
  have lk: "lk driver_image = sample_image" "addr_RamDiskEntries driver_image = 0xE00A1000"
    by (simp_all add: driver_image_def)
  have "heap_ready (lk driver_image) (disk_machine\<lparr>RamDiskCount := 64\<rparr>)"
    unfolding lk by (rule fresh_ready [OF disk_machine_fresh])
  moreover have "room (lk driver_image) (disk_machine\<lparr>RamDiskCount := 64\<rparr>) (Suc 0)"
    unfolding lk by (rule fresh_room [OF disk_machine_fresh]) simp
  ultimately show ?thesis
    using RamDiskAddDisk_overruns_after_the_refusal [of driver_image "disk_machine\<lparr>RamDiskCount := 64\<rparr>" 0 "0x8000" 512]
    by (simp add: lk(2))
qed

end
