(* ===== verification/LinkedList.thy ===== *)
theory LinkedList
  imports Kernel_Prelude
begin

text \<open>
  The intrusive doubly linked lists of \<open>kernel/src/Utils/LinkedList.c\<close>. The heap maps the
  address of an element to its two links; an address outside it designates no element. The
  abstraction \<open>dll h xs\<close> says that the elements \<open>xs\<close>, in this order, form one list. Walking a
  heap that holds no such list may never end, so the walks are partial.
\<close>

record LListElement =
  Next :: ptr
  Prev :: ptr

type_synonym llheap = "ptr \<rightharpoonup> LListElement"

subsection \<open>Operations\<close>

definition ll_read :: "llheap \<Rightarrow> ptr \<Rightarrow> LListElement run" where
  "ll_read h p = (case h p of None \<Rightarrow> Some (Inl (BadAccess p)) | Some e \<Rightarrow> ret e)"

definition set_Next :: "llheap \<Rightarrow> ptr \<Rightarrow> ptr \<Rightarrow> llheap run" where
  "set_Next h p v = mbind (ll_read h p) (\<lambda>e. ret (h(p \<mapsto> e\<lparr>Next := v\<rparr>)))"

definition set_Prev :: "llheap \<Rightarrow> ptr \<Rightarrow> ptr \<Rightarrow> llheap run" where
  "set_Prev h p v = mbind (ll_read h p) (\<lambda>e. ret (h(p \<mapsto> e\<lparr>Prev := v\<rparr>)))"

text \<open>\<open>while (list->Prev != NULL) list = list->Prev;\<close>\<close>

partial_function (option) first_loop :: "llheap \<Rightarrow> ptr \<Rightarrow> ptr run" where
  "first_loop h list =
     (case h list of
        None \<Rightarrow> Some (Inl (BadAccess list))
      | Some e \<Rightarrow> if Prev e \<noteq> NULL then first_loop h (Prev e) else ret list)"

definition LListGetFirst :: "llheap \<Rightarrow> ptr \<Rightarrow> ptr run" where
  "LListGetFirst h list = mbind (KAssert (list \<noteq> NULL) ''list != NULL'') (\<lambda>_. first_loop h list)"

text \<open>\<open>while (list->Next != NULL) list = list->Next;\<close>\<close>

partial_function (option) last_loop :: "llheap \<Rightarrow> ptr \<Rightarrow> ptr run" where
  "last_loop h list =
     (case h list of
        None \<Rightarrow> Some (Inl (BadAccess list))
      | Some e \<Rightarrow> if Next e \<noteq> NULL then last_loop h (Next e) else ret list)"

definition LListGetLast :: "llheap \<Rightarrow> ptr \<Rightarrow> ptr run" where
  "LListGetLast h list = mbind (KAssert (list \<noteq> NULL) ''list != NULL'') (\<lambda>_. last_loop h list)"

text \<open>\<open>for (i = 0; i < index; i++) { list = list->Next; if (list == NULL) return NULL; }\<close>\<close>

function get_loop :: "llheap \<Rightarrow> ptr \<Rightarrow> u32 \<Rightarrow> u32 \<Rightarrow> ptr run" where
  "get_loop h list index i =
     (if i < index then
        (case h list of
           None \<Rightarrow> Some (Inl (BadAccess list))
         | Some e \<Rightarrow> if Next e = NULL then ret NULL else get_loop h (Next e) index (i + 1))
      else ret list)"
  by pat_completeness auto
termination
  by (relation "measure (\<lambda>(h, list, index, i). unat index - unat i)") (auto simp: measure_up32)

declare get_loop.simps [simp del]

definition LListGet :: "llheap \<Rightarrow> ptr \<Rightarrow> u32 \<Rightarrow> ptr run" where
  "LListGet h list index =
     mbind (KAssert (list \<noteq> NULL) ''list != NULL'') (\<lambda>_.
     mbind (KAssert (index < 0xFFFFFFFF) ''index < 0xFFFFFFFF'') (\<lambda>_.
     mbind (LListGetFirst h list) (\<lambda>list. get_loop h list index 0)))"

definition LListPushFront :: "llheap \<Rightarrow> ptr \<Rightarrow> ptr \<Rightarrow> llheap run" where
  "LListPushFront h list elementToAdd =
     mbind (KAssert (list \<noteq> NULL) ''list != NULL'') (\<lambda>_.
     mbind (KAssert (elementToAdd \<noteq> NULL) ''elementToAdd != NULL'') (\<lambda>_.
     mbind (LListGetFirst h list) (\<lambda>list.
     mbind (set_Next h elementToAdd list) (\<lambda>h.
     mbind (set_Prev h elementToAdd NULL) (\<lambda>h.
     set_Prev h list elementToAdd)))))"

definition LListPushBack :: "llheap \<Rightarrow> ptr \<Rightarrow> ptr \<Rightarrow> llheap run" where
  "LListPushBack h list elementToAdd =
     mbind (KAssert (list \<noteq> NULL) ''list != NULL'') (\<lambda>_.
     mbind (KAssert (elementToAdd \<noteq> NULL) ''elementToAdd != NULL'') (\<lambda>_.
     mbind (LListGetLast h list) (\<lambda>list.
     mbind (set_Next h elementToAdd NULL) (\<lambda>h.
     mbind (set_Prev h elementToAdd list) (\<lambda>h.
     set_Next h list elementToAdd)))))"

definition LListPopFront :: "llheap \<Rightarrow> ptr \<Rightarrow> (ptr \<times> llheap) run" where
  "LListPopFront h list =
     mbind (KAssert (list \<noteq> NULL) ''list != NULL'') (\<lambda>_.
     mbind (LListGetFirst h list) (\<lambda>list.
     mbind (ll_read h list) (\<lambda>e.
     mbind (set_Prev h (Next e) NULL) (\<lambda>h. ret (list, h)))))"

definition LListPopBack :: "llheap \<Rightarrow> ptr \<Rightarrow> (ptr \<times> llheap) run" where
  "LListPopBack h list =
     mbind (KAssert (list \<noteq> NULL) ''list != NULL'') (\<lambda>_.
     mbind (LListGetLast h list) (\<lambda>list.
     mbind (ll_read h list) (\<lambda>e.
     mbind (set_Next h (Prev e) NULL) (\<lambda>h. ret (list, h)))))"

text \<open>\<open>for (result = 1; list->Next != NULL; list = list->Next) result++;\<close>\<close>

partial_function (option) size_loop :: "llheap \<Rightarrow> ptr \<Rightarrow> u32 \<Rightarrow> u32 run" where
  "size_loop h list result =
     (case h list of
        None \<Rightarrow> Some (Inl (BadAccess list))
      | Some e \<Rightarrow> if Next e \<noteq> NULL then size_loop h (Next e) (result + 1) else ret result)"

definition LListGetSize :: "llheap \<Rightarrow> ptr \<Rightarrow> u32 run" where
  "LListGetSize h list = mbind (KAssert (list \<noteq> NULL) ''list != NULL'') (\<lambda>_. size_loop h list 1)"

subsection \<open>Lists in the heap\<close>

text \<open>\<open>dseg h pv xs nx\<close>: the elements \<open>xs\<close> are linked in order, with \<open>pv\<close> before and \<open>nx\<close> after.\<close>

primrec dseg :: "llheap \<Rightarrow> ptr \<Rightarrow> ptr list \<Rightarrow> ptr \<Rightarrow> bool" where
  "dseg h pv [] nx \<longleftrightarrow> True"
| "dseg h pv (x # xs) nx \<longleftrightarrow>
     x \<noteq> NULL \<and> h x = Some \<lparr>Next = head_or nx xs, Prev = pv\<rparr> \<and> dseg h x xs nx"

definition dll :: "llheap \<Rightarrow> ptr list \<Rightarrow> bool" where
  "dll h xs \<longleftrightarrow> xs \<noteq> [] \<and> distinct xs \<and> dseg h NULL xs NULL"

lemma dseg_append [simp]:
  "dseg h pv (xs @ ys) nx \<longleftrightarrow> dseg h pv xs (head_or nx ys) \<and> dseg h (last_or pv xs) ys nx"
  by (induction xs arbitrary: pv) auto

lemma dseg_frame: "(\<And>x. x \<in> set xs \<Longrightarrow> h' x = h x) \<Longrightarrow> dseg h' pv xs nx = dseg h pv xs nx"
  by (induction xs arbitrary: pv) auto

lemma dseg_upd [simp]: "p \<notin> set xs \<Longrightarrow> dseg (h(p := v)) pv xs nx = dseg h pv xs nx"
  by (rule dseg_frame) auto

lemma dll_not_null: "dll h xs \<Longrightarrow> x \<in> set xs \<Longrightarrow> x \<noteq> NULL"
  by (auto simp: dll_def in_set_conv_decomp)

lemma dll_mapped: "dll h xs \<Longrightarrow> x \<in> set xs \<Longrightarrow> \<exists>e. h x = Some e"
  by (auto simp: dll_def in_set_conv_decomp)

lemma links_eq [simp]: "e\<lparr>Next := a, Prev := b\<rparr> = \<lparr>Next = a, Prev = b\<rparr>"
  by (cases e) simp

subsection \<open>What the walks return\<close>

lemma first_loop_seg:
  "dseg h pv (ys @ [x]) nx \<Longrightarrow> pv = NULL \<Longrightarrow> first_loop h x = ret (head_or x ys)"
proof (induction ys arbitrary: x nx rule: rev_induct)
  case Nil
  then show ?case by (simp add: first_loop.simps)
next
  case (snoc y ys)
  from snoc.IH [of y x] snoc.prems show ?case
    by (auto simp: first_loop.simps [of h x])
qed

lemma last_loop_seg:
  "dseg h pv (x # zs) NULL \<Longrightarrow> last_loop h x = ret (last_or x zs)"
proof (induction zs arbitrary: x pv)
  case Nil
  then show ?case by (simp add: last_loop.simps)
next
  case (Cons z zs)
  from Cons.IH [of x z] Cons.prems show ?case
    by (auto simp: last_loop.simps [of h x])
qed

lemma size_loop_seg:
  "dseg h pv (x # zs) NULL \<Longrightarrow> size_loop h x k = ret (k + of_nat (length zs))"
proof (induction zs arbitrary: x pv k)
  case Nil
  then show ?case by (simp add: size_loop.simps)
next
  case (Cons z zs)
  from Cons.IH [of x z] Cons.prems show ?case
    by (auto simp: size_loop.simps [of h x])
qed

lemma get_loop_seg:
  "dseg h pv (x # zs) NULL \<Longrightarrow> i \<le> index \<Longrightarrow>
   get_loop h x index i =
     ret (if unat index - unat i \<le> length zs then (x # zs) ! (unat index - unat i) else NULL)"
proof (induction zs arbitrary: x pv i)
  case Nil
  then show ?case by (auto simp: get_loop.simps [of h x] word_less_nat_alt word_le_nat_alt)
next
  case (Cons z zs)
  show ?case
  proof (cases "i < index")
    case True
    then have k: "unat index - unat i = Suc (unat index - unat (i + 1))"
      using unat_inc32 [OF True] by (simp add: word_less_nat_alt)
    from Cons.IH [of x z "i + 1"] Cons.prems True show ?thesis
      by (auto simp: get_loop.simps [of h x] k inc_le)
  next
    case False
    with Cons.prems show ?thesis by (simp add: get_loop.simps [of h x])
  qed
qed

lemma dll_split: assumes "dll h xs" "x \<in> set xs"
  obtains ys zs where "xs = ys @ x # zs" "dseg h NULL (ys @ [x]) (head_or NULL zs)"
    "dseg h (last_or NULL ys) (x # zs) NULL"
proof -
  from assms(2) obtain ys zs where "xs = ys @ x # zs" by (auto simp: in_set_conv_decomp)
  with assms(1) that show ?thesis by (auto simp: dll_def)
qed

lemma LListGetFirst_dll:
  assumes "dll h xs" "x \<in> set xs"
  shows "LListGetFirst h x = ret (hd xs)"
proof -
  obtain ys zs where xs: "xs = ys @ x # zs" and seg: "dseg h NULL (ys @ [x]) (head_or NULL zs)"
    using assms by (rule dll_split)
  from first_loop_seg [OF seg refl] dll_not_null [OF assms] show ?thesis
    by (cases ys) (simp_all add: LListGetFirst_def xs)
qed

lemma LListGetLast_dll:
  assumes "dll h xs" "x \<in> set xs"
  shows "LListGetLast h x = ret (last xs)"
proof -
  obtain ys zs where xs: "xs = ys @ x # zs" and seg: "dseg h (last_or NULL ys) (x # zs) NULL"
    using assms by (rule dll_split)
  from last_loop_seg [OF seg] dll_not_null [OF assms] show ?thesis
    by (simp add: LListGetLast_def xs last_or_def)
qed

lemma LListGetSize_dll:
  assumes "dll h (ys @ x # zs)"
  shows "LListGetSize h x = ret (of_nat (Suc (length zs)))"
proof -
  have "dseg h (last_or NULL ys) (x # zs) NULL" and "x \<noteq> NULL"
    using assms by (auto simp: dll_def)
  from size_loop_seg [OF this(1)] this(2) show ?thesis
    by (simp add: LListGetSize_def)
qed

lemma LListGet_dll:
  assumes "dll h xs" "x \<in> set xs" "index < 0xFFFFFFFF"
  shows "LListGet h x index = ret (if unat index < length xs then xs ! unat index else NULL)"
proof -
  obtain y ys where xs: "xs = y # ys" and "dseg h NULL (y # ys) NULL"
    using assms(1) by (cases xs) (auto simp: dll_def)
  from get_loop_seg [OF this(2), of 0 index] LListGetFirst_dll [OF assms(1,2)] dll_not_null [OF assms(1,2)]
    assms(3) show ?thesis
    by (simp add: LListGet_def xs less_Suc_eq_le)
qed

lemma LListPushBack_dll:
  assumes l: "dll h xs" "x \<in> set xs" and e: "e \<noteq> NULL" "e \<notin> set xs" "h e = Some le"
  shows "\<exists>h'. LListPushBack h x e = ret h' \<and> dll h' (xs @ [e]) \<and>
    (\<forall>a. a \<notin> {last xs, e} \<longrightarrow> h' a = h a)"
proof -
  define z where "z = last xs"
  have xs: "xs = butlast xs @ [z]" and zmem: "z \<in> set xs" using l by (auto simp: z_def dll_def)
  obtain ys where ys: "xs = ys @ [z]" using xs by blast
  have hz: "h z = Some \<lparr>Next = NULL, Prev = last_or NULL ys\<rparr>" "z \<noteq> NULL" "z \<noteq> e" "z \<notin> set ys"
    using l e ys by (auto simp: dll_def)
  let ?h = "h(e \<mapsto> \<lparr>Next = NULL, Prev = z\<rparr>, z \<mapsto> \<lparr>Next = e, Prev = last_or NULL ys\<rparr>)"
  have "LListPushBack h x e = ret ?h"
    using e hz LListGetLast_dll [OF l] dll_not_null [OF l]
    by (simp add: LListPushBack_def set_Next_def set_Prev_def ll_read_def z_def)
  moreover have "dll ?h (xs @ [e])"
    using l e hz by (simp add: dll_def ys)
  ultimately show ?thesis unfolding z_def [symmetric] by auto
qed

lemma LListPushFront_dll:
  assumes l: "dll h xs" "x \<in> set xs" and e: "e \<noteq> NULL" "e \<notin> set xs" "h e = Some le"
  shows "\<exists>h'. LListPushFront h x e = ret h' \<and> dll h' (e # xs) \<and>
    (\<forall>a. a \<notin> {hd xs, e} \<longrightarrow> h' a = h a)"
proof -
  obtain y ys where xs: "xs = y # ys" using l by (cases xs) auto
  have hy: "h y = Some \<lparr>Next = head_or NULL ys, Prev = NULL\<rparr>" "y \<noteq> NULL" "y \<noteq> e" "y \<notin> set ys"
    using l e xs by (auto simp: dll_def)
  let ?h = "h(e \<mapsto> \<lparr>Next = y, Prev = NULL\<rparr>, y \<mapsto> \<lparr>Next = head_or NULL ys, Prev = e\<rparr>)"
  have "LListPushFront h x e = ret ?h"
    using e hy LListGetFirst_dll [OF l] dll_not_null [OF l]
    by (simp add: LListPushFront_def set_Next_def set_Prev_def ll_read_def xs)
  moreover have "dll ?h (e # xs)"
    using l e hy by (simp add: dll_def xs)
  ultimately show ?thesis by (auto simp: xs)
qed

lemma LListPopFront_dll:
  assumes l: "dll h (y # z # xs)" "x \<in> set (y # z # xs)"
  shows "\<exists>h'. LListPopFront h x = ret (y, h') \<and> dll h' (z # xs) \<and> (\<forall>a. a \<noteq> z \<longrightarrow> h' a = h a)"
proof -
  let ?h = "h(z \<mapsto> \<lparr>Next = head_or NULL xs, Prev = NULL\<rparr>)"
  have "LListPopFront h x = ret (y, ?h)"
    using l LListGetFirst_dll [OF l] dll_not_null [OF l]
    by (simp add: LListPopFront_def set_Prev_def ll_read_def dll_def)
  moreover have "dll ?h (z # xs)"
    using l by (simp add: dll_def)
  ultimately show ?thesis by auto
qed

lemma LListPopBack_dll:
  assumes l: "dll h (xs @ [y, z])" "x \<in> set (xs @ [y, z])"
  shows "\<exists>h'. LListPopBack h x = ret (z, h') \<and> dll h' (xs @ [y]) \<and> (\<forall>a. a \<noteq> y \<longrightarrow> h' a = h a)"
proof -
  let ?h = "h(y \<mapsto> \<lparr>Next = NULL, Prev = last_or NULL xs\<rparr>)"
  have "LListPopBack h x = ret (z, ?h)"
    using l LListGetLast_dll [OF l] dll_not_null [OF l]
    by (simp add: LListPopBack_def set_Next_def ll_read_def dll_def)
  moreover have "dll ?h (xs @ [y])"
    using l by (simp add: dll_def)
  ultimately show ?thesis by auto
qed
lemma LListPop_singleton:
  assumes "dll h [x]" "h NULL = None"
  shows "LListPopFront h x = Some (Inl (BadAccess NULL))" "LListPopBack h x = Some (Inl (BadAccess NULL))"
  using assms LListGetFirst_dll [OF assms(1), of x] LListGetLast_dll [OF assms(1), of x]
  by (auto simp: LListPopFront_def LListPopBack_def set_Prev_def set_Next_def ll_read_def dll_def)

subsection \<open>Registries\<close>

text \<open>
  The file systems, the devices, the processes and the threads of a process are each kept in a
  list with a head variable. All four are extended by the same code: clear the links of the new
  entry, then make it the head or append it.
\<close>

definition list_add :: "llheap \<Rightarrow> ptr \<Rightarrow> ptr \<Rightarrow> (llheap \<times> ptr) run" where
  "list_add h head entry =
     (let h1 = h(entry \<mapsto> \<lparr>Next = NULL, Prev = NULL\<rparr>) in
      if head = NULL then ret (h1, entry)
      else mbind (LListPushBack h1 head entry) (\<lambda>h2. ret (h2, head)))"

fun add_all :: "('h \<Rightarrow> ptr \<Rightarrow> 'p \<Rightarrow> ('h \<times> ptr) run) \<Rightarrow> 'h \<Rightarrow> ptr \<Rightarrow> 'p list \<Rightarrow> ('h \<times> ptr) run" where
  "add_all add h head [] = ret (h, head)"
| "add_all add h head (e # es) = mbind (add h head e) (\<lambda>(h1, head1). add_all add h1 head1 es)"

text \<open>
  What a client of a registry relies on: \<open>elems h head xs\<close> is the abstraction to the list of
  registered entries, an addition appends a new entry and touches no cell outside the registry.
\<close>

locale registry =
  fixes add :: "('p \<rightharpoonup> 'c) \<Rightarrow> ptr \<Rightarrow> 'p \<Rightarrow> (('p \<rightharpoonup> 'c) \<times> ptr) run"
    and elems :: "('p \<rightharpoonup> 'c) \<Rightarrow> ptr \<Rightarrow> 'p list \<Rightarrow> bool"
    and null :: 'p
  assumes empty: "elems h NULL []"
    and add: "elems h head xs \<Longrightarrow> e \<noteq> null \<Longrightarrow> e \<notin> set xs \<Longrightarrow>
      \<exists>h' head'. add h head e = ret (h', head') \<and> elems h' head' (xs @ [e])"
    and add_frame: "elems h head xs \<Longrightarrow> add h head e = ret (h', head') \<Longrightarrow> e \<noteq> null \<Longrightarrow>
      e \<notin> set xs \<Longrightarrow> a \<notin> set xs \<Longrightarrow> a \<noteq> e \<Longrightarrow> h' a = h a"
    and elems_frame: "elems h head xs \<Longrightarrow> (\<And>a. a \<in> set xs \<Longrightarrow> h' a = h a) \<Longrightarrow> elems h' head xs"
begin

lemma add_other:
  assumes "elems h head xs" "elems h head2 ys" "set xs \<inter> set ys = {}"
    and "e \<noteq> null" "e \<notin> set xs" "e \<notin> set ys" "add h head e = ret (h', head')"
  shows "elems h' head' (xs @ [e]) \<and> elems h' head2 ys"
proof
  show "elems h' head' (xs @ [e])" using add [OF assms(1,4,5)] assms(7) by auto
  show "elems h' head2 ys"
  proof (rule elems_frame [OF assms(2)])
    fix a assume "a \<in> set ys"
    with assms show "h' a = h a" by (intro add_frame [OF assms(1,7,4,5)]) auto
  qed
qed

lemma add_all_elems:
  "elems h head xs \<Longrightarrow> distinct (xs @ es) \<Longrightarrow> null \<notin> set es \<Longrightarrow>
    \<exists>h' head'. add_all add h head es = ret (h', head') \<and> elems h' head' (xs @ es)"
proof (induction es arbitrary: h head xs)
  case Nil
  then show ?case by simp
next
  case (Cons e es)
  then obtain h1 head1 where 1: "add h head e = ret (h1, head1)" and "elems h1 head1 (xs @ [e])"
    using add [of h head xs e] by auto
  from Cons.IH [OF this(2)] Cons.prems show ?case by (simp add: 1)
qed

end

definition registered :: "llheap \<Rightarrow> ptr \<Rightarrow> ptr list \<Rightarrow> bool" where
  "registered h head xs \<longleftrightarrow> (if xs = [] then head = NULL else head = hd xs \<and> dll h xs)"

lemma dseg_unique:
  "dseg h pv xs NULL \<Longrightarrow> dseg h qv ys NULL \<Longrightarrow> head_or NULL xs = head_or NULL ys \<Longrightarrow> xs = ys"
proof (induction xs arbitrary: pv qv ys)
  case Nil
  then show ?case by (cases ys) auto
next
  case (Cons x xs)
  then show ?case by (cases ys) auto
qed

lemma registered_unique: "registered h head xs \<Longrightarrow> registered h head ys \<Longrightarrow> xs = ys"
proof -
  have "registered h head zs \<Longrightarrow> dseg h NULL zs NULL \<and> head_or NULL zs = head" for zs
    by (cases zs) (auto simp: registered_def dll_def)
  then show "registered h head xs \<Longrightarrow> registered h head ys \<Longrightarrow> xs = ys" by (metis dseg_unique)
qed

lemma list_add_registered:
  assumes "registered h head xs" "e \<noteq> NULL" "e \<notin> set xs"
  shows "\<exists>h' head'. list_add h head e = ret (h', head') \<and> registered h' head' (xs @ [e]) \<and>
    (\<forall>a. a \<notin> set xs \<and> a \<noteq> e \<longrightarrow> h' a = h a)"
proof (cases "xs = []")
  case True
  with assms show ?thesis by (simp add: list_add_def Let_def registered_def dll_def)
next
  case False
  let ?h = "h(e \<mapsto> \<lparr>Next = NULL, Prev = NULL\<rparr>)"
  have d: "dll ?h xs" and mem: "head \<in> set xs"
    using assms False by (auto simp: registered_def dll_def)
  obtain h' where "LListPushBack ?h head e = ret h'" "dll h' (xs @ [e])"
    "\<forall>a. a \<notin> {last xs, e} \<longrightarrow> h' a = ?h a"
    using LListPushBack_dll [OF d mem assms(2,3)] by auto
  moreover have notlast: "a \<noteq> last xs" if "a \<notin> set xs" for a using that False by auto
  ultimately show ?thesis
    using assms False dll_not_null [OF d mem] notlast
    by (auto simp: list_add_def Let_def registered_def intro!: exI [of _ h'])
qed

interpretation reg: registry list_add registered NULL
proof (unfold_locales, goal_cases)
  case (2 h head xs e)
  then show ?case using list_add_registered by blast
next
  case (3 h head xs e h' head' a)
  then show ?case using list_add_registered [OF 3(1,3,4)] by auto
next
  case (4 h head xs h')
  then have "dseg h' NULL xs NULL = dseg h NULL xs NULL" by (intro dseg_frame) auto
  with 4 show ?case by (simp add: registered_def dll_def split: if_splits)
qed (simp add: registered_def)

subsection \<open>Properties\<close>

text \<open>
  C20. \<open>LListPushBack\<close> and \<open>LListPushFront\<close> refine appending and prepending: called with any
  element of a list and a new element, they return, the elements then form the extended list,
  and only the new element and its neighbour are written.
\<close>

theorem push_refines_list_insertion:
  assumes "dll h xs" "x \<in> set xs" "e \<noteq> NULL" "e \<notin> set xs" "h e = Some le"
  shows "(\<exists>h'. LListPushBack h x e = ret h' \<and> dll h' (xs @ [e]) \<and>
            (\<forall>a. a \<notin> {last xs, e} \<longrightarrow> h' a = h a)) \<and>
    (\<exists>h'. LListPushFront h x e = ret h' \<and> dll h' (e # xs) \<and>
            (\<forall>a. a \<notin> {hd xs, e} \<longrightarrow> h' a = h a))"
  using LListPushBack_dll [OF assms] LListPushFront_dll [OF assms] by blast

theorem push_refines_list_insertion_witness:
  "\<exists>h'. LListPushBack [16 \<mapsto> \<lparr>Next = 32, Prev = 0\<rparr>, 32 \<mapsto> \<lparr>Next = 0, Prev = 16\<rparr>,
      48 \<mapsto> \<lparr>Next = 7, Prev = 7\<rparr>] 16 48 = ret h' \<and> dll h' [16, 32, 48]"
proof -
  let ?h = "[16 \<mapsto> \<lparr>Next = 32, Prev = 0\<rparr>, 32 \<mapsto> \<lparr>Next = 0, Prev = 16\<rparr>,
      48 \<mapsto> \<lparr>Next = 7, Prev = 7\<rparr>] :: llheap"
  have "dll ?h [16, 32]" by (simp add: dll_def)
  from push_refines_list_insertion [OF this, of 16 48] show ?thesis by auto
qed

text \<open>
  C27. On a list of two or more elements \<open>LListPopFront\<close> and \<open>LListPopBack\<close> return the first
  and the last element and leave the rest a list. On a list of one element both dereference
  \<open>NULL\<close> (the neighbour that is not there), so the last element can never be removed.
\<close>

theorem pop_removes_an_end_unless_singleton:
  shows "(dll h (y # z # xs) \<and> x \<in> set (y # z # xs) \<longrightarrow>
      (\<exists>h'. LListPopFront h x = ret (y, h') \<and> dll h' (z # xs)) \<and>
      (\<exists>h'. LListPopBack h x = ret (last (z # xs), h') \<and> dll h' (y # butlast (z # xs)))) \<and>
    (dll g [u] \<and> g NULL = None \<longrightarrow>
      LListPopFront g u = Some (Inl (BadAccess NULL)) \<and>
      LListPopBack g u = Some (Inl (BadAccess NULL)))"
proof (intro conjI impI)
  assume l: "dll h (y # z # xs) \<and> x \<in> set (y # z # xs)"
  then show "\<exists>h'. LListPopFront h x = ret (y, h') \<and> dll h' (z # xs)"
    using LListPopFront_dll [of h y z xs x] by blast
  obtain ys a b where eq: "y # z # xs = ys @ [a, b]"
    by (metis append.assoc append_Cons append_Nil append_butlast_last_id list.distinct(1)
        butlast.simps(2))
  then have "y # butlast (z # xs) = ys @ [a]" "last (z # xs) = b"
    by (metis butlast.simps(2) butlast_append butlast_snoc append.assoc append_Cons append_Nil
        list.distinct(1), metis last.simps last_append last_snoc list.distinct(1) append_Cons append_Nil)
  with LListPopBack_dll [of h ys a b x] l eq
  show "\<exists>h'. LListPopBack h x = ret (last (z # xs), h') \<and> dll h' (y # butlast (z # xs))"
    by auto
qed (simp_all add: LListPop_singleton)

theorem pop_removes_an_end_unless_singleton_witness:
  "\<exists>h'. LListPopBack [16 \<mapsto> \<lparr>Next = 32, Prev = 0\<rparr>, 32 \<mapsto> \<lparr>Next = 0, Prev = 16\<rparr>] 16 = ret (32, h')
     \<and> dll h' [16]"
proof -
  let ?h = "[16 \<mapsto> \<lparr>Next = 32, Prev = 0\<rparr>, 32 \<mapsto> \<lparr>Next = 0, Prev = 16\<rparr>] :: llheap"
  have "dll ?h [16, 32]" by (simp add: dll_def)
  with pop_removes_an_end_unless_singleton [of ?h 16 32 "[]" 16 Map.empty 0] show ?thesis by auto
qed

text \<open>
  What is registered is what is read: entries added one after the other to an empty
  registry are found by \<open>LListGet\<close> at their positions (and \<open>NULL\<close> past the end),
  \<open>LListGetSize\<close> of the head is their number, and \<open>LListGetLast\<close> is the entry added last.
\<close>

lemma registry_reads_back:
  assumes "distinct es" "NULL \<notin> set es" "es \<noteq> []"
  shows "\<exists>h' head. add_all list_add h NULL es = ret (h', head) \<and>
    LListGetSize h' head = ret (of_nat (length es)) \<and> LListGetLast h' head = ret (last es) \<and>
    (\<forall>i. i < 0xFFFFFFFF \<longrightarrow>
       LListGet h' head i = ret (if unat i < length es then es ! unat i else NULL))"
proof -
  obtain h' head where "add_all list_add h NULL es = ret (h', head)" "registered h' head es"
    using reg.add_all_elems [OF reg.empty, of es h] assms by auto
  moreover from this(2) assms have "dll h' es" "head = hd es" "head \<in> set es"
    by (auto simp: registered_def)
  moreover obtain e es' where "es = e # es'" using assms by (cases es) auto
  ultimately show ?thesis
    using LListGetSize_dll [of h' "[]" e es'] LListGetLast_dll [of h' es head]
      LListGet_dll [of h' es head]
    by (intro exI [of _ h'] exI [of _ head]) auto
qed

lemma registry_reads_back_witness:
  "\<exists>h' head. add_all list_add Map.empty NULL [16, 48, 32] = ret (h', head) \<and>
     LListGet h' head 1 = ret 48"
  using registry_reads_back [of "[16, 48, 32]" Map.empty] by fastforce

end
