(* ===== verification/Vfs.thy ===== *)
theory Vfs
  imports RamDisk LinkedList
begin

text \<open>
  The registry of filesystems (\<open>kernel/src/Vfs/Vfs.c\<close>). List entries carry their links in the
  element heap \<open>links\<close>, shared by all the kernel's lists, and what they point to in a map of
  their own. The one \<open>CreateCallback\<close> of the kernel is that of devfs.
\<close>

datatype fs_callback = DevfsCreateInst_cb

record VfsFilesystemInfo =
  Name :: ptr
  CreateCallback :: "fs_callback option"

record vfs_state = ramdisk_state +
  links :: llheap
  VfsFsList :: ptr
  Filesystem :: "ptr \<Rightarrow> ptr"               \<comment> \<open>\<open>VfsFilesystemEntry.Filesystem\<close>, by entry\<close>
  fs_info :: "ptr \<Rightarrow> VfsFilesystemInfo"

subsection \<open>Operations\<close>

definition VfsInit :: "'z vfs_state_scheme \<Rightarrow> 'z vfs_state_scheme" where
  "VfsInit s = s"

partial_function (option) get_fs_loop :: "'z vfs_state_scheme \<Rightarrow> ptr \<Rightarrow> ptr \<Rightarrow> ptr run" where
  "get_fs_loop s fsName entry =
     (case strcmp (bmem s) (Name (fs_info s (Filesystem s entry))) fsName of
        None \<Rightarrow> None
      | Some (Inl e) \<Rightarrow> Some (Inl e)
      | Some (Inr c) \<Rightarrow>
          if c \<noteq> 0 then
            (case links s entry of
               None \<Rightarrow> Some (Inl (BadAccess entry))
             | Some e \<Rightarrow> if Next e = NULL then ret NULL else get_fs_loop s fsName (Next e))
          else ret (Filesystem s entry))"

definition VfsGetFilesystem :: "ptr \<Rightarrow> 'z vfs_state_scheme \<Rightarrow> ptr run" where
  "VfsGetFilesystem fsName s = (if VfsFsList s = NULL then ret NULL else get_fs_loop s fsName (VfsFsList s))"

definition VfsIsFsRegistered :: "ptr \<Rightarrow> 'z vfs_state_scheme \<Rightarrow> bool run" where
  "VfsIsFsRegistered name s = mbind (VfsGetFilesystem name s) (\<lambda>info. ret (info \<noteq> NULL))"

definition VfsRegisterFilesystem :: "image \<Rightarrow> ptr \<Rightarrow> 'z vfs_state_scheme \<Rightarrow> 'z vfs_state_scheme run" where
  "VfsRegisterFilesystem I info s =
     mbind (KAssert (info \<noteq> NULL) ''info != NULL'') (\<lambda>_.
     mbind (VfsIsFsRegistered (Name (fs_info s info)) s) (\<lambda>registered.
     mbind (KAssert (\<not> registered) ''!VfsIsFsRegistered(info->Name)'') (\<lambda>_.
     mbind (malloc (lk I) 12 s) (\<lambda>(entry, s).
     mbind (KAssert (entry \<noteq> NULL) ''entry != NULL'') (\<lambda>_.
     let s = s\<lparr>Filesystem := (Filesystem s)(entry := info)\<rparr> in
     mbind (list_add (links s) (VfsFsList s) entry) (\<lambda>(h, head).
     kprintf ''[Vfs] Registered filesystem `%s`\<newline>'' [Name (fs_info s info)] (s\<lparr>links := h, VfsFsList := head\<rparr>)))))))"

text \<open>Calling the callback of a filesystem: \<open>DevfsCreateInst\<close> returns its one instance.\<close>

definition DevfsCreateInst :: "image \<Rightarrow> ptr \<Rightarrow> ptr" where
  "DevfsCreateInst I device = addr_DevfsInstance I"

definition VfsCreateInstance :: "image \<Rightarrow> ptr \<Rightarrow> ptr \<Rightarrow> 'z vfs_state_scheme \<Rightarrow> ptr run" where
  "VfsCreateInstance I fsName stream s =
     mbind (KAssert (fsName \<noteq> NULL) ''fsName != NULL'') (\<lambda>_.
     mbind (VfsGetFilesystem fsName s) (\<lambda>info.
     mbind (KAssert (info \<noteq> NULL) ''info != NULL'') (\<lambda>_.
     (case CreateCallback (fs_info s info) of
        Some DevfsCreateInst_cb \<Rightarrow> ret (DevfsCreateInst I stream)
      | None \<Rightarrow> Some (Inl (BadAccess NULL))))))"

subsection \<open>The registry as an association list\<close>

text \<open>
  The registered filesystems, in order, as pairs of the name and the address of the information;
  \<open>es\<close> are the addresses of the list entries.
\<close>

definition fs_entries :: "linker \<Rightarrow> 'z vfs_state_scheme \<Rightarrow> ptr list \<Rightarrow> (u8 list \<times> ptr) list \<Rightarrow> bool" where
  "fs_entries L s es fs \<longleftrightarrow> registered (links s) (VfsFsList s) es \<and>
     list_all2 (\<lambda>e (name, info). owned L s e \<and> e \<noteq> NULL \<and> Filesystem s e = info \<and> info \<noteq> NULL \<and>
        text_at L s (Name (fs_info s info)) name) es fs"

definition find_fs :: "(u8 list \<times> ptr) list \<Rightarrow> u8 list \<Rightarrow> ptr" where
  "find_fs fs q = (case map_of fs q of None \<Rightarrow> NULL | Some info \<Rightarrow> info)"

lemma get_fs_loop_seg:
  assumes "dseg (links s) pv es NULL" "es \<noteq> []" "NULL \<notin> set es"
    and "list_all2 (\<lambda>e (name, info). Filesystem s e = info \<and> cstr (bmem s) (Name (fs_info s info)) name) es fs"
    and "cstr (bmem s) q str"
  shows "get_fs_loop s q (hd es) = ret (find_fs fs str)"
  using assms
proof (induction es arbitrary: fs pv)
  case (Cons e es)
  obtain name info fs' where fs: "fs = (name, info) # fs'" "Filesystem s e = info"
    "cstr (bmem s) (Name (fs_info s info)) name"
    using Cons.prems(4) by (cases fs) auto
  have cmp: "strcmp (bmem s) (Name (fs_info s info)) q = ret (strcmp_spec name str)"
    by (rule strcmp_cstr [OF fs(3) Cons.prems(5)])
  have link: "links s e = Some \<lparr>Next = head_or NULL es, Prev = pv\<rparr>" "dseg (links s) e es NULL"
    using Cons.prems(1) by auto
  show ?case
  proof (cases "name = str")
    case True
    then show ?thesis
      by (subst get_fs_loop.simps) (simp add: fs cmp [unfolded ret_def] strcmp_spec_eq_0 find_fs_def)
  next
    case False
    show ?thesis
    proof (cases es)
      case Nil
      then have "fs' = []" using Cons.prems(4) fs(1) by simp
      with False Nil link show ?thesis
        by (subst get_fs_loop.simps) (simp add: fs cmp [unfolded ret_def] strcmp_spec_eq_0 find_fs_def)
    next
      case (Cons e' es')
      then have "get_fs_loop s q (hd es) = ret (find_fs fs' str)"
        using Cons.prems(3-5) fs(1) link(2) by (intro Cons.IH [of e fs']) auto
      moreover have "e' \<noteq> NULL" using Cons.prems(3) Cons by auto
      ultimately show ?thesis
        using False Cons link by (subst get_fs_loop.simps)
          (simp add: fs cmp [unfolded ret_def] strcmp_spec_eq_0 find_fs_def)
    qed
  qed
qed simp

lemma owned_vfs [simp]:
  "owned L (s\<lparr>links := h\<rparr>) = owned L s" "owned L (s\<lparr>VfsFsList := p\<rparr>) = owned L s"
  "owned L (s\<lparr>Filesystem := f\<rparr>) = owned L s" "owned L (s\<lparr>fs_info := g\<rparr>) = owned L s"
  by (simp_all add: owned_def [abs_def] kpt_def)

lemma VfsGetFilesystem_finds:
  assumes "fs_entries L s es fs" "cstr (bmem s) q str"
  shows "VfsGetFilesystem q s = ret (find_fs fs str)"
proof (cases "es = []")
  case True
  with assms(1) show ?thesis by (simp add: fs_entries_def registered_def VfsGetFilesystem_def find_fs_def)
next
  case False
  have "dll (links s) es" "VfsFsList s = hd es" using assms(1) False by (simp_all add: fs_entries_def registered_def)
  moreover have "NULL \<notin> set es" using dll_not_null [OF \<open>dll (links s) es\<close>] by auto
  moreover have "list_all2 (\<lambda>e (name, info). Filesystem s e = info \<and> cstr (bmem s) (Name (fs_info s info)) name) es fs"
    using assms(1) by (auto simp: fs_entries_def text_at_def elim!: list_all2_mono)
  moreover have "VfsFsList s \<noteq> NULL" using calculation hd_in_set [OF False] by auto
  ultimately show ?thesis
    using get_fs_loop_seg [of s NULL es fs q str] assms(2) False
    by (auto simp: VfsGetFilesystem_def dll_def ret_def)
qed

lemma find_fs_NULL: "fs_entries L s es fs \<Longrightarrow> find_fs fs str = NULL \<longleftrightarrow> str \<notin> fst ` set fs"
proof -
  assume "fs_entries L s es fs"
  then have "NULL \<notin> snd ` set fs"
    unfolding fs_entries_def
  proof (elim conjE)
    show "list_all2 (\<lambda>e (name, info). owned L s e \<and> e \<noteq> NULL \<and> Filesystem s e = info \<and> info \<noteq> NULL \<and>
        text_at L s (Name (fs_info s info)) name) es fs \<Longrightarrow> NULL \<notin> snd ` set fs"
      by (induction rule: list_all2_induct) auto
  qed
  then show ?thesis
  proof (cases "map_of fs str")
    case None
    then have "str \<notin> fst ` set fs" using map_of_eq_None_iff by fastforce
    moreover have "find_fs fs str = NULL" by (simp add: find_fs_def None)
    ultimately show ?thesis by blast
  next
    case (Some a)
    then have "(str, a) \<in> set fs" by (rule map_of_SomeD)
    then have "str \<in> fst ` set fs" "a \<in> snd ` set fs" by force+
    with Some \<open>NULL \<notin> snd ` set fs\<close> show ?thesis by (auto simp: find_fs_def)
  qed
qed

text \<open>Registration, with what it leaves alone.\<close>

lemma VfsRegisterFilesystem_cases:
  assumes "fs_entries (lk I) s es fs" "heap_ready (lk I) s" "room (lk I) s (Suc k)"
    and "info \<noteq> NULL" "text_at (lk I) s (Name (fs_info s info)) name"
  shows "if name \<in> fst ` set fs
    then VfsRegisterFilesystem I info s = panic ''Assertion failed: !VfsIsFsRegistered(info->Name)''
    else \<exists>s' e. VfsRegisterFilesystem I info s = ret s' \<and> fs_entries (lk I) s' (es @ [e]) (fs @ [(name, info)]) \<and>
      heap_ready (lk I) s' \<and> room (lk I) s' k \<and> keeps (lk I) s s' \<and>
      (\<forall>q str. text_at (lk I) s q str \<longrightarrow> VfsGetFilesystem q s' = ret (find_fs (fs @ [(name, info)]) str)) \<and>
      vfs_state.more s' = vfs_state.more s \<and> fs_info s' = fs_info s \<and> same_drivers s s' \<and> (\<forall>a. owned (lk I) s a \<longrightarrow> owned (lk I) s' a) \<and>
      \<not> owned (lk I) s e \<and> (\<forall>a. a \<notin> set es \<and> a \<noteq> e \<longrightarrow> links s' a = links s a)"
proof -
  have get: "VfsIsFsRegistered (Name (fs_info s info)) s = ret (name \<in> fst ` set fs)"
    using VfsGetFilesystem_finds [OF assms(1), of "Name (fs_info s info)" name] find_fs_NULL [OF assms(1), of name] assms(5)
    by (simp add: VfsIsFsRegistered_def text_at_def)
  show ?thesis
  proof (cases "name \<in> fst ` set fs")
    case True
    with get assms(4) show ?thesis by (simp add: VfsRegisterFilesystem_def)
  next
    case False
    have sm: "small 12" by (simp add: small_def)
    obtain e s1 where m: "malloc (lk I) 12 s = ret (e, s1)" "e \<noteq> NULL" "room (lk I) s1 k" "heap_ready (lk I) s1"
      "same_outside s s1" "\<forall>a. in_range a e (unat (12 :: u32)) \<longrightarrow> \<not> owned (lk I) s a \<and> owned (lk I) s1 a"
      "\<forall>a. owned (lk I) s a \<longrightarrow> owned (lk I) s1 a \<and> bmem s1 a = bmem s a"
      using malloc_with_room [OF assms(2) sm assms(3)] by (elim exE conjE)
    note kp = malloc_keeps(1) [OF assms(2) small_fits [OF sm] m(1)]
    have same: "links s1 = links s" "VfsFsList s1 = VfsFsList s" "Filesystem s1 = Filesystem s" "fs_info s1 = fs_info s"
      "vfs_state.more s1 = vfs_state.more s"
      using m(5) by (cases s1, cases s, simp add: same_outside_def)+
    have e: "\<not> owned (lk I) s e" "owned (lk I) s1 e" using m(6) by (auto simp: in_range_def)
    have "e \<notin> set es"
      using assms(1) e(1) by (auto simp: fs_entries_def list_all2_conv_all_nth in_set_conv_nth)
    then obtain h head where add: "list_add (links s) (VfsFsList s) e = ret (h, head)" "registered h head (es @ [e])"
      "\<forall>a. a \<notin> set es \<and> a \<noteq> e \<longrightarrow> h a = links s a"
      using list_add_registered [of "links s" "VfsFsList s" es e] assms(1) m(2) by (auto simp: fs_entries_def)
    let ?s = "s1\<lparr>Filesystem := (Filesystem s1)(e := info), links := h, VfsFsList := head\<rparr>"
    have "text_at (lk I) s1 (Name (fs_info s info)) name" by (rule text_at_keeps [OF kp assms(5)])
    then obtain t where t: "kprintf ''[Vfs] Registered filesystem `%s`\<newline>'' [Name (fs_info s info)] ?s = ret (?s\<lparr>console := t\<rparr>)"
      using kprintf_format [of "''[Vfs] Registered filesystem `%s`\<newline>''" "[Text name]" _ ?s "[Name (fs_info s info)]"]
      by (auto simp: text_at_def ascii_def)
    let ?s' = "?s\<lparr>console := t\<rparr>"
    have "same_mem s1 ?s'" by (simp add: same_mem_def)
    note f = same_mem_frame [OF this]
    have k': "keeps (lk I) s ?s'" by (rule keeps_trans [OF kp f(6)])
    have r: "VfsRegisterFilesystem I info s = ret ?s'"
      using get False assms(4) m(1,2) add(1) t by (simp add: VfsRegisterFilesystem_def same Let_def)
    have "list_all2 (\<lambda>e' (name, info'). owned (lk I) ?s' e' \<and> e' \<noteq> NULL \<and> Filesystem ?s' e' = info' \<and> info' \<noteq> NULL \<and>
        text_at (lk I) ?s' (Name (fs_info ?s' info')) name) es fs"
    proof (rule list_all2_mono)
      show "list_all2 (\<lambda>e' (name, info'). (owned (lk I) s e' \<and> e' \<noteq> NULL \<and> Filesystem s e' = info' \<and> info' \<noteq> NULL \<and>
        text_at (lk I) s (Name (fs_info s info')) name)) es fs" using assms(1) by (simp add: fs_entries_def)
    qed (use m(7) e(1) text_at_keeps [OF k'] in \<open>auto simp: f(3) same\<close>)
    moreover have "text_at (lk I) ?s' (Name (fs_info s info)) name" by (rule text_at_keeps [OF k' assms(5)])
    ultimately have fe: "fs_entries (lk I) ?s' (es @ [e]) (fs @ [(name, info)])"
      using add(2) m(2) e(2) assms(4) by (auto simp: fs_entries_def f(3) same intro!: list_all2_appendI)
    have look: "VfsGetFilesystem q ?s' = ret (find_fs (fs @ [(name, info)]) str)" if "text_at (lk I) s q str" for q str
      by (rule VfsGetFilesystem_finds [OF fe]) (use text_at_keeps [OF k' that] in \<open>simp add: text_at_def\<close>)
    have "heap_ready (lk I) ?s'" "room (lk I) ?s' k" using m(3,4) by (simp_all only: f)
    moreover have "vfs_state.more ?s' = vfs_state.more s" "\<forall>a. a \<notin> set es \<and> a \<noteq> e \<longrightarrow> links ?s' a = links s a"
      "fs_info ?s' = fs_info s"
      using same(4,5) add(3) by simp_all
    moreover have "same_drivers s ?s'" using same_outside_drivers [OF m(5)] by (simp add: same_drivers_def)
    moreover have "\<forall>a. owned (lk I) s a \<longrightarrow> owned (lk I) ?s' a" using m(7) unfolding f(3) by blast
    ultimately show ?thesis using False r fe k' look e(1) by auto
  qed
qed

text \<open>
  C21. The registry of filesystems behaves as a map from names. While memory lasts, registering
  information under a name that is taken panics; under a new name it returns, and from then on
  every name, wherever its characters are, is looked up in the list extended by the new pair,
  unknown names giving \<open>NULL\<close>. Strings and other objects in memory are left alone.
\<close>

theorem filesystem_registry_is_a_map:
  assumes "fs_entries (lk I) s es fs" "heap_ready (lk I) s" "room (lk I) s (Suc k)"
    and "info \<noteq> NULL" "text_at (lk I) s (Name (fs_info s info)) name"
  shows "if name \<in> fst ` set fs
    then VfsRegisterFilesystem I info s = panic ''Assertion failed: !VfsIsFsRegistered(info->Name)''
    else \<exists>s' e. VfsRegisterFilesystem I info s = ret s' \<and> fs_entries (lk I) s' (es @ [e]) (fs @ [(name, info)]) \<and>
      heap_ready (lk I) s' \<and> room (lk I) s' k \<and> keeps (lk I) s s' \<and>
      (\<forall>q str. text_at (lk I) s q str \<longrightarrow> VfsGetFilesystem q s' = ret (find_fs (fs @ [(name, info)]) str))"
  using VfsRegisterFilesystem_cases [OF assms] by (auto split: if_splits intro: exI)

text \<open>A machine with no filesystems, and one whose name is the \<open>devfs\<close> at \<open>0xE0003030\<close>.\<close>

definition vfs_machine :: vfs_state where
  "vfs_machine = ramdisk_state.extend (disk_machine\<lparr>RamDiskCount := 0,
       bmem := (\<lambda>a. if a = 0xE0003030 then 100 else 0)\<rparr>)
     (vfs_state.fields Map.empty NULL (\<lambda>_. NULL) (\<lambda>_. \<lparr>Name = 0xE0003030, CreateCallback = Some DevfsCreateInst_cb\<rparr>))"

lemmas vfs_machine_defs = vfs_machine_def machine_defs vfs_state.defs

lemma vfs_machine_fresh: "fresh vfs_machine"
  by (simp add: fresh_def vfs_machine_defs empty_heap_def)

lemma vfs_machine_simps [simp]:
  "links vfs_machine = Map.empty" "VfsFsList vfs_machine = NULL" "bmem vfs_machine = (\<lambda>a. if a = 0xE0003030 then 100 else 0)"
  "fs_info vfs_machine = (\<lambda>_. \<lparr>Name = 0xE0003030, CreateCallback = Some DevfsCreateInst_cb\<rparr>)"
  by (simp_all add: vfs_machine_defs)

theorem filesystem_registry_is_a_map_witness:
  "\<exists>s'. VfsRegisterFilesystem driver_image 0xE00A2000 vfs_machine = ret s' \<and>
     VfsGetFilesystem 0xE0003030 s' = ret 0xE00A2000"
proof -
  have lk: "lk driver_image = sample_image" by (simp add: driver_image_def)
  have e: "fs_entries (lk driver_image) vfs_machine [] []" by (simp add: fs_entries_def registered_def)
  have t: "text_at (lk driver_image) vfs_machine 0xE0003030 [100]"
  proof -
    have "settled sample_image vfs_machine 0xE0003030" "settled sample_image vfs_machine 0xE0003031"
      by (simp_all add: settled_def KERNEL_PAGES_def)
    moreover have "i = 0 \<or> i = 1" if "i \<le> Suc 0" for i using that by auto
    ultimately have "settled sample_image vfs_machine (0xE0003030 + of_nat i)" if "i \<le> Suc 0" for i
      using that by fastforce
    then show ?thesis by (simp add: text_at_def lk)
  qed
  have r: "heap_ready (lk driver_image) vfs_machine" "room (lk driver_image) vfs_machine (Suc 0)"
    unfolding lk by (rule fresh_ready [OF vfs_machine_fresh], rule fresh_room [OF vfs_machine_fresh]) simp
  have t': "text_at (lk driver_image) vfs_machine (Name (fs_info vfs_machine 0xE00A2000)) [100]" using t by simp
  obtain s' where "VfsRegisterFilesystem driver_image 0xE00A2000 vfs_machine = ret s'"
    "\<forall>q str. text_at (lk driver_image) vfs_machine q str \<longrightarrow>
        VfsGetFilesystem q s' = ret (find_fs ([] @ [([100], 0xE00A2000)]) str)"
    using filesystem_registry_is_a_map [OF e r _ t'] by auto
  with t show ?thesis by (auto simp: find_fs_def)
qed

end
