(* ===== verification/Devfs.thy ===== *)
theory Devfs
  imports Vfs
begin

unbundle bit_operations_syntax

text \<open>
  The device filesystem (\<open>kernel/src/Vfs/Devfs.c\<close>, \<open>Devfs.h\<close> and the inode structures of
  \<open>Vfs.h\<close>), and the part of \<open>TTYInit\<close> that registers the console with it. The array of children
  is kept in the byte memory, since \<open>realloc\<close> moves it; inodes and list entries are typed maps.
\<close>

datatype VfsInodeType = VFS_INODE_NORMAL | VFS_INODE_DIRECTORY | VFS_INODE_BLOCK

record VfsInode =
  InodeName :: ptr
  Uid :: u32
  Gid :: u32
  Type :: VfsInodeType
  Parent :: ptr
  FsInstance :: ptr
  Operations :: ptr

record VfsDirectory =
  Inode :: VfsInode
  ChildrenAmount :: u32
  Children :: ptr
  DirOperations :: ptr

record DevfsInode =
  Base :: VfsInode
  InodeDevice :: ptr

datatype dev_callback = TTYOpen_cb

record DevfsOperations =
  GetSizeCallback :: "dev_callback option"
  FileOpenCallback :: "dev_callback option"

record DevfsDevice =
  DevName :: ptr
  DevOperations :: ptr

record devfs_state = vfs_state +
  DevfsDeviceList :: ptr
  Device :: "ptr \<Rightarrow> ptr"                 \<comment> \<open>\<open>DevfsDeviceEntry.Device\<close>, by entry\<close>
  RootDirectory :: ptr                    \<comment> \<open>\<open>DevfsInstance.RootDirectory\<close>\<close>
  DevfsRootDir :: VfsDirectory
  devices :: "ptr \<Rightarrow> DevfsDevice"
  device_ops :: "ptr \<Rightarrow> DevfsOperations"
  inodes :: "ptr \<Rightarrow> DevfsInode"

definition DevfsInit :: "image \<Rightarrow> 'z devfs_state_scheme \<Rightarrow> 'z devfs_state_scheme run" where
  "DevfsInit I s =
     (let s = s\<lparr>RootDirectory := addr_DevfsRootDir I,
            DevfsRootDir := \<lparr>Inode = \<lparr>InodeName = str_empty I, Uid = 0, Gid = 0, Type = VFS_INODE_DIRECTORY,
                Parent = NULL, FsInstance = addr_DevfsInstance I, Operations = addr_DevfsRootDirOps I\<rparr>,
              ChildrenAmount = 0, Children = NULL, DirOperations = addr_DevfsRootDirOps I\<rparr>\<rparr>;
          s = s\<lparr>fs_info := (fs_info s)(addr_DevfsInfo I := \<lparr>Name = str_devfs I, CreateCallback = Some DevfsCreateInst_cb\<rparr>)\<rparr>
      in VfsRegisterFilesystem I (addr_DevfsInfo I) s)"

text \<open>A pointer stored in, and read from, four bytes of memory.\<close>

definition put_ptr :: "bytes \<Rightarrow> ptr \<Rightarrow> u32 \<Rightarrow> bytes" where
  "put_ptr m p w = m(p := ucast w, p + 1 := ucast (drop_bit 8 w), p + 2 := ucast (drop_bit 16 w), p + 3 := ucast (drop_bit 24 w))"

definition get_ptr :: "bytes \<Rightarrow> ptr \<Rightarrow> u32" where
  "get_ptr m p = ucast (m p) OR push_bit 8 (ucast (m (p + 1))) OR push_bit 16 (ucast (m (p + 2))) OR push_bit 24 (ucast (m (p + 3)))"

definition DevfsAddDevice :: "image \<Rightarrow> ptr \<Rightarrow> 'z devfs_state_scheme \<Rightarrow> 'z devfs_state_scheme run" where
  "DevfsAddDevice I device s =
     mbind (KAssert (device \<noteq> NULL) ''device != NULL'') (\<lambda>_.
     mbind (malloc (lk I) 12 s) (\<lambda>(entry, s).
     mbind (KAssert (entry \<noteq> NULL) ''entry != NULL'') (\<lambda>_.
     let s = s\<lparr>Device := (Device s)(entry := device)\<rparr> in
     mbind (list_add (links s) (DevfsDeviceList s) entry) (\<lambda>(h, head).
     let s = s\<lparr>links := h, DevfsDeviceList := head\<rparr>;
         s = s\<lparr>DevfsRootDir := (DevfsRootDir s)\<lparr>ChildrenAmount := ChildrenAmount (DevfsRootDir s) + 1\<rparr>\<rparr> in
     mbind (realloc (lk I) (Children (DevfsRootDir s)) (4 * ChildrenAmount (DevfsRootDir s)) s) (\<lambda>(reallocated, s).
     mbind (KAssert (reallocated \<noteq> NULL) ''reallocated != NULL'') (\<lambda>_.
     let s = s\<lparr>DevfsRootDir := (DevfsRootDir s)\<lparr>Children := reallocated\<rparr>\<rparr> in
     mbind (malloc (lk I) 32 s) (\<lambda>(deviceInode, s).
     mbind (KAssert (deviceInode \<noteq> NULL) ''deviceInode != NULL'') (\<lambda>_.
     let s = s\<lparr>inodes := (inodes s)(deviceInode := \<lparr>Base = \<lparr>InodeName = DevName (devices s device), Uid = 0, Gid = 0,
               Type = VFS_INODE_BLOCK, Parent = addr_DevfsRootDir I, FsInstance = addr_DevfsInstance I,
               Operations = NULL\<rparr>, InodeDevice = device\<rparr>)\<rparr>;
         s = s\<lparr>bmem := put_ptr (bmem s) (Children (DevfsRootDir s) + 4 * (ChildrenAmount (DevfsRootDir s) - 1)) deviceInode\<rparr> in
     kprintf ''[Devfs] Registered device /dev/%s\<newline>'' [DevName (devices s device)] s))))))))"

text \<open>\<open>TTYInit\<close>: the console, its device and its driver.\<close>

definition TTYInit :: "image \<Rightarrow> port_device \<Rightarrow> 'z devfs_state_scheme \<Rightarrow> 'z devfs_state_scheme run" where
  "TTYInit I dev s =
     (let s = s\<lparr>console := TTYInit_console dev (console s)\<rparr>;
          s = s\<lparr>device_ops := (device_ops s)(addr_TTYDevfsOps I :=
                \<lparr>GetSizeCallback = None, FileOpenCallback = Some TTYOpen_cb\<rparr>),
              devices := (devices s)(addr_TTYDevfsDev I := \<lparr>DevName = str_tty I, DevOperations = addr_TTYDevfsOps I\<rparr>)\<rparr>
      in mbind (DevfsAddDevice I (addr_TTYDevfsDev I) s) (TTY_register_driver I))"

text \<open>The devices in the directory \<open>/dev\<close>: what the array of children designates.\<close>

definition dev_listing :: "'z devfs_state_scheme \<Rightarrow> ptr list" where
  "dev_listing s = map (\<lambda>i. InodeDevice (inodes s (get_ptr (bmem s) (Children (DevfsRootDir s) + 4 * of_nat i))))
     [0..<unat (ChildrenAmount (DevfsRootDir s))]"

text \<open>The devices in the list of all devices.\<close>

definition device_list :: "'z devfs_state_scheme \<Rightarrow> ptr list \<Rightarrow> bool" where
  "device_list s ds \<longleftrightarrow> (\<exists>es. registered (links s) (DevfsDeviceList s) es \<and> map (Device s) es = ds)"

lemma get_put_ptr: "get_ptr (put_ptr m p w) p = w"
proof -
  have "p + 1 \<noteq> p" "p + 2 \<noteq> p" "p + 3 \<noteq> p" "p + 1 \<noteq> p + 2" "p + 1 \<noteq> p + 3" "p + 2 \<noteq> p + 3" by simp_all
  then have "get_ptr (put_ptr m p w) p = ucast (ucast w :: u8) OR push_bit 8 (ucast (ucast (drop_bit 8 w) :: u8))
      OR push_bit 16 (ucast (ucast (drop_bit 16 w) :: u8)) OR push_bit 24 (ucast (ucast (drop_bit 24 w) :: u8))"
    by (simp add: get_ptr_def put_ptr_def)
  also have "\<dots> = w"   proof (rule bit_word_eqI)
    fix n assume "n < LENGTH(32)"
    then consider "n < 8" | "8 \<le> n" "n < 16" | "16 \<le> n" "n < 24" | "24 \<le> n" "n < 32" by fastforce
    then show "bit ((ucast (ucast w :: u8) :: u32) OR push_bit 8 (ucast (ucast (drop_bit 8 w) :: u8))
      OR push_bit 16 (ucast (ucast (drop_bit 16 w) :: u8)) OR push_bit 24 (ucast (ucast (drop_bit 24 w) :: u8))) n = bit w n"
      by cases (auto simp: bit_simps)
  qed
  finally show ?thesis .
qed

text \<open>
  Registering the first device, while memory lasts: it joins the list of devices, and the
  directory has one child, its inode.
\<close>

lemma same_outside_devfs:
  assumes "same_outside s (s' :: 'z devfs_state_scheme)"
  shows "links s' = links s" "VfsFsList s' = VfsFsList s" "Filesystem s' = Filesystem s" "fs_info s' = fs_info s"
    "DevfsDeviceList s' = DevfsDeviceList s" "Device s' = Device s" "RootDirectory s' = RootDirectory s"
    "DevfsRootDir s' = DevfsRootDir s" "devices s' = devices s" "device_ops s' = device_ops s" "inodes s' = inodes s"
    "DmDriverCount s' = DmDriverCount s" "DriverID s' = DriverID s" "DmDriverList s' = DmDriverList s"
    "IdtIntHandlers s' = IdtIntHandlers s" "console s' = console s" "devfs_state.more s' = devfs_state.more s"
  using assms by (cases s', cases s, simp add: same_outside_def)+

lemma put_ptr_range: "put_ptr m p w a \<noteq> m a \<Longrightarrow> in_range a p 4"
  by (auto simp: put_ptr_def in_range_def split: if_splits)

lemma DevfsAddDevice_first:
  assumes "heap_ready (lk I) s" "room (lk I) s (Suc (Suc (Suc k)))" "device \<noteq> NULL"
    and "DevfsDeviceList s = NULL" "ChildrenAmount (DevfsRootDir s) = 0" "Children (DevfsRootDir s) = NULL"
    and "text_at (lk I) s (DevName (devices s device)) name"
  shows "\<exists>s' e. DevfsAddDevice I device s = ret s' \<and> heap_ready (lk I) s' \<and> room (lk I) s' k \<and> keeps (lk I) s s' \<and>
    dev_listing s' = [device] \<and> device_list s' [device] \<and> e \<noteq> NULL \<and>
    links s' = (links s)(e \<mapsto> \<lparr>Next = NULL, Prev = NULL\<rparr>) \<and> DevfsDeviceList s' = e \<and> VfsFsList s' = VfsFsList s \<and>
    \<not> owned (lk I) s e \<and> owned (lk I) s' e \<and> (\<forall>a. owned (lk I) s a \<longrightarrow> owned (lk I) s' a) \<and>
    same_drivers s s' \<and> devfs_state.more s' = devfs_state.more s"
proof -
  let ?L = "lk I"
  have sm: "small 12" "small 4" "small 32" by (simp_all add: small_def)
  from malloc_got [OF assms(1) sm(1) assms(2)] obtain e s1 where g1: "got ?L 12 (Suc (Suc k)) s e s1" by blast
  note x1 = same_outside_devfs [OF gotD(5) [OF g1]]
  let ?s2 = "s1\<lparr>Device := (Device s)(e := device), links := (links s)(e \<mapsto> \<lparr>Next = NULL, Prev = NULL\<rparr>),
     DevfsDeviceList := e, DevfsRootDir := (DevfsRootDir s)\<lparr>ChildrenAmount := 1\<rparr>\<rparr>"
  have "same_mem s1 ?s2" by (simp add: same_mem_def)
  note f2 = same_mem_frame [OF this]
  have "heap_ready ?L ?s2" "room ?L ?s2 (Suc (Suc k))" using gotD(3,4) [OF g1] by (simp_all only: f2)
  from malloc_got [OF this(1) sm(2) this(2)] obtain c s3 where g3: "got ?L 4 (Suc k) ?s2 c s3" by blast
  note x3 = same_outside_devfs [OF gotD(5) [OF g3]]
  let ?s4 = "s3\<lparr>DevfsRootDir := (DevfsRootDir s)\<lparr>ChildrenAmount := 1, Children := c\<rparr>\<rparr>"
  have "same_mem s3 ?s4" by (simp add: same_mem_def)
  note f4 = same_mem_frame [OF this]
  have "heap_ready ?L ?s4" "room ?L ?s4 (Suc k)" using gotD(3,4) [OF g3] by (simp_all only: f4)
  from malloc_got [OF this(1) sm(3) this(2)] obtain i s5 where g5: "got ?L 32 k ?s4 i s5" by blast
  note x5 = same_outside_devfs [OF gotD(5) [OF g5]]
  let ?inode = "\<lparr>Base = \<lparr>InodeName = DevName (devices s device), Uid = 0, Gid = 0,
               Type = VFS_INODE_BLOCK, Parent = addr_DevfsRootDir I, FsInstance = addr_DevfsInstance I,
               Operations = NULL\<rparr>, InodeDevice = device\<rparr>"
  let ?s6 = "s5\<lparr>inodes := (inodes s)(i := ?inode)\<rparr>"
  have "same_mem s5 ?s6" by (simp add: same_mem_def)
  note f6 = same_mem_frame [OF this]
  let ?m = "put_ptr (bmem s5) c i"
  let ?s7 = "?s6\<lparr>bmem := ?m\<rparr>"
  let ?s8 = "\<lambda>t. ?s7\<lparr>console := t\<rparr>"
  have k6: "keeps ?L s ?s2" "keeps ?L s ?s6"
    using keeps_trans [OF gotD(6) [OF g1] f2(6)] keeps_trans [OF gotD(6) [OF g3] f4(6)]
      keeps_trans [OF gotD(6) [OF g5] f6(6)] keeps_trans by blast+
  have own6: "owned ?L s a \<Longrightarrow> owned ?L ?s6 a" "owned ?L s1 a \<Longrightarrow> owned ?L ?s6 a" for a
    using gotD(11) [OF g1] gotD(11) [OF g3] gotD(11) [OF g5] unfolding f2 f4 f6 by blast+
  have "object ?L ?s6 c 4"
    using gotD(10) [OF g5] gotD(9) [OF g3] unfolding f4 f6 by simp
  then have obj: "?m a \<noteq> bmem ?s6 a \<longrightarrow> \<not> bookkeeping ?L ?s6 a" for a
    using put_ptr_range [of "bmem s5" c i a] by (simp add: object_def)
  have h6: "heap_ready ?L ?s6" using gotD(4) [OF g5] by (simp only: f6)
  have h7: "heap_ready ?L ?s7" by (rule heap_ready_write [OF h6]) (use obj in blast)
  have s7: "settled ?L ?s7 = settled ?L ?s6" "owned ?L ?s7 = owned ?L ?s6"
    by (simp_all add: settled_def [abs_def])
  have same: "settled ?L s a \<Longrightarrow> ?m a = bmem ?s6 a" for a
    using k6(1) gotD(7) [OF g3, of a] put_ptr_range [of "bmem s5" c i a] by (auto simp: keeps_def)
  then have k7: "keeps ?L s ?s7" using k6(2) by (simp add: keeps_def s7)
  have r7: "room ?L ?s7 k" using gotD(3) [OF g5] by (simp only: room_outside f6)
  from text_at_keeps [OF k7 assms(7)] obtain t where
    t: "kprintf ''[Devfs] Registered device /dev/%s\<newline>'' [DevName (devices s device)] ?s7 = ret (?s8 t)"
    using kprintf_format [of "''[Devfs] Registered device /dev/%s\<newline>''" "[Text name]" _ ?s7 "[DevName (devices s device)]"]
    by (auto simp: text_at_def ascii_def)
  have "realloc ?L NULL 4 ?s2 = malloc ?L 4 ?s2" by (simp add: realloc_def)
  then have r: "DevfsAddDevice I device s = ret (?s8 t)"
    using assms(3-6) gotD(1,2) [OF g1] gotD(1,2) [OF g3] gotD(1,2) [OF g5] t
    by (simp add: DevfsAddDevice_def Let_def list_add_def x1 x3 x5)
  have "same_mem ?s7 (?s8 t)" by (simp add: same_mem_def)
  note f8 = same_mem_frame [OF this]
  have e: "\<not> owned ?L s e" "owned ?L s1 e" using got_fresh [OF g1] by simp_all
  have "heap_ready ?L (?s8 t)" "room ?L (?s8 t) k" "keeps ?L s (?s8 t)" "owned ?L (?s8 t) e"
    using h7 r7 keeps_trans [OF k7 f8(6)] own6(2) [OF e(2)] by (simp_all only: f8 s7)
  moreover have "dev_listing (?s8 t) = [device]"
    by (simp add: dev_listing_def get_put_ptr x5)
  moreover have "device_list (?s8 t) [device]"
    using gotD(2) [OF g1] by (auto simp: device_list_def registered_def dll_def x1 x3 x5 intro!: exI [of _ "[e]"])
  moreover have "links (?s8 t) = (links s)(e \<mapsto> \<lparr>Next = NULL, Prev = NULL\<rparr>)" "DevfsDeviceList (?s8 t) = e"
    "VfsFsList (?s8 t) = VfsFsList s"
    by (simp_all add: x1 x3 x5)
  moreover have "\<forall>a. owned ?L s a \<longrightarrow> owned ?L (?s8 t) a" using own6(1) unfolding f8 s7 by blast
  moreover have "same_drivers s (?s8 t)" "devfs_state.more (?s8 t) = devfs_state.more s"
  proof -
    show "same_drivers s (?s8 t)"
      using same_outside_drivers [OF gotD(5) [OF g1]] same_outside_drivers [OF gotD(5) [OF g3]]
        same_outside_drivers [OF gotD(5) [OF g5]] by (simp add: same_drivers_def)
    show "devfs_state.more (?s8 t) = devfs_state.more s" by (simp add: x1 x3 x5)
  qed
  ultimately show ?thesis using r e(1) gotD(2) [OF g1] by blast
qed

text \<open>The first filesystem to be registered.\<close>

lemma DevfsInit_first:
  assumes "heap_ready (lk I) s" "room (lk I) s (Suc k)" "VfsFsList s = NULL"
    and "addr_DevfsInfo I \<noteq> NULL" "text_at (lk I) s (str_devfs I) name"
    and "registered (links s) (DevfsDeviceList s) es" "\<forall>e \<in> set es. owned (lk I) s e"
  shows "\<exists>s'. DevfsInit I s = ret s' \<and> heap_ready (lk I) s' \<and> room (lk I) s' k \<and> keeps (lk I) s s' \<and>
    dev_listing s' = [] \<and> registered (links s') (DevfsDeviceList s') es \<and> Device s' = Device s \<and>
    VfsCreateInstance I (str_devfs I) NULL s' = ret (addr_DevfsInstance I) \<and>
    (\<forall>a. owned (lk I) s a \<longrightarrow> owned (lk I) s' a \<and> links s' a = links s a) \<and>
    same_drivers s s' \<and> devfs_state.more s' = devfs_state.more s"
proof -
  let ?root = "\<lparr>Inode = \<lparr>InodeName = str_empty I, Uid = 0, Gid = 0, Type = VFS_INODE_DIRECTORY,
                Parent = NULL, FsInstance = addr_DevfsInstance I, Operations = addr_DevfsRootDirOps I\<rparr>,
              ChildrenAmount = 0, Children = NULL, DirOperations = addr_DevfsRootDirOps I\<rparr>"
  let ?s = "s\<lparr>RootDirectory := addr_DevfsRootDir I, DevfsRootDir := ?root, fs_info := (fs_info s)(addr_DevfsInfo I := \<lparr>Name = str_devfs I, CreateCallback = Some DevfsCreateInst_cb\<rparr>)\<rparr>"
  have "same_mem s ?s" by (simp add: same_mem_def)
  note f = same_mem_frame [OF this]
  have "fs_entries (lk I) ?s [] []" using assms(3) by (simp add: fs_entries_def registered_def)
  moreover have "heap_ready (lk I) ?s" "room (lk I) ?s (Suc k)" "text_at (lk I) ?s (str_devfs I) name"
    using assms(1,2,5) by (simp_all only: f)
  moreover from this(3) have "text_at (lk I) ?s (Name (fs_info ?s (addr_DevfsInfo I))) name" by simp
  ultimately obtain s' e where r: "VfsRegisterFilesystem I (addr_DevfsInfo I) ?s = ret s'"
    "fs_entries (lk I) s' ([] @ [e]) ([] @ [(name, addr_DevfsInfo I)])" "heap_ready (lk I) s'" "room (lk I) s' k"
    "keeps (lk I) ?s s'"
    and look: "\<forall>q str. text_at (lk I) ?s q str \<longrightarrow> VfsGetFilesystem q s' = ret (find_fs ([] @ [(name, addr_DevfsInfo I)]) str)"
    and same: "vfs_state.more s' = vfs_state.more ?s" "fs_info s' = fs_info ?s" "same_drivers ?s s'"
      "\<forall>a. owned (lk I) ?s a \<longrightarrow> owned (lk I) s' a" "\<not> owned (lk I) ?s e" "\<forall>a. a \<notin> set [] \<and> a \<noteq> e \<longrightarrow> links s' a = links ?s a"
    using VfsRegisterFilesystem_cases [of I ?s "[]" "[]" k "addr_DevfsInfo I" name] assms(4)
    by (auto simp del: append_Nil)
  have d: "DevfsDeviceList s' = DevfsDeviceList s" "Device s' = Device s" "DevfsRootDir s' = ?root"
    "devfs_state.more s' = devfs_state.more s"
    using same(1) by (cases s', cases s, simp)+
  have "e \<notin> set es" using assms(7) same(5) unfolding f(3) by blast
  then have "dseg (links s') NULL es NULL = dseg (links s) NULL es NULL"
    using same(6) by (intro dseg_frame) auto
  then have "registered (links s') (DevfsDeviceList s) es"
    using assms(6) by (auto simp: registered_def dll_def)
  moreover have "VfsCreateInstance I (str_devfs I) NULL s' = ret (addr_DevfsInstance I)"
    using look assms(4,5) same(2) f(5) by (auto simp: VfsCreateInstance_def find_fs_def DevfsCreateInst_def text_at_def)
  moreover have "keeps (lk I) s s'" by (rule keeps_trans [OF f(6) r(5)])
  moreover have "owned (lk I) s' a \<and> links s' a = links s a" if "owned (lk I) s a" for a
  proof -
    have "a \<noteq> e" using that same(5) unfolding f(3) by blast
    then show ?thesis using that same(4,6) unfolding f(3) by simp
  qed
  moreover have "same_drivers s s'" using same(3) by (simp add: same_drivers_def)
  moreover have "DevfsInit I s = ret s'" using r(1) by (simp add: DevfsInit_def)
  moreover have "dev_listing s' = []" by (simp add: dev_listing_def d)
  ultimately show ?thesis using r(3,4) d(1,2,4) by (intro exI [of _ s']) simp
qed

text \<open>
  The order in which \<open>KMain\<close> starts the components loses the devices registered early. A
  device added to \<open>/dev\<close> before \<open>DevfsInit\<close> (the console, by \<open>TTYInit\<close>) is listed; \<open>DevfsInit\<close>,
  run later, registers the filesystem, whose instance can then be created, but empties its
  root directory. The device stays in the list of devices, which nothing reads.
\<close>

lemma DevfsInit_drops_registered_devices:
  assumes "heap_ready (lk I) s" "room (lk I) s (Suc (Suc (Suc (Suc k))))" "device \<noteq> NULL"
    and "DevfsDeviceList s = NULL" "ChildrenAmount (DevfsRootDir s) = 0" "Children (DevfsRootDir s) = NULL"
    and "VfsFsList s = NULL" "addr_DevfsInfo I \<noteq> NULL" "text_at (lk I) s (str_devfs I) fsname"
    and "text_at (lk I) s (DevName (devices s device)) name"
  shows "\<exists>s1 s2. DevfsAddDevice I device s = ret s1 \<and> dev_listing s1 = [device] \<and> device_list s1 [device] \<and>
    DevfsInit I (VfsInit s1) = ret s2 \<and> dev_listing s2 = [] \<and> device_list s2 [device] \<and>
    VfsCreateInstance I (str_devfs I) NULL s2 = ret (addr_DevfsInstance I)"
proof -
  obtain s1 e where r1: "DevfsAddDevice I device s = ret s1" "heap_ready (lk I) s1" "room (lk I) s1 (Suc k)" "keeps (lk I) s s1"
    "dev_listing s1 = [device]" "device_list s1 [device]" "e \<noteq> NULL" "links s1 = (links s)(e \<mapsto> \<lparr>Next = NULL, Prev = NULL\<rparr>)"
    "DevfsDeviceList s1 = e" "VfsFsList s1 = VfsFsList s" "owned (lk I) s1 e"
    using DevfsAddDevice_first [OF assms(1,2,3-6,10)] by blast
  have reg: "registered (links s1) (DevfsDeviceList s1) [e]" using r1(7-9) by (simp add: registered_def dll_def)
  then have dev: "Device s1 e = device"
    using r1(6,9) by (auto simp: device_list_def registered_def dll_def split: if_splits)
  obtain s2 where "DevfsInit I s1 = ret s2" "dev_listing s2 = []" "registered (links s2) (DevfsDeviceList s2) [e]"
    "Device s2 = Device s1" "VfsCreateInstance I (str_devfs I) NULL s2 = ret (addr_DevfsInstance I)"
    using DevfsInit_first [OF r1(2,3) _ assms(8) text_at_keeps [OF r1(4) assms(9)] reg] assms(7) r1(10,11) by auto
  then show ?thesis using r1(1,5,6) dev by (auto simp: device_list_def VfsInit_def intro!: exI [of _ "[e]"])
qed

text \<open>A machine with no devices yet, and the name of the console's device the empty text at \<open>0xE0003040\<close>.\<close>

definition devfs_machine :: devfs_state where
  "devfs_machine = vfs_state.extend vfs_machine (devfs_state.fields NULL (\<lambda>_. NULL) NULL
     \<lparr>Inode = \<lparr>InodeName = NULL, Uid = 0, Gid = 0, Type = VFS_INODE_NORMAL, Parent = NULL, FsInstance = NULL,
        Operations = NULL\<rparr>, ChildrenAmount = 0, Children = NULL, DirOperations = NULL\<rparr>
     (\<lambda>_. \<lparr>DevName = 0xE0003040, DevOperations = NULL\<rparr>) (\<lambda>_. \<lparr>GetSizeCallback = None, FileOpenCallback = None\<rparr>)
     (\<lambda>_. undefined))"

lemmas devfs_machine_defs = devfs_machine_def vfs_machine_defs devfs_state.defs

lemma devfs_machine_fresh: "fresh devfs_machine"
  by (simp add: fresh_def devfs_machine_defs empty_heap_def)

lemma devfs_machine_simps [simp]:
  "DevfsDeviceList devfs_machine = NULL" "ChildrenAmount (DevfsRootDir devfs_machine) = 0"
  "Children (DevfsRootDir devfs_machine) = NULL" "VfsFsList devfs_machine = NULL"
  "devices devfs_machine = (\<lambda>_. \<lparr>DevName = 0xE0003040, DevOperations = NULL\<rparr>)"
  "bmem devfs_machine = (\<lambda>a. if a = 0xE0003030 then 100 else 0)"
  by (simp_all add: devfs_machine_defs)

lemma image_text:
  assumes "0xE0003000 \<le> unat p" "unat p + length str < 0xE0004000" "cstr (bmem s) p str"
  shows "text_at sample_image s p str"
proof -
  have "settled sample_image s (p + of_nat i)" if "i \<le> length str" for i
  proof -
    have i: "unat (of_nat i :: u32) = i" using assms(2) that by (simp add: unsigned_of_nat take_bit_nat_eq_self)
    then have "unat (p + of_nat i) = unat p + i" using assms(2) that by (simp add: unat_plus_if')
    moreover have "unat ((p + of_nat i) - 0xE0009010) = unat (p + of_nat i) + 4294967296 - 0xE0009010"
      using assms(2) that calculation by (simp add: unat_sub_if')
    moreover have "131072 \<le> (536834032 + (unat p + i)) div 4096" using assms(1) by linarith
    ultimately show ?thesis by (simp add: settled_def KERNEL_PAGES_def)
  qed
  moreover have "p \<noteq> NULL" using assms(1) by auto
  ultimately show ?thesis using assms(3) by (simp add: text_at_def)
qed

lemma DevfsInit_drops_registered_devices_witness:
  "\<exists>s1 s2. DevfsAddDevice driver_image 0xE00A2060 devfs_machine = ret s1 \<and> dev_listing s1 = [0xE00A2060] \<and>
     DevfsInit driver_image (VfsInit s1) = ret s2 \<and> dev_listing s2 = []"
proof -
  have lk: "lk driver_image = sample_image" "addr_DevfsInfo driver_image \<noteq> NULL" "str_devfs driver_image = 0xE0003030"
    by (simp_all add: driver_image_def)
  have r: "heap_ready (lk driver_image) devfs_machine" "room (lk driver_image) devfs_machine (Suc (Suc (Suc (Suc 0))))"
    unfolding lk(1) by (rule fresh_ready [OF devfs_machine_fresh], rule fresh_room [OF devfs_machine_fresh]) simp
  have t: "text_at (lk driver_image) devfs_machine (str_devfs driver_image) [100]"
    "text_at (lk driver_image) devfs_machine (DevName (devices devfs_machine 0xE00A2060)) []"
    unfolding lk by (rule image_text; simp)+
  show ?thesis
    using DevfsInit_drops_registered_devices [OF r _ _ _ _ _ lk(2) t(1), of "0xE00A2060" "[]"] t(2) by auto
qed

end
