(* ===== verification/Scheduler.thy ===== *)
theory Scheduler
  imports Devfs
begin

text \<open>
  The scheduler (\<open>kernel/src/Scheduler/Scheduler.c\<close>, \<open>Scheduler.h\<close>). Processes, threads and the
  elements of their lists are typed objects: maps from the addresses at which they exist, with
  the links of the list elements in \<open>links\<close>. Following a pointer to where no object is gives
  \<open>BadAccess\<close>. The loop that looks for a thread to run may never end and is partial.
\<close>

datatype SchedTaskState = TASK_STATE_RUNNING | TASK_STATE_SLEEPING

record CPUFrame =
  GsT :: u32
  FsT :: u32
  SsT :: u32
  EsT :: u32
  DsT :: u32
  CsT :: u32
  EdiT :: u32
  EsiT :: u32
  EbpT :: u32
  EspT :: u32
  EbxT :: u32
  EdxT :: u32
  EcxT :: u32
  EaxT :: u32
  EipT :: u32
  EflagsT :: u32

record SchedThread =
  ParentProcess :: ptr
  ThreadName :: ptr
  State :: SchedTaskState
  RemainingCpuTime :: u32
  CPUFrame :: CPUFrame

record Process =
  ProcessId :: u32
  UserId :: u32
  IsKernelMode :: bool
  PageDirectory :: ptr
  Threads :: ptr

record sched_state = devfs_state +
  SchedTickCounter :: u64
  SchedProcessList :: ptr
  CurrIteratedProc :: ptr
  CurrIteratedThread :: ptr
  initialized :: bool                          \<comment> \<open>the static variable of \<open>SchedIrqHandler\<close>\<close>
  currentPid :: u32                            \<comment> \<open>the static variable of \<open>SchedCreateProcess\<close>\<close>
  procs :: "ptr \<rightharpoonup> Process"
  proc_of :: "ptr \<rightharpoonup> ptr"                      \<comment> \<open>\<open>ProcListElement.Process\<close>, by element\<close>
  threads :: "ptr \<rightharpoonup> SchedThread"
  thread_of :: "ptr \<rightharpoonup> ptr"                    \<comment> \<open>\<open>ProcThreadElement.Thread\<close>, by element\<close>

subsection \<open>Saving and loading a thread's registers\<close>

definition SchedSaveFrame :: "IdtFrame \<Rightarrow> SchedThread \<Rightarrow> SchedThread" where
  "SchedSaveFrame source target = target\<lparr>CPUFrame :=
     (CPUFrame target)\<lparr>EaxT := Eax source, EbxT := Ebx source, EcxT := Ecx source, EdxT := Edx source,
       EsiT := Esi source, EdiT := Edi source, EspT := UserEsp source, EbpT := Ebp source,
       EipT := Eip source, EflagsT := Eflags source, CsT := Cs source, DsT := Ds source,
       EsT := Es source, FsT := Fs source, GsT := Gs source, SsT := Ss source\<rparr>\<rparr>"

definition SchedLoadFrame :: "IdtFrame \<Rightarrow> SchedThread \<Rightarrow> IdtFrame" where
  "SchedLoadFrame target source =
     (let f = CPUFrame source in
      target\<lparr>Eax := EaxT f, Ebx := EbxT f, Ecx := EcxT f, Edx := EdxT f, Esi := EsiT f, Edi := EdiT f,
        UserEsp := EspT f, Ebp := EbpT f, Eip := EipT f, Eflags := EflagsT f, Cs := CsT f, Ds := DsT f,
        Es := EsT f, Fs := FsT f, Gs := GsT f, Ss := SsT f\<rparr>)"

subsection \<open>Choosing the next thread\<close>

definition SchedTimePerThread :: u32 where "SchedTimePerThread = 2"

definition deref :: "(ptr \<rightharpoonup> 'a) \<Rightarrow> ptr \<Rightarrow> 'a run" where
  "deref m p = (case m p of None \<Rightarrow> Some (Inl (BadAccess p)) | Some x \<Rightarrow> ret x)"

lemma deref_Some [simp]: "m p = Some x \<Longrightarrow> deref m p = ret x"
  by (simp add: deref_def)

text \<open>\<open>CurrIteratedProc->Process\<close>, and \<open>CurrIteratedThread->Thread\<close> with its address.\<close>

definition cur_process :: "'z sched_state_scheme \<Rightarrow> Process run" where
  "cur_process s = mbind (deref (proc_of s) (CurrIteratedProc s)) (deref (procs s))"

definition cur_thread :: "'z sched_state_scheme \<Rightarrow> (ptr \<times> SchedThread) run" where
  "cur_thread s = mbind (deref (thread_of s) (CurrIteratedThread s)) (\<lambda>a.
     mbind (deref (threads s) a) (\<lambda>t. ret (a, t)))"

definition put_thread :: "ptr \<Rightarrow> SchedThread \<Rightarrow> 'z sched_state_scheme \<Rightarrow> 'z sched_state_scheme" where
  "put_thread a t s = s\<lparr>threads := (threads s)(a \<mapsto> t)\<rparr>"

lemma mbind_bind: "mbind m k = Option.bind m (\<lambda>r. case r of Inl e \<Rightarrow> Some (Inl e) | Inr x \<Rightarrow> k x)"
  by (simp add: mbind_def split: option.split)

lemma mbind_mono [partial_function_mono]:
  assumes "mono_option B" "\<And>y. mono_option (\<lambda>f. C y f)"
  shows "mono_option (\<lambda>f. mbind (B f) (\<lambda>y. C y f))"
  unfolding mbind_bind
proof (rule bind_mono [OF assms(1)])
  show "mono_option (\<lambda>f. case r of Inl e \<Rightarrow> Some (Inl e) | Inr x \<Rightarrow> C x f)" for r
    using assms(2) by (cases r) (simp_all add: option.const_mono)
qed

partial_function (option) next_process :: "'z sched_state_scheme \<Rightarrow> 'z sched_state_scheme run" where
  "next_process s =
     mbind (deref (links s) (CurrIteratedProc s)) (\<lambda>e.
     mbind (let s = s\<lparr>CurrIteratedProc := Next e\<rparr> in
       ret (if CurrIteratedProc s = NULL then s\<lparr>CurrIteratedProc := SchedProcessList s\<rparr> else s)) (\<lambda>s.
     mbind (cur_process s) (\<lambda>p.
     mbind (ret (s\<lparr>CurrIteratedThread := Threads p\<rparr>)) (\<lambda>s.
     if CurrIteratedThread s = NULL then next_process s else ret s))))"

definition PickNextThread :: "'z sched_state_scheme \<Rightarrow> 'z sched_state_scheme run" where
  "PickNextThread s =
     mbind (deref (links s) (CurrIteratedThread s)) (\<lambda>e.
     let s = s\<lparr>CurrIteratedThread := Next e\<rparr> in
     if CurrIteratedThread s = NULL then next_process s else ret s)"

text \<open>\<open>pickNextTask: do \<dots> while (\<dots> == TASK_STATE_SLEEPING)\<close>, and the assignment after it.\<close>

partial_function (option) pick_loop :: "'z sched_state_scheme \<Rightarrow> 'z sched_state_scheme run" where
  "pick_loop s =
     mbind (PickNextThread s) (\<lambda>s.
     mbind (cur_thread s) (\<lambda>(a, t).
     if State t = TASK_STATE_SLEEPING
     then pick_loop (put_thread a (t\<lparr>RemainingCpuTime := RemainingCpuTime t - 1\<rparr>) s)
     else ret s))"

definition pickNextTask :: "'z sched_state_scheme \<Rightarrow> 'z sched_state_scheme run" where
  "pickNextTask s =
     mbind (pick_loop s) (\<lambda>s.
     mbind (cur_thread s) (\<lambda>(a, t). ret (put_thread a (t\<lparr>RemainingCpuTime := SchedTimePerThread\<rparr>) s)))"

text \<open>The change to the page directory of the current process, if it has one of its own.\<close>

definition switch_directory :: "linker \<Rightarrow> 'z sched_state_scheme \<Rightarrow> 'z sched_state_scheme run" where
  "switch_directory L s =
     mbind (cur_process s) (\<lambda>p.
     if CurrentPageDirectory s \<noteq> PageDirectory p \<and> PageDirectory p \<noteq> NULL
     then Some (SwitchPageDirectory L (PageDirectory p) s) else ret s)"

definition SchedIrqHandler :: "linker \<Rightarrow> IdtFrame \<Rightarrow> 'z sched_state_scheme \<Rightarrow> (IdtFrame \<times> 'z sched_state_scheme) run" where
  "SchedIrqHandler L frame s =
     (let s = s\<lparr>SchedTickCounter := SchedTickCounter s + 1\<rparr> in
      mbind (if initialized s
             then mbind (cur_thread s) (\<lambda>(a, t). ret (put_thread a (SchedSaveFrame frame t) s))
             else ret (s\<lparr>initialized := True\<rparr>)) (\<lambda>s.
      mbind (cur_thread s) (\<lambda>(a, t).
      mbind (if State t = TASK_STATE_RUNNING then
               (let t = (if RemainingCpuTime t > 0 then t\<lparr>RemainingCpuTime := RemainingCpuTime t - 1\<rparr> else t);
                    s = put_thread a t s
                in if RemainingCpuTime t = 0 then pickNextTask s else ret s)
             else
               (let t = t\<lparr>RemainingCpuTime := RemainingCpuTime t - 1\<rparr>;
                    s = put_thread a t s
                in if RemainingCpuTime t = 0
                   then ret (put_thread a (t\<lparr>State := TASK_STATE_RUNNING, RemainingCpuTime := SchedTimePerThread\<rparr>) s)
                   else pickNextTask s)) (\<lambda>s.
      mbind (switch_directory L s) (\<lambda>s.
      mbind (cur_thread s) (\<lambda>(a, t). ret (SchedLoadFrame frame t, s)))))))"

text \<open>\<open>SchedTick\<close> raises interrupt \<open>0x20\<close>; what that does is an argument.\<close>

definition SchedTick :: "(u8 \<Rightarrow> 's \<Rightarrow> 'r run) \<Rightarrow> 's \<Rightarrow> 'r run" where
  "SchedTick raise s = raise 0x20 s"

definition SchedSleep :: "(u8 \<Rightarrow> 'z sched_state_scheme \<Rightarrow> 'r run) \<Rightarrow> ptr \<Rightarrow> u32 \<Rightarrow> 'z sched_state_scheme \<Rightarrow> 'r run" where
  "SchedSleep raise thread millis s =
     mbind (KAssert (thread \<noteq> NULL) ''thread != NULL'') (\<lambda>_.
     mbind (deref (threads s) thread) (\<lambda>t.
     SchedTick raise (put_thread thread (t\<lparr>State := TASK_STATE_SLEEPING, RemainingCpuTime := millis\<rparr>) s)))"

text \<open>The body of the thread \<open>Test\<close> up to its endless loop.\<close>

definition SchedSleepTest :: "(u8 \<Rightarrow> 'z sched_state_scheme \<Rightarrow> 'r run) \<Rightarrow> 'z sched_state_scheme \<Rightarrow> 'r run" where
  "SchedSleepTest raise s = mbind (deref (thread_of s) (CurrIteratedThread s)) (\<lambda>thread. SchedSleep raise thread 1000 s)"

subsection \<open>Creating processes and threads\<close>

definition SchedCreateProcess :: "linker \<Rightarrow> bool \<Rightarrow> bool \<Rightarrow> u32 \<Rightarrow> 'z sched_state_scheme \<Rightarrow> (ptr \<times> 'z sched_state_scheme) run" where
  "SchedCreateProcess L kernelMode allocPageDir uid s =
     mbind (malloc L 20 s) (\<lambda>(process, s).
     mbind (KAssert (process \<noteq> NULL) ''process != NULL'') (\<lambda>_.
     mbind (malloc L 12 s) (\<lambda>(element, s).
     mbind (KAssert (element \<noteq> NULL) ''element != NULL'') (\<lambda>_.
     let pr = \<lparr>ProcessId = currentPid s, UserId = uid, IsKernelMode = kernelMode, PageDirectory = NULL, Threads = NULL\<rparr>;
         s = s\<lparr>currentPid := currentPid s + 1, procs := (procs s)(process \<mapsto> pr)\<rparr> in
     mbind (if allocPageDir
            then mbind (MmAllocPageDirectory L s) (\<lambda>(pd, s).
              ret (s\<lparr>procs := (procs s)(process \<mapsto> pr\<lparr>PageDirectory := pd\<rparr>)\<rparr>))
            else ret s) (\<lambda>s.
     let s = s\<lparr>proc_of := (proc_of s)(element \<mapsto> process)\<rparr> in
     mbind (list_add (links s) (SchedProcessList s) element) (\<lambda>(h, head).
     ret (process, s\<lparr>links := h, SchedProcessList := head\<rparr>)))))))"

definition SchedCreateThread :: "linker \<Rightarrow> ptr \<Rightarrow> ptr \<Rightarrow> ptr \<Rightarrow> ptr \<Rightarrow> 'z sched_state_scheme \<Rightarrow> (ptr \<times> 'z sched_state_scheme) run" where
  "SchedCreateThread L owner name eip stack s =
     mbind (deref (procs s) owner) (\<lambda>pr.
     let codeSegment = (if IsKernelMode pr then GdtKernelCode else GdtUserCode + 3);
         dataSegment = (if IsKernelMode pr then GdtKernelData else GdtUserData + 3) in
     mbind (KAssert (owner \<noteq> NULL) ''owner != NULL'') (\<lambda>_.
     mbind (KAssert (name \<noteq> NULL) ''name != NULL'') (\<lambda>_.
     mbind (malloc L 80 s) (\<lambda>(thread, s).
     mbind (KAssert (thread \<noteq> NULL) ''thread != NULL'') (\<lambda>_.
     mbind (malloc L 12 s) (\<lambda>(element, s).
     mbind (KAssert (element \<noteq> NULL) ''element != NULL'') (\<lambda>_.
     let s = put_thread thread \<lparr>ParentProcess = owner, ThreadName = name, State = TASK_STATE_RUNNING,
           RemainingCpuTime = SchedTimePerThread,
           CPUFrame = \<lparr>GsT = dataSegment, FsT = dataSegment, SsT = dataSegment, EsT = dataSegment, DsT = dataSegment,
             CsT = codeSegment, EdiT = 0, EsiT = 0, EbpT = stack, EspT = stack, EbxT = 0, EdxT = 0, EcxT = 0, EaxT = 0,
             EipT = eip, EflagsT = 0x200\<rparr>\<rparr> s;
         s = s\<lparr>thread_of := (thread_of s)(element \<mapsto> thread)\<rparr> in
     mbind (deref (procs s) owner) (\<lambda>pr.
     mbind (list_add (links s) (Threads pr) element) (\<lambda>(h, head).
     ret (thread, s\<lparr>links := h, procs := (procs s)(owner \<mapsto> pr\<lparr>Threads := head\<rparr>)\<rparr>))))))))))"

definition STACK_ALLOCATE :: "linker \<Rightarrow> u32 \<Rightarrow> 'z sched_state_scheme \<Rightarrow> (ptr \<times> 'z sched_state_scheme) run" where
  "STACK_ALLOCATE L n s = mbind (malloc L n s) (\<lambda>(p, s). ret (p + n, s))"

definition SchedInit :: "image \<Rightarrow> 'z sched_state_scheme \<Rightarrow> 'z sched_state_scheme run" where
  "SchedInit I s =
     mbind (SchedCreateProcess (lk I) True False 0 s) (\<lambda>(_, s).
     mbind (STACK_ALLOCATE (lk I) 128 s) (\<lambda>(stack, s).
     mbind (deref (proc_of s) (SchedProcessList s)) (\<lambda>process.
     mbind (SchedCreateThread (lk I) process (str_KIdle I) (addr_SchedIdle I) stack s) (\<lambda>(_, s).
     mbind (STACK_ALLOCATE (lk I) 128 s) (\<lambda>(stack, s).
     mbind (deref (proc_of s) (SchedProcessList s)) (\<lambda>process.
     mbind (SchedCreateThread (lk I) process (str_Test I) (addr_SchedSleepTest I) stack s) (\<lambda>(_, s).
     let s = s\<lparr>CurrIteratedProc := SchedProcessList s\<rparr> in
     mbind (cur_process s) (\<lambda>p.
     let s = s\<lparr>CurrIteratedThread := Threads p\<rparr> in
     ret (IdtSetHandler 0x20 SchedIrqHandler_cb s)))))))))"

end
