(* ===== verification/RoundRobin.thy ===== *)
theory RoundRobin
  imports Scheduler
begin

text \<open>
  The scheduler as a refinement: the two levels of linked lists it walks (processes, and the
  threads of each) form one ring, and the interrupt handler implements a round robin with a
  quantum of two ticks on a list of threads. The properties of the scheduler follow from that.
\<close>

section \<open>The lists of threads as one ring\<close>

text \<open>
  \<open>ps\<close> lists the elements of the process list, each with the elements of its thread list. A
  state is well formed for \<open>ps\<close> when the pointers agree with it and no thread is listed twice.
\<close>

definition sched_ok :: "'z sched_state_scheme \<Rightarrow> (ptr \<times> ptr list) list \<Rightarrow> bool" where
  "sched_ok s ps \<longleftrightarrow> registered (links s) (SchedProcessList s) (map fst ps) \<and>
     (\<forall>(e, ts) \<in> set ps. (\<exists>p pr. proc_of s e = Some p \<and> procs s p = Some pr \<and> registered (links s) (Threads pr) ts)) \<and>
     (\<forall>t \<in> set (concat (map snd ps)). \<exists>a th. thread_of s t = Some a \<and> threads s a = Some th) \<and>
     distinct (map (thread_of s) (concat (map snd ps)))"

definition ring :: "(ptr \<times> ptr list) list \<Rightarrow> (ptr \<times> ptr) list" where
  "ring ps = concat (map (\<lambda>(e, ts). map (Pair e) ts) ps)"

text \<open>The threads in the order of the ring, and the position of the current one.\<close>

definition thread_at :: "'z sched_state_scheme \<Rightarrow> ptr \<Rightarrow> SchedThread" where
  "thread_at s t = the (threads s (the (thread_of s t)))"

definition sched_view :: "'z sched_state_scheme \<Rightarrow> (ptr \<times> ptr list) list \<Rightarrow> SchedThread list \<Rightarrow> nat \<Rightarrow> bool" where
  "sched_view s ps ths i \<longleftrightarrow> sched_ok s ps \<and> i < length (ring ps) \<and>
     (CurrIteratedProc s, CurrIteratedThread s) = ring ps ! i \<and> map (\<lambda>(e, t). thread_at s t) (ring ps) = ths"

lemma ring_simps [simp]:
  "ring [] = []" "ring ((e, ts) # ps) = map (Pair e) ts @ ring ps" "ring (ps @ qs) = ring ps @ ring qs"
  by (simp_all add: ring_def)

lemma snd_ring: "map snd (ring ps) = concat (map snd ps)"
  by (induction ps) (auto simp: comp_def)

lemma ring_split:
  assumes "i < length (ring ps)"
  shows "\<exists>as e ts1 t ts2 bs. ps = as @ (e, ts1 @ t # ts2) # bs \<and> i = length (ring as) + length ts1"
  using assms
proof (induction ps arbitrary: i)
  case (Cons p ps)
  obtain e ts where p: "p = (e, ts)" by (cases p)
  show ?case
  proof (cases "i < length ts")
    case True
    then have "ts = take i ts @ ts ! i # drop (Suc i) ts" by (rule id_take_nth_drop)
    with p True have "p # ps = [] @ (e, take i ts @ ts ! i # drop (Suc i) ts) # ps \<and> i = length (ring []) + length (take i ts)"
      by simp
    then show ?thesis by blast
  next
    case False
    then have "i - length ts < length (ring ps)" using Cons.prems p by auto
    then obtain as e' ts1 t ts2 bs where "ps = as @ (e', ts1 @ t # ts2) # bs" "i - length ts = length (ring as) + length ts1"
      using Cons.IH by blast
    then have "p # ps = (p # as) @ (e', ts1 @ t # ts2) # bs \<and> i = length (ring (p # as)) + length ts1"
      using False p by auto
    then show ?thesis by blast
  qed
qed simp

lemma registered_next:
  assumes "registered h head (xs @ x # ys)"
  shows "\<exists>pv. h x = Some \<lparr>Next = head_or NULL ys, Prev = pv\<rparr>" "head = head_or NULL (xs @ x # ys)" "x \<noteq> NULL"
    "y \<in> set ys \<Longrightarrow> y \<noteq> NULL" "y \<in> set xs \<Longrightarrow> y \<noteq> NULL"
proof -
  have d: "dll h (xs @ x # ys)" "head = hd (xs @ x # ys)" using assms by (simp_all add: registered_def)
  show "x \<noteq> NULL" "y \<in> set ys \<Longrightarrow> y \<noteq> NULL" "y \<in> set xs \<Longrightarrow> y \<noteq> NULL" using dll_not_null [OF d(1)] by auto
  show "\<exists>pv. h x = Some \<lparr>Next = head_or NULL ys, Prev = pv\<rparr>" using d(1) by (auto simp: dll_def)
  show "head = head_or NULL (xs @ x # ys)" using d(2) by (cases xs) auto
qed

subsection \<open>Walking the ring\<close>

text \<open>From the process element \<open>e\<close>, the search takes the first process with threads after it.\<close>

lemma sched_ok_current [simp]:
  "sched_ok (s\<lparr>CurrIteratedProc := p\<rparr>) ps = sched_ok s ps" "sched_ok (s\<lparr>CurrIteratedThread := t\<rparr>) ps = sched_ok s ps"
  by (simp_all add: sched_ok_def)

definition no_threads :: "ptr \<times> ptr list \<Rightarrow> bool" where
  "no_threads p \<longleftrightarrow> snd p = []"

lemma next_process_step:
  assumes "sched_ok s ps" "ps = as @ (e, ts) # bs" "CurrIteratedProc s = e" "bs @ as @ [(e, ts)] = (e1, ts1) # q"
  shows "next_process s = (let s' = s\<lparr>CurrIteratedProc := e1, CurrIteratedThread := head_or NULL ts1\<rparr> in
    if ts1 = [] then next_process s' else ret s')"
proof -
  have reg: "registered (links s) (SchedProcessList s) (map fst as @ e # map fst bs)"
    using assms(1,2) by (simp add: sched_ok_def)
  note r = registered_next [OF reg]
  obtain pv where link: "links s e = Some \<lparr>Next = head_or NULL (map fst bs), Prev = pv\<rparr>" using r(1) by blast
  have e1: "(if head_or NULL (map fst bs) = NULL then SchedProcessList s else head_or NULL (map fst bs)) = e1"
  proof (cases bs)
    case Nil
    with assms(4) r(2) show ?thesis by (cases as) auto
  next
    case (Cons b bs')
    with assms(4) r(4) show ?thesis by auto
  qed
  have "set ps = set (bs @ as @ [(e, ts)])" using assms(2) by auto
  then have "(e1, ts1) \<in> set ps" using assms(4) by simp
  then obtain p pr where pr: "proc_of s e1 = Some p" "procs s p = Some pr" "registered (links s) (Threads pr) ts1"
    using assms(1) by (auto simp: sched_ok_def)
  have t: "Threads pr = head_or NULL ts1" "ts1 \<noteq> [] \<Longrightarrow> head_or NULL ts1 \<noteq> NULL"
  proof -
    show "Threads pr = head_or NULL ts1" using pr(3) by (cases ts1) (simp_all add: registered_def)
    assume "ts1 \<noteq> []"
    then obtain t ts where "ts1 = [] @ t # ts" by (cases ts1) auto
    with registered_next(3) pr(3) show "head_or NULL ts1 \<noteq> NULL" by fastforce
  qed
  show ?thesis
    using e1 pr(1,2) t by (subst next_process.simps) (auto simp: assms(3) link Let_def cur_process_def)
qed

lemma next_process_finds:
  assumes "sched_ok s ps" "ps = as @ (e, ts) # bs" "CurrIteratedProc s = e"
    and "dropWhile no_threads (bs @ as @ [(e, ts)]) = (e', t' # ts') # rest"
  shows "next_process s = ret (s\<lparr>CurrIteratedProc := e', CurrIteratedThread := t'\<rparr>)"
  using assms
proof (induction "length (takeWhile no_threads (bs @ as @ [(e, ts)]))" arbitrary: as e ts bs s rest)
  case 0
  then have "bs @ as @ [(e, ts)] = (e', t' # ts') # rest" by (cases "bs @ as @ [(e, ts)]") (auto split: if_splits)
  from next_process_step [OF 0(2-4) this] show ?case by simp
next
  case (Suc n)
  obtain e1 ts1 q where q: "bs @ as @ [(e, ts)] = (e1, ts1) # q" by (cases "bs @ as @ [(e, ts)]") auto
  then have empty: "ts1 = []" "n = length (takeWhile no_threads q)" "dropWhile no_threads q = (e', t' # ts') # rest"
    using Suc.hyps(2) Suc.prems(4) by (auto simp: no_threads_def split: if_splits)
  have nonempty: "\<exists>p \<in> set q. \<not> no_threads p"
    using empty(3) by (metis dropWhile_eq_Nil_conv list.discI)
  obtain as' bs' where split: "ps = as' @ (e1, ts1) # bs'" "bs' @ as' = q"
  proof (cases bs)
    case Nil
    with q Suc.prems(2) that [of "[]" q] show thesis by simp
  next
    case (Cons b bs')
    with q Suc.prems(2) that [of "as @ [(e, ts)]" bs'] show thesis by simp
  qed
  let ?s = "s\<lparr>CurrIteratedProc := e1, CurrIteratedThread := NULL\<rparr>"
  have "takeWhile no_threads (q @ [(e1, ts1)]) = takeWhile no_threads q"
    "dropWhile no_threads (q @ [(e1, ts1)]) = dropWhile no_threads q @ [(e1, ts1)]"
    using nonempty by (auto simp: takeWhile_append dropWhile_append)
  then have "next_process ?s = ret (?s\<lparr>CurrIteratedProc := e', CurrIteratedThread := t'\<rparr>)"
    using Suc.hyps(1) [of bs' as' e1 ts1 ?s "rest @ [(e1, ts1)]"] Suc.prems(1) split empty(2,3)
    by (simp add: append.assoc [symmetric] del: append.assoc)
  with next_process_step [OF Suc.prems(1-3) q] empty(1) show ?case by simp
qed

lemma ring_dropWhile: "ring (dropWhile no_threads q) = ring q"
  by (induction q) (auto simp: no_threads_def)

lemma ring_eq_Nil: "ring q = [] \<longleftrightarrow> dropWhile no_threads q = []"
  by (induction q) (auto simp: no_threads_def)

lemma PickNextThread_next:
  assumes "sched_ok s ps" "i < length (ring ps)" "(CurrIteratedProc s, CurrIteratedThread s) = ring ps ! i"
  shows "PickNextThread s = ret (s\<lparr>CurrIteratedProc := fst (ring ps ! (Suc i mod length (ring ps))),
    CurrIteratedThread := snd (ring ps ! (Suc i mod length (ring ps)))\<rparr>)"
proof -
  obtain as e ts1 t ts2 bs where ps: "ps = as @ (e, ts1 @ t # ts2) # bs" "i = length (ring as) + length ts1"
    using ring_split [OF assms(2)] by blast
  have cur: "CurrIteratedProc s = e" "CurrIteratedThread s = t"
    using assms(3) by (simp_all add: ps nth_append)
  obtain p pr where "proc_of s e = Some p" "procs s p = Some pr" and reg: "registered (links s) (Threads pr) (ts1 @ t # ts2)"
    using assms(1) ps(1) by (auto simp: sched_ok_def)
  note r = registered_next [OF reg]
  obtain pv where link: "links s t = Some \<lparr>Next = head_or NULL ts2, Prev = pv\<rparr>" using r(1) by blast
  show ?thesis
  proof (cases ts2)
    case (Cons t2 ts')
    then have "Suc i mod length (ring ps) = Suc i" "ring ps ! Suc i = (e, t2)"
      by (simp_all add: ps nth_append)
    moreover have "t2 \<noteq> NULL" using r(4) Cons by simp
    ultimately show ?thesis using Cons cur link by (simp add: PickNextThread_def Let_def)
  next
    case Nil
    let ?q = "bs @ as @ [(e, ts1 @ t # ts2)]"
    have "ring ?q \<noteq> []" by simp
    then obtain e' ts' rest where d: "dropWhile no_threads ?q = (e', ts') # rest"
      unfolding ring_eq_Nil by (cases "dropWhile no_threads ?q") auto
    moreover from this have "ts' \<noteq> []" using hd_dropWhile [of no_threads ?q] by (auto simp: no_threads_def)
    then obtain t' ts'' where t': "ts' = t' # ts''" by (cases ts') auto
    have "next_process (s\<lparr>CurrIteratedThread := NULL\<rparr>) = ret (s\<lparr>CurrIteratedThread := NULL\<rparr>\<lparr>CurrIteratedProc := e', CurrIteratedThread := t'\<rparr>)"
      by (rule next_process_finds [OF _ ps(1)]) (use assms(1) cur d t' in simp_all)
    moreover have "(e', t') = ring ps ! (Suc i mod length (ring ps))"
    proof -
      have "ring ?q = ring ((e', t' # ts'') # rest)" using ring_dropWhile [of ?q] by (simp only: d t')
      then have hd: "hd (ring ?q) = (e', t')" by (simp only: ring_simps list.map append_Cons list.sel)
      show ?thesis
      proof (cases "ring bs")
        case rbs: Nil
        then have "Suc i mod length (ring ps) = 0" using Nil by (simp add: ps)
        moreover have "hd (ring ?q) = ring ps ! 0"
          using rbs Nil by (cases "ring as"; cases ts1) (auto simp: ps)
        ultimately show ?thesis using hd by simp
      next
        case (Cons x xs)
        then have "Suc i mod length (ring ps) = Suc i" "ring ps ! Suc i = x" using Nil by (simp_all add: ps nth_append)
        with hd Cons show ?thesis by simp
      qed
    qed
    ultimately show ?thesis using Nil cur link
      by (simp add: PickNextThread_def Let_def) (metis fst_conv snd_conv)
  qed
qed

subsection \<open>The scheduler on lists of threads\<close>

text \<open>
  The specification: \<open>ths\<close> are the threads in ring order and \<open>i\<close> the one that runs. The search
  for the next thread visits the ring from \<open>i\<close> on, at most once round.
\<close>

fun pick_spec :: "nat \<Rightarrow> SchedThread list \<Rightarrow> nat \<Rightarrow> (SchedThread list \<times> nat) option" where
  "pick_spec 0 ths i = None"
| "pick_spec (Suc n) ths i =
     (let j = Suc i mod length ths; t = ths ! j in
      if State t = TASK_STATE_SLEEPING then pick_spec n (ths[j := t\<lparr>RemainingCpuTime := RemainingCpuTime t - 1\<rparr>]) j
      else Some (ths[j := t\<lparr>RemainingCpuTime := 2\<rparr>], j))"

definition tick_spec :: "IdtFrame option \<Rightarrow> SchedThread list \<Rightarrow> nat \<Rightarrow> (SchedThread list \<times> nat) option" where
  "tick_spec frame ths i =
     (let t = (case frame of Some f \<Rightarrow> SchedSaveFrame f (ths ! i) | None \<Rightarrow> ths ! i);
          r = RemainingCpuTime t in
      if State t = TASK_STATE_RUNNING then
        (if r \<le> 1 then pick_spec (length ths) (ths[i := t\<lparr>RemainingCpuTime := 0\<rparr>]) i
         else Some (ths[i := t\<lparr>RemainingCpuTime := r - 1\<rparr>], i))
      else if r = 1 then Some (ths[i := t\<lparr>State := TASK_STATE_RUNNING, RemainingCpuTime := 2\<rparr>], i)
      else pick_spec (length ths) (ths[i := t\<lparr>RemainingCpuTime := r - 1\<rparr>]) i)"

subsection \<open>Refinement\<close>

lemma view_length: "sched_view s ps ths i \<Longrightarrow> length (ring ps) = length ths \<and> i < length ths"
  by (auto simp: sched_view_def)

lemma sched_view_frame:
  assumes "links s' = links s" "SchedProcessList s' = SchedProcessList s" "proc_of s' = proc_of s" "procs s' = procs s"
    "threads s' = threads s" "thread_of s' = thread_of s" "CurrIteratedProc s' = CurrIteratedProc s"
    "CurrIteratedThread s' = CurrIteratedThread s"
  shows "sched_view s' ps ths i = sched_view s ps ths i"
  by (simp add: sched_view_def sched_ok_def thread_at_def [abs_def] assms)

lemma sched_ok_thread:
  "sched_ok s ps \<Longrightarrow> t \<in> set (concat (map snd ps)) \<Longrightarrow> \<exists>a th. thread_of s t = Some a \<and> threads s a = Some th"
  unfolding sched_ok_def by blast

lemma ring_thread:
  assumes "sched_ok s ps" "k < length (ring ps)"
  shows "\<exists>a th. thread_of s (snd (ring ps ! k)) = Some a \<and> threads s a = Some th"
proof -
  have "snd (ring ps ! k) \<in> set (map snd (ring ps))" using assms(2) by (simp add: nth_mem)
  then show ?thesis using sched_ok_thread [OF assms(1)] by (simp only: snd_ring)
qed

lemma view_current:
  assumes "sched_view s ps ths i"
  shows "\<exists>a. cur_thread s = ret (a, ths ! i) \<and> thread_of s (CurrIteratedThread s) = Some a"
proof -
  have i: "i < length (ring ps)" "ring ps ! i = (CurrIteratedProc s, CurrIteratedThread s)"
    and ths: "ths = map (\<lambda>(e, t). thread_at s t) (ring ps)"
    using assms by (auto simp: sched_view_def)
  obtain a th where a: "thread_of s (CurrIteratedThread s) = Some a" "threads s a = Some th"
    using ring_thread [of s ps i] assms i by (auto simp: sched_view_def)
  then have "ths ! i = th" using i ths by (simp add: thread_at_def)
  with a show ?thesis by (simp add: cur_thread_def)
qed

lemma view_current_process:
  assumes "sched_view s ps ths i"
  shows "\<exists>p. cur_process s = ret p"
proof -
  have i: "i < length (ring ps)" "ring ps ! i = (CurrIteratedProc s, CurrIteratedThread s)"
    using assms by (auto simp: sched_view_def)
  then obtain as e ts1 t ts2 bs where "ps = as @ (e, ts1 @ t # ts2) # bs" "i = length (ring as) + length ts1"
    using ring_split by blast
  with i have "(CurrIteratedProc s, ts1 @ t # ts2) \<in> set ps" by (auto simp: nth_append)
  then show ?thesis using assms by (auto simp: sched_view_def sched_ok_def cur_process_def)
qed

text \<open>Writing a thread of the ring changes that position only.\<close>

lemma view_put_at:
  assumes "sched_view s ps ths i" "j < length ths" "thread_of s (snd (ring ps ! j)) = Some a"
  shows "sched_view (put_thread a t' s) ps (ths[j := t']) i"
proof -
  let ?s = "put_thread a t' s"
  have same: "links ?s = links s" "SchedProcessList ?s = SchedProcessList s" "proc_of ?s = proc_of s" "procs ?s = procs s"
    "thread_of ?s = thread_of s" "CurrIteratedProc ?s = CurrIteratedProc s" "CurrIteratedThread ?s = CurrIteratedThread s"
    "threads ?s = (threads s)(a \<mapsto> t')"
    by (simp_all add: put_thread_def)
  have ok: "sched_ok s ps" and ths: "ths = map (\<lambda>(e, t). thread_at s t) (ring ps)"
    using assms(1) by (simp_all add: sched_view_def)
  have "\<exists>b th. thread_of s t = Some b \<and> ((threads s)(a \<mapsto> t')) b = Some th" if "t \<in> set (concat (map snd ps))" for t
    using sched_ok_thread [OF ok that] by auto
  then have "\<forall>t \<in> set (concat (map snd ps)). \<exists>b th. thread_of ?s t = Some b \<and> threads ?s b = Some th"
    by (simp only: same) blast
  then have "sched_ok ?s ps" using ok unfolding sched_ok_def by (simp only: same) blast
  moreover have "map (\<lambda>(e, t). thread_at ?s t) (ring ps) = ths[j := t']"
  proof (rule nth_equalityI)
    fix k assume "k < length (map (\<lambda>(e, t). thread_at ?s t) (ring ps))"
    then have k: "k < length (ring ps)" by simp
    have j: "j < length (ring ps)" using assms(2) ths by simp
    have d: "distinct (map (thread_of s) (map snd (ring ps)))" using ok by (simp add: sched_ok_def snd_ring)
    have "thread_of s (snd (ring ps ! k)) = Some a \<longleftrightarrow> k = j"
      using nth_eq_iff_index_eq [OF d, of k j] j k assms(3) by auto
    moreover obtain b th where "thread_of s (snd (ring ps ! k)) = Some b" "threads s b = Some th"
      using ring_thread [OF ok k] by blast
    ultimately show "map (\<lambda>(e, t). thread_at ?s t) (ring ps) ! k = ths[j := t'] ! k"
      using k j by (auto simp: ths nth_list_update thread_at_def same split: prod.splits)
  qed (simp add: ths)
  ultimately show ?thesis using assms(1) by (simp add: sched_view_def same)
qed

lemma view_put:
  assumes "sched_view s ps ths i" "thread_of s (CurrIteratedThread s) = Some a"
  shows "sched_view (put_thread a t' s) ps (ths[i := t']) i"
proof (rule view_put_at [OF assms(1)])
  show "i < length ths" using view_length [OF assms(1)] by simp
  have "snd (ring ps ! i) = CurrIteratedThread s" using assms(1) by (simp add: sched_view_def flip: prod.collapse) (metis snd_conv)
  then show "thread_of s (snd (ring ps ! i)) = Some a" using assms(2) by simp
qed

lemma view_next:
  assumes "sched_view s ps ths i"
  shows "\<exists>s'. PickNextThread s = ret s' \<and> sched_view s' ps ths (Suc i mod length ths) \<and>
    (\<exists>p t. s' = s\<lparr>CurrIteratedProc := p, CurrIteratedThread := t\<rparr>)"
proof -
  let ?j = "Suc i mod length (ring ps)"
  let ?s = "s\<lparr>CurrIteratedProc := fst (ring ps ! ?j), CurrIteratedThread := snd (ring ps ! ?j)\<rparr>"
  have v: "sched_ok s ps" "i < length (ring ps)" "(CurrIteratedProc s, CurrIteratedThread s) = ring ps ! i"
    using assms by (simp_all add: sched_view_def)
  have "?j < length (ring ps)" using v(2) by (cases "length (ring ps)") auto
  then have "sched_view ?s ps ths ?j"
    using assms by (auto simp: sched_view_def thread_at_def [abs_def])
  with PickNextThread_next [OF v] view_length [OF assms] show ?thesis by auto
qed

text \<open>The fields the choice of a thread leaves alone are all but three.\<close>

definition chooses :: "'z sched_state_scheme \<Rightarrow> 'z sched_state_scheme \<Rightarrow> bool" where
  "chooses s s' \<longleftrightarrow> s'\<lparr>CurrIteratedProc := NULL, CurrIteratedThread := NULL, threads := Map.empty\<rparr> =
     s\<lparr>CurrIteratedProc := NULL, CurrIteratedThread := NULL, threads := Map.empty\<rparr>"

lemma chooses_simps [simp]:
  "chooses s s" "chooses s (put_thread a t s') = chooses s s'" "chooses (put_thread a t s) s' = chooses s s'"
  "chooses s (s'\<lparr>CurrIteratedProc := p, CurrIteratedThread := q\<rparr>) = chooses s s'"
  by (simp_all add: chooses_def put_thread_def)

lemma chooses_trans: "chooses s s' \<Longrightarrow> chooses s' s'' \<Longrightarrow> chooses s s''"
  by (simp add: chooses_def)

lemma chooses_fields:
  assumes "chooses s s'"
  shows "SchedTickCounter s' = SchedTickCounter s" "initialized s' = initialized s"
    "procs s' = procs s" "proc_of s' = proc_of s" "CurrentPageDirectory s' = CurrentPageDirectory s"
    "thread_of s' = thread_of s" "IdtIntHandlers s' = IdtIntHandlers s" "links s' = links s"
    "SchedProcessList s' = SchedProcessList s" "sched_state.more s' = sched_state.more s" "same_mem s s'"
    "IdtTable s' = IdtTable s"
  unfolding same_mem_def
  using assms [unfolded chooses_def, THEN arg_cong, of SchedTickCounter]
    assms [unfolded chooses_def, THEN arg_cong, of initialized]
    assms [unfolded chooses_def, THEN arg_cong, of procs]
    assms [unfolded chooses_def, THEN arg_cong, of proc_of]
    assms [unfolded chooses_def, THEN arg_cong, of CurrentPageDirectory]
    assms [unfolded chooses_def, THEN arg_cong, of thread_of]
    assms [unfolded chooses_def, THEN arg_cong, of IdtIntHandlers]
    assms [unfolded chooses_def, THEN arg_cong, of links]
    assms [unfolded chooses_def, THEN arg_cong, of SchedProcessList]
    assms [unfolded chooses_def, THEN arg_cong, of sched_state.more]
    assms [unfolded chooses_def, THEN arg_cong, of MmPmBitmap]
    assms [unfolded chooses_def, THEN arg_cong, of MmPmBitmapTop]
    assms [unfolded chooses_def, THEN arg_cong, of pmem]
    assms [unfolded chooses_def, THEN arg_cong, of bmem]
    assms [unfolded chooses_def, THEN arg_cong, of LibAllocLock]
    assms [unfolded chooses_def, THEN arg_cong, of majors]
    assms [unfolded chooses_def, THEN arg_cong, of minors]
    assms [unfolded chooses_def, THEN arg_cong, of l_memRoot]
    assms [unfolded chooses_def, THEN arg_cong, of l_bestBet]
    assms [unfolded chooses_def, THEN arg_cong, of IdtTable] by simp_all

text \<open>One round of the loop.\<close>

lemma pick_loop_step:
  assumes "sched_view s ps ths i" "j = Suc i mod length ths"
  shows "\<exists>s1 a. sched_view s1 ps ths j \<and> chooses s s1 \<and> cur_thread s1 = ret (a, ths ! j) \<and>
    thread_of s1 (CurrIteratedThread s1) = Some a \<and>
    pick_loop s = (if State (ths ! j) = TASK_STATE_SLEEPING
      then pick_loop (put_thread a ((ths ! j)\<lparr>RemainingCpuTime := RemainingCpuTime (ths ! j) - 1\<rparr>) s1) else ret s1)"
proof -
  obtain s1 where s1: "PickNextThread s = ret s1" "sched_view s1 ps ths j" "chooses s s1"
    using view_next [OF assms(1)] assms(2) by auto
  moreover obtain a where "cur_thread s1 = ret (a, ths ! j)" "thread_of s1 (CurrIteratedThread s1) = Some a"
    using view_current [OF s1(2)] by blast
  moreover from this s1(1) have "pick_loop s = (if State (ths ! j) = TASK_STATE_SLEEPING
      then pick_loop (put_thread a ((ths ! j)\<lparr>RemainingCpuTime := RemainingCpuTime (ths ! j) - 1\<rparr>) s1) else ret s1)"
    by (subst pick_loop.simps) simp
  ultimately show ?thesis by blast
qed

lemma pickNextTask_refines:
  assumes "sched_view s ps ths i" "pick_spec n ths i = Some (ths', j)"
  shows "\<exists>s'. pickNextTask s = ret s' \<and> sched_view s' ps ths' j \<and> chooses s s'"
  using assms
proof (induction n arbitrary: s ths i)
  case (Suc n)
  let ?j = "Suc i mod length ths"
  obtain s1 a where s1: "sched_view s1 ps ths ?j" "chooses s s1" "cur_thread s1 = ret (a, ths ! ?j)"
    "thread_of s1 (CurrIteratedThread s1) = Some a"
    "pick_loop s = (if State (ths ! ?j) = TASK_STATE_SLEEPING
      then pick_loop (put_thread a ((ths ! ?j)\<lparr>RemainingCpuTime := RemainingCpuTime (ths ! ?j) - 1\<rparr>) s1) else ret s1)"
    using pick_loop_step [OF Suc.prems(1) refl] by blast
  note put = view_put [OF s1(1,4)]
  show ?case
  proof (cases "State (ths ! ?j) = TASK_STATE_SLEEPING")
    case True
    let ?t = "(ths ! ?j)\<lparr>RemainingCpuTime := RemainingCpuTime (ths ! ?j) - 1\<rparr>"
    have "pick_spec n (ths[?j := ?t]) ?j = Some (ths', j)" using Suc.prems(2) True by (simp add: Let_def)
    then obtain s' where "pickNextTask (put_thread a ?t s1) = ret s'" "sched_view s' ps ths' j"
      "chooses (put_thread a ?t s1) s'"
      using Suc.IH [OF put] by blast
    moreover have "pickNextTask s = pickNextTask (put_thread a ?t s1)" using s1(5) True by (simp add: pickNextTask_def)
    ultimately show ?thesis using chooses_trans [OF s1(2)] by (auto simp: chooses_def put_thread_def)
  next
    case False
    let ?t = "(ths ! ?j)\<lparr>RemainingCpuTime := 2\<rparr>"
    have "pickNextTask s = ret (put_thread a ?t s1)"
      using s1(3,5) False by (simp add: pickNextTask_def SchedTimePerThread_def)
    moreover have "ths' = ths[?j := ?t]" "j = ?j" using Suc.prems(2) False by (auto simp: Let_def)
    ultimately show ?thesis using put s1(2) by auto
  qed
qed simp

lemma pick_loop_diverges:
  assumes "pick_loop s = Some r" "sched_view s ps ths i"
  shows "\<exists>t \<in> set ths. State t \<noteq> TASK_STATE_SLEEPING"
proof -
  have "\<forall>ths i. sched_view s ps ths i \<longrightarrow> (\<exists>t \<in> set ths. State t \<noteq> TASK_STATE_SLEEPING)"
  proof (rule pick_loop.raw_induct [OF _ assms(1), where P = "\<lambda>s r. \<forall>ths i. sched_view s ps ths i \<longrightarrow> (\<exists>t \<in> set ths. State t \<noteq> TASK_STATE_SLEEPING)"], intro allI impI)
    fix loop :: "'a sched_state_scheme \<Rightarrow> 'a sched_state_scheme run" and s r ths i
    assume ih: "\<And>s r. loop s = Some r \<Longrightarrow> \<forall>ths i. sched_view s ps ths i \<longrightarrow> (\<exists>t \<in> set ths. State t \<noteq> TASK_STATE_SLEEPING)"
      and body: "mbind (PickNextThread s) (\<lambda>s. mbind (cur_thread s) (\<lambda>(a, t). if State t = TASK_STATE_SLEEPING
        then loop (put_thread a (t\<lparr>RemainingCpuTime := RemainingCpuTime t - 1\<rparr>) s) else ret s)) = Some r"
      and view: "sched_view s ps ths i"
    let ?j = "Suc i mod length ths"
    have j: "?j < length ths" using view_length [OF view] by (cases "length ths") auto
    obtain s1 where s1: "PickNextThread s = ret s1" "sched_view s1 ps ths ?j" using view_next [OF view] by blast
    obtain a where a: "cur_thread s1 = ret (a, ths ! ?j)" "thread_of s1 (CurrIteratedThread s1) = Some a"
      using view_current [OF s1(2)] by blast
    show "\<exists>t \<in> set ths. State t \<noteq> TASK_STATE_SLEEPING"
    proof (cases "State (ths ! ?j) = TASK_STATE_SLEEPING")
      case True
      let ?t = "(ths ! ?j)\<lparr>RemainingCpuTime := RemainingCpuTime (ths ! ?j) - 1\<rparr>"
      have "loop (put_thread a ?t s1) = Some r" using body s1(1) a(1) True by simp
      with ih view_put [OF s1(2) a(2)] obtain t where "t \<in> set (ths[?j := ?t])" "State t \<noteq> TASK_STATE_SLEEPING"
        by blast
      moreover from this(1) have "t = ?t \<or> t \<in> set ths" using set_update_subset_insert by fastforce
      ultimately show ?thesis using True by auto
    next
      case False
      with j show ?thesis by (meson nth_mem)
    qed
  qed
  with assms(2) show ?thesis by blast
qed

lemma pickNextTask_diverges:
  assumes "sched_view s ps ths i" "\<forall>t \<in> set ths. State t = TASK_STATE_SLEEPING"
  shows "pickNextTask s = None"
  using pick_loop_diverges [OF _ assms(1)] assms(2) by (cases "pick_loop s") (auto simp: pickNextTask_def mbind_def)

text \<open>What the search does to the threads, and when it ends.\<close>

lemma pick_spec_threads:
  "pick_spec n ths i = Some (ths', j) \<Longrightarrow> i < length ths \<Longrightarrow> j < length ths \<and> length ths' = length ths \<and>
     State (ths ! j) = TASK_STATE_RUNNING \<and> RemainingCpuTime (ths' ! j) = 2 \<and>
     map State ths' = map State ths \<and> map CPUFrame ths' = map CPUFrame ths"
proof (induction n arbitrary: ths i)
  case (Suc n)
  let ?j = "Suc i mod length ths"
  have j: "?j < length ths" using Suc.prems(2) by (cases "length ths") auto
  show ?case
  proof (cases "State (ths ! ?j) = TASK_STATE_SLEEPING")
    case True
    let ?ths = "ths[?j := (ths ! ?j)\<lparr>RemainingCpuTime := RemainingCpuTime (ths ! ?j) - 1\<rparr>]"
    have "map State ?ths = map State ths" "map CPUFrame ?ths = map CPUFrame ths"
      using j by (simp_all add: map_update list_update_same_conv)
    moreover have r: "pick_spec n ?ths ?j = Some (ths', j)" using Suc.prems(1) True by (simp add: Let_def)
    ultimately show ?thesis using Suc.IH [OF r] j
      by (metis length_list_update nth_map)
  next
    case False
    then have "State (ths ! ?j) = TASK_STATE_RUNNING" by (cases "State (ths ! ?j)") auto
    moreover have "j = ?j" "ths' = ths[?j := (ths ! ?j)\<lparr>RemainingCpuTime := 2\<rparr>]"
      using False Suc.prems(1) by (auto simp: Let_def)
    ultimately show ?thesis using j by (simp add: map_update list_update_same_conv)
  qed
qed simp

lemma pick_spec_None:
  assumes "i < length ths"
  shows "pick_spec n ths i = None \<longleftrightarrow> (\<forall>k < n. State (ths ! ((i + Suc k) mod length ths)) = TASK_STATE_SLEEPING)"
  using assms
proof (induction n arbitrary: ths i)
  case (Suc n)
  let ?j = "Suc i mod length ths"
  let ?ths = "ths[?j := (ths ! ?j)\<lparr>RemainingCpuTime := RemainingCpuTime (ths ! ?j) - 1\<rparr>]"
  have j: "?j < length ths" using Suc.prems by (cases "length ths") auto
  have "State (?ths ! k) = State (ths ! k)" for k using j by (cases "k = ?j") auto
  then have "pick_spec n ?ths ?j = None \<longleftrightarrow> (\<forall>k < n. State (ths ! ((i + Suc (Suc k)) mod length ths)) = TASK_STATE_SLEEPING)"
    using Suc.IH [of ?j ?ths] j mod_add_left_eq [of "Suc i" "length ths"] by (metis add_Suc add_Suc_right length_list_update)
  moreover have "(\<forall>k < Suc n. P k) \<longleftrightarrow> P 0 \<and> (\<forall>k < n. P (Suc k))" for P using less_Suc_eq_0_disj by auto
  ultimately show ?case by (simp add: Let_def)
qed simp

lemma pick_spec_ends:
  assumes "i < length ths"
  shows "pick_spec (length ths) ths i = None \<longleftrightarrow> (\<forall>t \<in> set ths. State t = TASK_STATE_SLEEPING)"
proof -
  let ?N = "length ths"
  have "(\<forall>k < ?N. P ((i + Suc k) mod ?N)) \<longleftrightarrow> (\<forall>m < ?N. P m)" for P
  proof
    assume *: "\<forall>k < ?N. P ((i + Suc k) mod ?N)"
    show "\<forall>m < ?N. P m"
    proof (intro allI impI)
      fix m assume m: "m < ?N"
      let ?k = "if i < m then m - Suc i else m + ?N - Suc i"
      have "i + Suc ?k = (if i < m then m else m + ?N)" using assms by (cases "i < m"; simp only: if_True if_False; linarith)
      then have "?k < ?N" "(i + Suc ?k) mod ?N = m" using m assms by auto
      with * show "P m" by metis
    qed
  next
    assume "\<forall>m < ?N. P m"
    then show "\<forall>k < ?N. P ((i + Suc k) mod ?N)" using assms by (metis less_nat_zero_code mod_less_divisor gr_zeroI)
  qed
  then show ?thesis using pick_spec_None [OF assms, of ?N] by (simp add: all_set_conv_all_nth)
qed

subsection \<open>The interrupt handler\<close>

lemma mbind_cong: "(\<And>x. m = ret x \<Longrightarrow> f x = g x) \<Longrightarrow> mbind m f = mbind m g"
  by (auto simp: mbind_def ret_def split: option.split sum.split)

lemma switch_directory_frame:
  assumes "switch_directory L s = ret s'"
  shows "sched_view s' ps ths i = sched_view s ps ths i" "SchedTickCounter s' = SchedTickCounter s"
    "initialized s' = initialized s" "procs s' = procs s" "proc_of s' = proc_of s"
proof -
  have "\<exists>x y z. s' = s\<lparr>CurrentPageDirectoryPhys := x, CurrentPageDirectory := y, cr3 := z\<rparr>"
  proof -
    obtain p :: Process where p: "(if CurrentPageDirectory s \<noteq> PageDirectory p \<and> PageDirectory p \<noteq> NULL
      then Some (SwitchPageDirectory L (PageDirectory p) s) else ret s) = ret s'"
      using assms unfolding switch_directory_def mbind_eq_ret by blast
    then show ?thesis
    proof (cases "CurrentPageDirectory s \<noteq> PageDirectory p \<and> PageDirectory p \<noteq> NULL")
      case True
      with p have "SwitchPageDirectory L (PageDirectory p) s = Inr s'" by (simp add: ret_def)
      then show ?thesis by (auto simp: SwitchPageDirectory_def rbind_def split: sum.splits)
    next
      case False
      with p have "s' = s" by (auto simp: ret_def)
      then show ?thesis by (intro exI [of _ "CurrentPageDirectoryPhys s"] exI [of _ "CurrentPageDirectory s"] exI [of _ "cr3 s"]) simp
    qed
  qed
  then obtain x y z where s': "s' = s\<lparr>CurrentPageDirectoryPhys := x, CurrentPageDirectory := y, cr3 := z\<rparr>" by blast
  show "sched_view s' ps ths i = sched_view s ps ths i" by (rule sched_view_frame) (simp_all add: s')
  show "SchedTickCounter s' = SchedTickCounter s" "initialized s' = initialized s" "procs s' = procs s" "proc_of s' = proc_of s"
    by (simp_all add: s')
qed

text \<open>The last two steps of the handler.\<close>

definition leave :: "linker \<Rightarrow> IdtFrame \<Rightarrow> 'z sched_state_scheme \<Rightarrow> (IdtFrame \<times> 'z sched_state_scheme) run" where
  "leave L frame s = mbind (switch_directory L s) (\<lambda>s. mbind (cur_thread s) (\<lambda>(a, t). ret (SchedLoadFrame frame t, s)))"

lemma leave_view:
  assumes "sched_view s ps ths i"
  shows "leave L frame s = mbind (switch_directory L s) (\<lambda>s'. ret (SchedLoadFrame frame (ths ! i), s'))"
  unfolding leave_def
proof (rule mbind_cong)
  fix s' assume "switch_directory L s = ret s'"
  then have "sched_view s' ps ths i" using assms switch_directory_frame(1) by blast
  then obtain a where "cur_thread s' = ret (a, ths ! i)" using view_current by blast
  then show "mbind (cur_thread s') (\<lambda>(a, t). ret (SchedLoadFrame frame t, s')) = ret (SchedLoadFrame frame (ths ! i), s')"
    by simp
qed

text \<open>The first step: the tick is counted and the interrupted thread saved, if there was one.\<close>

definition enter :: "IdtFrame \<Rightarrow> 'z sched_state_scheme \<Rightarrow> 'z sched_state_scheme run" where
  "enter frame s =
     (let s = s\<lparr>SchedTickCounter := SchedTickCounter s + 1\<rparr> in
      if initialized s then mbind (cur_thread s) (\<lambda>(a, t). ret (put_thread a (SchedSaveFrame frame t) s))
      else ret (s\<lparr>initialized := True\<rparr>))"

definition interrupted :: "IdtFrame \<Rightarrow> 'z sched_state_scheme \<Rightarrow> SchedThread \<Rightarrow> SchedThread" where
  "interrupted frame s t = (if initialized s then SchedSaveFrame frame t else t)"

text \<open>What a tick changes and keeps, apart from the threads and the current one.\<close>

definition ticked :: "'z sched_state_scheme \<Rightarrow> 'z sched_state_scheme \<Rightarrow> bool" where
  "ticked s s' \<longleftrightarrow> SchedTickCounter s' = SchedTickCounter s + 1 \<and> initialized s' \<and> procs s' = procs s \<and> proc_of s' = proc_of s \<and>
     thread_of s' = thread_of s \<and> IdtIntHandlers s' = IdtIntHandlers s \<and> links s' = links s \<and>
     SchedProcessList s' = SchedProcessList s \<and> sched_state.more s' = sched_state.more s \<and> same_mem s s' \<and>
     IdtTable s' = IdtTable s"

lemma same_mem_more [simp]:
  "same_mem s s" "same_mem s (put_thread a t s') = same_mem s s'" "same_mem s (s'\<lparr>initialized := b\<rparr>) = same_mem s s'"
  "same_mem s (s'\<lparr>SchedTickCounter := n\<rparr>) = same_mem s s'" "same_mem s (s'\<lparr>threads := m\<rparr>) = same_mem s s'"
  by (simp_all add: same_mem_def put_thread_def)

lemma same_mem_trans: "same_mem s s' \<Longrightarrow> same_mem s' s'' \<Longrightarrow> same_mem s s''"
  by (simp add: same_mem_def)

lemma enter_view:
  assumes "sched_view s ps ths i"
  shows "\<exists>s'. enter frame s = ret s' \<and> sched_view s' ps (ths[i := interrupted frame s (ths ! i)]) i \<and> ticked s s'"
proof -
  let ?s = "s\<lparr>SchedTickCounter := SchedTickCounter s + 1\<rparr>"
  have v: "sched_view ?s ps ths i" using assms by (subst sched_view_frame [of _ s]) simp_all
  show ?thesis
  proof (cases "initialized s")
    case True
    obtain a where a: "cur_thread ?s = ret (a, ths ! i)" "thread_of ?s (CurrIteratedThread ?s) = Some a"
      using view_current [OF v] by blast
    have "sched_view (put_thread a (SchedSaveFrame frame (ths ! i)) ?s) ps (ths[i := interrupted frame s (ths ! i)]) i"
      using view_put [OF v a(2)] True by (simp add: interrupted_def)
    then show ?thesis using True a(1) by (simp add: enter_def put_thread_def ticked_def)
  next
    case False
    have "sched_view (?s\<lparr>initialized := True\<rparr>) ps ths i" using v by (subst sched_view_frame [of _ ?s]) simp_all
    then show ?thesis using False by (simp add: enter_def interrupted_def ticked_def)
  qed
qed

lemma SchedIrqHandler_phases:
  "SchedIrqHandler L frame s =
     mbind (enter frame s) (\<lambda>s.
     mbind (cur_thread s) (\<lambda>(a, t).
     mbind (if State t = TASK_STATE_RUNNING then
               (let t = (if RemainingCpuTime t > 0 then t\<lparr>RemainingCpuTime := RemainingCpuTime t - 1\<rparr> else t);
                    s = put_thread a t s
                in if RemainingCpuTime t = 0 then pickNextTask s else ret s)
             else
               (let t = t\<lparr>RemainingCpuTime := RemainingCpuTime t - 1\<rparr>;
                    s = put_thread a t s
                in if RemainingCpuTime t = 0
                   then ret (put_thread a (t\<lparr>State := TASK_STATE_RUNNING, RemainingCpuTime := SchedTimePerThread\<rparr>) s)
                   else pickNextTask s)) (leave L frame)))"
  by (simp add: SchedIrqHandler_def enter_def leave_def [abs_def] Let_def)

lemma put_put [simp]: "put_thread a t (put_thread a u s) = put_thread a t s"
  by (simp add: put_thread_def)

lemma dec_word_zero: "(r :: u32) - 1 = 0 \<longleftrightarrow> r = 1" "r > 0 \<Longrightarrow> r \<le> 1 \<longleftrightarrow> r = 1" "\<not> r > 0 \<Longrightarrow> r = 0"
proof -
  show "r - 1 = 0 \<longleftrightarrow> r = 1" by (rule right_minus_eq)
qed (auto simp: word_gt_0 word_le_nat_alt word_unat_eq_iff)

lemma pick_phase:
  assumes "sched_view s ps ths i"
  shows "case pick_spec (length ths) ths i of None \<Rightarrow> pickNextTask s = None
    | Some (ths', j) \<Rightarrow> \<exists>s'. pickNextTask s = ret s' \<and> sched_view s' ps ths' j \<and> chooses s s'"
proof (cases "pick_spec (length ths) ths i")
  case None
  then have "\<forall>t \<in> set ths. State t = TASK_STATE_SLEEPING" using pick_spec_ends view_length [OF assms] by blast
  with None pickNextTask_diverges [OF assms] show ?thesis by simp
next
  case (Some v)
  then show ?thesis using pickNextTask_refines [OF assms] by (cases v) auto
qed

text \<open>
  The handler answers \<open>spec\<close>: it does not return, or it resumes the thread of \<open>spec\<close> after a change
  of the page directory, with the threads of \<open>spec\<close>.
\<close>

definition answers :: "linker \<Rightarrow> IdtFrame \<Rightarrow> 'z sched_state_scheme \<Rightarrow> (ptr \<times> ptr list) list \<Rightarrow> (SchedThread list \<times> nat) option \<Rightarrow>
    (IdtFrame \<times> 'z sched_state_scheme) run \<Rightarrow> bool" where
  "answers L frame s ps spec r \<longleftrightarrow> (case spec of None \<Rightarrow> r = None
     | Some (ths', j) \<Rightarrow> \<exists>s'. sched_view s' ps ths' j \<and> ticked s s' \<and>
         r = mbind (switch_directory L s') (\<lambda>s''. ret (SchedLoadFrame frame (ths' ! j), s'')))"

lemma stay_answers:
  assumes "sched_view s1 ps (ths[i := t]) i" "thread_of s1 (CurrIteratedThread s1) = Some a" "ticked s s1"
  shows "answers L frame s ps (Some (ths[i := t'], i)) (leave L frame (put_thread a t' s1))"
proof -
  have put: "sched_view (put_thread a t' s1) ps (ths[i := t']) i" using view_put [OF assms(1,2), of t'] by simp
  then show ?thesis using leave_view [OF put, of L frame] assms(3)
    unfolding answers_def by (auto simp: put_thread_def ticked_def intro!: exI [of _ "put_thread a t' s1"])
qed

lemma pick_answers:
  assumes "sched_view s1 ps (ths[i := t]) i" "thread_of s1 (CurrIteratedThread s1) = Some a" "ticked s s1"
  shows "answers L frame s ps (pick_spec (length ths) (ths[i := t']) i) (mbind (pickNextTask (put_thread a t' s1)) (leave L frame))"
proof (cases "pick_spec (length ths) (ths[i := t']) i")
  case None
  with pick_phase [OF view_put [OF assms(1,2)], of t'] show ?thesis by (simp add: mbind_def answers_def)
next
  case (Some v)
  obtain ths' j where v: "v = (ths', j)" by (cases v)
  with pick_phase [OF view_put [OF assms(1,2)], of t'] Some obtain s' where s': "pickNextTask (put_thread a t' s1) = ret s'"
    "sched_view s' ps ths' j" "chooses s1 s'" by auto
  then show ?thesis using Some v leave_view [OF s'(2)] chooses_fields [OF s'(3)] assms(3)
    by (auto simp: answers_def ticked_def intro: same_mem_trans)
qed

lemma SchedIrqHandler_answers:
  assumes "sched_view s ps ths i"
  shows "answers L frame s ps (tick_spec (if initialized s then Some frame else None) ths i) (SchedIrqHandler L frame s)"
proof -
  let ?t = "interrupted frame s (ths ! i)" and ?spec = "tick_spec (if initialized s then Some frame else None) ths i"
  obtain s1 where s1: "enter frame s = ret s1" "sched_view s1 ps (ths[i := ?t]) i" "ticked s s1"
    using enter_view [OF assms] by blast
  have i: "i < length ths" using view_length [OF assms] by simp
  obtain a where a: "cur_thread s1 = ret (a, ?t)" "thread_of s1 (CurrIteratedThread s1) = Some a"
    using view_current [OF s1(2)] i by auto
  have t: "(case if initialized s then Some frame else None of Some f \<Rightarrow> SchedSaveFrame f (ths ! i) | None \<Rightarrow> ths ! i) = ?t"
    by (simp add: interrupted_def)
  note phases = SchedIrqHandler_phases [of L frame s] s1(1) a(1)
  note stay = stay_answers [OF s1(2) a(2) s1(3), of L frame] and pick = pick_answers [OF s1(2) a(2) s1(3), of L frame]
  note dec = dec_word_zero [of "RemainingCpuTime ?t"]
  let ?z = "?t\<lparr>RemainingCpuTime := 0\<rparr>" and ?d = "?t\<lparr>RemainingCpuTime := RemainingCpuTime ?t - 1\<rparr>"
    and ?w = "?t\<lparr>State := TASK_STATE_RUNNING, RemainingCpuTime := 2\<rparr>"
  consider (expired) "State ?t = TASK_STATE_RUNNING" "RemainingCpuTime ?t \<le> 1"
    | (running) "State ?t = TASK_STATE_RUNNING" "\<not> RemainingCpuTime ?t \<le> 1"
    | (woken) "State ?t \<noteq> TASK_STATE_RUNNING" "RemainingCpuTime ?t = 1"
    | (asleep) "State ?t \<noteq> TASK_STATE_RUNNING" "RemainingCpuTime ?t \<noteq> 1" by blast
  then show ?thesis
  proof cases
    case expired
    then have "(if RemainingCpuTime ?t > 0 then ?d else ?t) = ?z" using dec by auto
    then have "SchedIrqHandler L frame s = mbind (pickNextTask (put_thread a ?z s1)) (leave L frame)"
      using expired by (simp add: phases Let_def)
    moreover have "?spec = pick_spec (length ths) (ths[i := ?z]) i" using expired by (simp add: tick_spec_def t Let_def)
    ultimately show ?thesis using pick [of ?z] by simp
  next
    case running
    then have "RemainingCpuTime ?t > 0" "RemainingCpuTime ?t - 1 \<noteq> 0" using dec by (auto simp: word_gt_0)
    then have "SchedIrqHandler L frame s = leave L frame (put_thread a ?d s1)" using running by (simp add: phases Let_def)
    then show ?thesis using stay [of ?d] running by (simp add: tick_spec_def t Let_def)
  next
    case woken
    then have "SchedIrqHandler L frame s = leave L frame (put_thread a ?w s1)"
      by (simp add: phases Let_def SchedTimePerThread_def)
    then show ?thesis using stay [of ?w] woken by (simp add: tick_spec_def t Let_def)
  next
    case asleep
    then have "SchedIrqHandler L frame s = mbind (pickNextTask (put_thread a ?d s1)) (leave L frame)"
      using dec by (simp add: phases Let_def)
    moreover have "?spec = pick_spec (length ths) (ths[i := ?d]) i" using asleep by (simp add: tick_spec_def t Let_def)
    ultimately show ?thesis using pick [of ?d] by simp
  qed
qed

lemma answersD:
  assumes "answers L frame s ps spec r"
  shows "case spec of None \<Rightarrow> r = None
    | Some (ths', j) \<Rightarrow> \<exists>s'. sched_view s' ps ths' j \<and> SchedTickCounter s' = SchedTickCounter s + 1 \<and> initialized s' \<and>
        procs s' = procs s \<and> proc_of s' = proc_of s \<and>
        r = mbind (switch_directory L s') (\<lambda>s''. ret (SchedLoadFrame frame (ths' ! j), s''))"
  using assms by (cases spec) (auto simp: answers_def ticked_def)

lemma SchedIrqHandler_view:
  assumes "sched_view s ps ths i"
  shows "case tick_spec (if initialized s then Some frame else None) ths i of
      None \<Rightarrow> SchedIrqHandler L frame s = None
    | Some (ths', j) \<Rightarrow> \<exists>s'. sched_view s' ps ths' j \<and> SchedTickCounter s' = SchedTickCounter s + 1 \<and> initialized s' \<and>
        procs s' = procs s \<and> proc_of s' = proc_of s \<and>
        SchedIrqHandler L frame s = mbind (switch_directory L s') (\<lambda>s''. ret (SchedLoadFrame frame (ths' ! j), s''))"
  by (rule answersD [OF SchedIrqHandler_answers [OF assms]])

section \<open>Properties\<close>

lemma tick_spec_threads:
  assumes "tick_spec frame ths i = Some (ths', j)" "i < length ths"
  shows "j < length ths" "length ths' = length ths" "State (ths' ! j) = TASK_STATE_RUNNING"
    "k \<noteq> i \<Longrightarrow> k < length ths \<Longrightarrow> State (ths' ! k) = State (ths ! k) \<and> CPUFrame (ths' ! k) = CPUFrame (ths ! k)"
    "j = i \<or> State (ths ! j) = TASK_STATE_RUNNING"
    "CPUFrame (ths' ! i) = CPUFrame (case frame of Some f \<Rightarrow> SchedSaveFrame f (ths ! i) | None \<Rightarrow> ths ! i)"
proof -
  let ?t = "case frame of Some f \<Rightarrow> SchedSaveFrame f (ths ! i) | None \<Rightarrow> ths ! i"
  have st: "State ?t = State (ths ! i)" by (simp add: SchedSaveFrame_def split: option.split)
  have *: "j < length ths \<and> length ths' = length ths \<and> State (ths' ! j) = TASK_STATE_RUNNING \<and>
      (\<forall>k < length ths. k \<noteq> i \<longrightarrow> State (ths' ! k) = State (ths ! k) \<and> CPUFrame (ths' ! k) = CPUFrame (ths ! k)) \<and>
      (j = i \<or> State (ths ! j) = TASK_STATE_RUNNING) \<and> CPUFrame (ths' ! i) = CPUFrame ?t"
  proof -
    have pick: ?thesis if p: "pick_spec (length ths) (ths[i := t']) i = Some (ths', j)" and t': "CPUFrame t' = CPUFrame ?t" for t'
    proof -
      note c = pick_spec_threads [OF p] assms(2)
      have "State (ths' ! k) = State (ths[i := t'] ! k)" "CPUFrame (ths' ! k) = CPUFrame (ths[i := t'] ! k)" if "k < length ths" for k
        using c that by (metis length_list_update nth_map)+
      with c t' show ?thesis by (auto simp: nth_list_update split: if_splits)
    qed
    show ?thesis
    proof (cases "State ?t = TASK_STATE_RUNNING")
      case True
      with assms pick st show ?thesis by (auto simp: tick_spec_def Let_def nth_list_update split: if_splits)
    next
      case False
      with assms pick st show ?thesis by (auto simp: tick_spec_def Let_def nth_list_update split: if_splits)
    qed
  qed
  then show "j < length ths" "length ths' = length ths" "State (ths' ! j) = TASK_STATE_RUNNING"
    "k \<noteq> i \<Longrightarrow> k < length ths \<Longrightarrow> State (ths' ! k) = State (ths ! k) \<and> CPUFrame (ths' ! k) = CPUFrame (ths ! k)"
    "j = i \<or> State (ths ! j) = TASK_STATE_RUNNING" "CPUFrame (ths' ! i) = CPUFrame ?t"
    by blast+
qed

lemma tick_spec_None:
  assumes "i < length ths"
  shows "tick_spec frame ths i = None \<longleftrightarrow>
    (\<forall>t \<in> set ths. State t = TASK_STATE_SLEEPING) \<and> RemainingCpuTime (ths ! i) \<noteq> 1"
proof -
  let ?t = "case frame of Some f \<Rightarrow> SchedSaveFrame f (ths ! i) | None \<Rightarrow> ths ! i"
  have st: "State ?t = State (ths ! i)" "RemainingCpuTime ?t = RemainingCpuTime (ths ! i)"
    by (simp_all add: SchedSaveFrame_def split: option.split)
  have pick: "pick_spec (length ths) (ths[i := t']) i = None \<longleftrightarrow> (\<forall>t \<in> set ths. State t = TASK_STATE_SLEEPING)"
    if "State t' = State (ths ! i)" for t'
  proof -
    have "map State (ths[i := t']) = map State ths" using that assms by (simp add: map_update list_update_same_conv)
    then have "State ` set (ths[i := t']) = State ` set ths" by (metis list.set_map)
    then have "(\<forall>t \<in> set (ths[i := t']). State t = TASK_STATE_SLEEPING) \<longleftrightarrow> (\<forall>t \<in> set ths. State t = TASK_STATE_SLEEPING)"
      by (metis image_iff)
    then show ?thesis using pick_spec_ends [of i "ths[i := t']"] assms by simp
  qed
  show ?thesis
  proof (cases "State (ths ! i) = TASK_STATE_RUNNING")
    case True
    then have "\<not> (\<forall>t \<in> set ths. State t = TASK_STATE_SLEEPING)" using assms by (metis SchedTaskState.distinct(1) nth_mem)
    then show ?thesis using True pick st by (auto simp: tick_spec_def Let_def)
  next
    case False
    then show ?thesis using pick st by (simp add: tick_spec_def Let_def)
  qed
qed

text \<open>The registers of a frame, as a thread keeps them.\<close>

definition registers :: "IdtFrame \<Rightarrow> CPUFrame" where
  "registers f = \<lparr>GsT = Gs f, FsT = Fs f, SsT = Ss f, EsT = Es f, DsT = Ds f, CsT = Cs f, EdiT = Edi f, EsiT = Esi f,
     EbpT = Ebp f, EspT = UserEsp f, EbxT = Ebx f, EdxT = Edx f, EcxT = Ecx f, EaxT = Eax f, EipT = Eip f, EflagsT = Eflags f\<rparr>"

lemma registers_save: "CPUFrame (SchedSaveFrame f t) = registers f"
  by (simp add: SchedSaveFrame_def registers_def)

lemma registers_load: "registers (SchedLoadFrame f t) = CPUFrame t"
  by (simp add: SchedLoadFrame_def registers_def Let_def)

lemma SchedIrqHandler_ret:
  assumes "sched_view s ps ths i" "SchedIrqHandler L frame s = ret (frame', s')"
  shows "\<exists>ths' j. tick_spec (if initialized s then Some frame else None) ths i = Some (ths', j) \<and>
    sched_view s' ps ths' j \<and> frame' = SchedLoadFrame frame (ths' ! j) \<and> SchedTickCounter s' = SchedTickCounter s + 1 \<and>
    initialized s'"
proof (cases "tick_spec (if initialized s then Some frame else None) ths i")
  case None
  with SchedIrqHandler_view [OF assms(1), where frame = frame and L = L] assms(2) show ?thesis by (simp add: ret_def)
next
  case (Some v)
  obtain ths' j where v: "v = (ths', j)" by (cases v)
  with SchedIrqHandler_view [OF assms(1), where frame = frame and L = L] Some obtain s1 where s1: "sched_view s1 ps ths' j"
    "SchedTickCounter s1 = SchedTickCounter s + 1" "initialized s1"
    "SchedIrqHandler L frame s = mbind (switch_directory L s1) (\<lambda>s''. ret (SchedLoadFrame frame (ths' ! j), s''))"
    by auto
  with assms(2) obtain s2 where "switch_directory L s1 = ret s2" "ret (SchedLoadFrame frame (ths' ! j), s2) = ret (frame', s')"
    by (auto simp: mbind_eq_ret)
  then have sw: "switch_directory L s1 = ret s'" "frame' = SchedLoadFrame frame (ths' ! j)" by (simp_all add: ret_def)
  then show ?thesis using Some v s1 switch_directory_frame [OF sw(1)] by auto
qed

subsection \<open>Sleeping\<close>

text \<open>
  What the kernel does to the scheduler once its threads exist: ticks, calls of \<open>SchedSleep\<close>
  for any thread, and work that does not concern the scheduler.
\<close>

definition same_sched :: "'z sched_state_scheme \<Rightarrow> 'z sched_state_scheme \<Rightarrow> bool" where
  "same_sched s s' \<longleftrightarrow> links s' = links s \<and> SchedProcessList s' = SchedProcessList s \<and> proc_of s' = proc_of s \<and>
     procs s' = procs s \<and> threads s' = threads s \<and> thread_of s' = thread_of s \<and>
     CurrIteratedProc s' = CurrIteratedProc s \<and> CurrIteratedThread s' = CurrIteratedThread s"

inductive sched_step :: "linker \<Rightarrow> 'z sched_state_scheme \<Rightarrow> 'z sched_state_scheme \<Rightarrow> bool" for L where
  tick: "SchedIrqHandler L frame s = ret (frame', s') \<Longrightarrow> sched_step L s s'"
| sleep: "SchedSleep (\<lambda>n. SchedIrqHandler L frame) thread millis s = ret (frame', s') \<Longrightarrow> sched_step L s s'"
| work: "same_sched s s' \<Longrightarrow> sched_step L s s'"

definition asleep :: "'z sched_state_scheme \<Rightarrow> (ptr \<times> ptr list) list \<Rightarrow> nat \<Rightarrow> bool" where
  "asleep s ps k \<longleftrightarrow> (\<exists>ths i. sched_view s ps ths i \<and> k < length ths \<and> k \<noteq> i \<and> State (ths ! k) = TASK_STATE_SLEEPING)"

lemma tick_keeps_asleep:
  assumes "sched_view s ps ths i" "k < length ths" "State (ths ! k) = TASK_STATE_SLEEPING"
    and "k \<noteq> i \<or> RemainingCpuTime (ths ! i) \<noteq> 1" "SchedIrqHandler L frame s = ret (frame', s')"
  shows "asleep s' ps k"
proof -
  obtain ths' j where t: "tick_spec (if initialized s then Some frame else None) ths i = Some (ths', j)" "sched_view s' ps ths' j"
    using SchedIrqHandler_ret [OF assms(1,5)] by blast
  have i: "i < length ths" using view_length [OF assms(1)] by simp
  note c = tick_spec_threads [OF t(1) i]
  show ?thesis
  proof (cases "k = i")
    case False
    then have "State (ths' ! k) = TASK_STATE_SLEEPING" using c(4) assms(2,3) by simp
    then show ?thesis using t(2) c(2,3) assms(2) unfolding asleep_def
      by (intro exI [of _ ths'] exI [of _ j]) auto
  next
    case True
    define t where "t = (case if initialized s then Some frame else None of Some f \<Rightarrow> SchedSaveFrame f (ths ! i) | None \<Rightarrow> ths ! i)"
    define u where "u = ths[i := t\<lparr>RemainingCpuTime := RemainingCpuTime t - 1\<rparr>]"
    have st: "State t = TASK_STATE_SLEEPING" "RemainingCpuTime t \<noteq> 1"
      using assms(3,4) True by (simp_all add: t_def SchedSaveFrame_def)
    then have "pick_spec (length ths) u i = Some (ths', j)"
      using t(1) by (simp add: tick_spec_def Let_def u_def t_def)
    moreover have u: "length u = length ths" "State (u ! i) = TASK_STATE_SLEEPING" using st i by (simp_all add: u_def)
    ultimately have "map State ths' = map State u" using pick_spec_threads i by metis
    then have "map State ths' ! i = map State u ! i" by simp
    then have "State (ths' ! k) = TASK_STATE_SLEEPING" using u c(2) i True by simp
    then show ?thesis using t(2) c(2,3) assms(2) unfolding asleep_def
      by (intro exI [of _ ths'] exI [of _ j]) auto
  qed
qed

text \<open>Putting a thread to sleep, before the interrupt.\<close>

lemma put_view:
  assumes "sched_view s ps ths i" "threads s a = Some t" "State t' = TASK_STATE_SLEEPING"
  shows "\<exists>ths'. sched_view (put_thread a t' s) ps ths' i \<and>
    (\<forall>k < length ths. ths' ! k = (if thread_of s (snd (ring ps ! k)) = Some a then t' else ths ! k))"
proof (cases "\<exists>j < length ths. thread_of s (snd (ring ps ! j)) = Some a")
  case True
  then obtain j where j: "j < length ths" "thread_of s (snd (ring ps ! j)) = Some a" by blast
  have ok: "sched_ok s ps" "length (ring ps) = length ths" using assms(1) view_length [OF assms(1)] by (simp_all add: sched_view_def)
  then have d: "distinct (map (thread_of s) (map snd (ring ps)))" by (simp add: sched_ok_def snd_ring)
  have "thread_of s (snd (ring ps ! k)) = Some a \<longleftrightarrow> k = j" if "k < length ths" for k
    using nth_eq_iff_index_eq [OF d, of k j] j that ok(2) by auto
  then show ?thesis using view_put_at [OF assms(1) j, of t'] j(1) by (intro exI [of _ "ths[j := t']"]) auto
next
  case False
  have ok: "sched_ok s ps" "length (ring ps) = length ths" "ths = map (\<lambda>(e, t). thread_at s t) (ring ps)"
    using assms(1) view_length [OF assms(1)] by (simp_all add: sched_view_def)
  have not: "thread_of s (snd x) \<noteq> Some a" if "x \<in> set (ring ps)" for x
    using False that ok(2) by (auto simp: in_set_conv_nth)
  have "thread_at (put_thread a t' s) (snd x) = thread_at s (snd x)" if x: "x \<in> set (ring ps)" for x
  proof -
    obtain k where k: "k < length (ring ps)" "x = ring ps ! k" using x by (auto simp: in_set_conv_nth)
    then obtain b th where "thread_of s (snd x) = Some b" using ring_thread [OF ok(1) k(1)] by blast
    then show ?thesis using not [OF x] by (auto simp: thread_at_def put_thread_def)
  qed
  then have "map (\<lambda>(e, t). thread_at (put_thread a t' s) t) (ring ps) = ths"
    unfolding ok(3) by (auto split: prod.splits)
  moreover have "\<forall>t \<in> set (concat (map snd ps)). \<exists>b th. thread_of s t = Some b \<and> threads (put_thread a t' s) b = Some th"
    using sched_ok_thread [OF ok(1)] by (fastforce simp: put_thread_def)
  then have "sched_ok (put_thread a t' s) ps"
    using ok(1) unfolding sched_ok_def by (simp add: put_thread_def)
  ultimately have "sched_view (put_thread a t' s) ps ths i" using assms(1) by (simp add: sched_view_def put_thread_def)
  then show ?thesis using False by (intro exI [of _ ths]) auto
qed

inductive_cases sched_stepE: "sched_step L s s'"

lemma SchedSleep_ret:
  assumes "SchedSleep raise a millis s = ret r"
  shows "\<exists>t. threads s a = Some t \<and>
    raise 0x20 (put_thread a (t\<lparr>State := TASK_STATE_SLEEPING, RemainingCpuTime := millis\<rparr>) s) = ret r"
proof -
  have "mbind (deref (threads s) a) (\<lambda>t. raise 0x20 (put_thread a (t\<lparr>State := TASK_STATE_SLEEPING, RemainingCpuTime := millis\<rparr>) s)) = ret r"
    using assms by (simp add: SchedSleep_def SchedTick_def mbind_KAssert_eq_ret)
  then show ?thesis by (cases "threads s a") (simp_all add: deref_def ret_def)
qed

lemma sched_step_asleep:
  assumes "sched_step L s s'" "asleep s ps k"
  shows "asleep s' ps k"
proof -
  obtain ths i where v: "sched_view s ps ths i" "k < length ths" "k \<noteq> i" "State (ths ! k) = TASK_STATE_SLEEPING"
    using assms(2) by (auto simp: asleep_def)
  from assms(1) show ?thesis
  proof cases
    case (tick frame frame')
    with v tick_keeps_asleep show ?thesis by blast
  next
    case (sleep frame thread millis frame')
    obtain t where t: "threads s thread = Some t" and irq: "SchedIrqHandler L frame
        (put_thread thread (t\<lparr>State := TASK_STATE_SLEEPING, RemainingCpuTime := millis\<rparr>) s) = ret (frame', s')"
      using SchedSleep_ret [OF sleep] by blast
    obtain ths' where ths': "sched_view (put_thread thread (t\<lparr>State := TASK_STATE_SLEEPING, RemainingCpuTime := millis\<rparr>) s) ps ths' i"
      "\<forall>k < length ths. ths' ! k = (if thread_of s (snd (ring ps ! k)) = Some thread
         then t\<lparr>State := TASK_STATE_SLEEPING, RemainingCpuTime := millis\<rparr> else ths ! k)"
      using put_view [OF v(1) t, of "t\<lparr>State := TASK_STATE_SLEEPING, RemainingCpuTime := millis\<rparr>"] by auto
    have "length ths' = length ths" using view_length [OF ths'(1)] view_length [OF v(1)] by simp
    moreover have "State (ths' ! k) = TASK_STATE_SLEEPING" using ths'(2) v(2,4) by simp
    ultimately show ?thesis using tick_keeps_asleep [OF ths'(1) _ _ _ irq, of k] v(2,3) by simp
  next
    case work
    then have "sched_view s' ps ths i = sched_view s ps ths i" by (intro sched_view_frame) (simp_all add: same_sched_def)
    with v show ?thesis by (auto simp: asleep_def)
  qed
qed

interpretation sleeping: preserved "sched_step L" "\<lambda>s. asleep s ps k" for L ps k
  by unfold_locales (rule sched_step_asleep)

subsection \<open>Progress\<close>

fun ticks :: "linker \<Rightarrow> IdtFrame list \<Rightarrow> 'z sched_state_scheme \<Rightarrow> 'z sched_state_scheme run" where
  "ticks L [] s = ret s"
| "ticks L (f # fs) s = mbind (SchedIrqHandler L f s) (\<lambda>(f', s). ticks L fs s)"

text \<open>No process has a page directory of its own, as when only the kernel's process exists.\<close>

definition kernel_only :: "'z sched_state_scheme \<Rightarrow> bool" where
  "kernel_only s \<longleftrightarrow> (\<forall>p pr. procs s p = Some pr \<longrightarrow> PageDirectory pr = NULL)"

lemma kernel_only_switch:
  assumes "kernel_only s" "sched_view s ps ths i"
  shows "switch_directory L s = ret s"
proof -
  obtain p where p: "cur_process s = ret p" using view_current_process [OF assms(2)] by blast
  then have "\<exists>a. procs s a = Some p" by (auto simp: cur_process_def mbind_eq_ret deref_def ret_def split: option.splits)
  with assms(1) p show ?thesis by (auto simp: switch_directory_def kernel_only_def)
qed

lemma kernel_tick:
  assumes "sched_view s ps ths i" "kernel_only s" "tick_spec (if initialized s then Some frame else None) ths i = Some (ths', j)"
  shows "\<exists>s'. SchedIrqHandler L frame s = ret (SchedLoadFrame frame (ths' ! j), s') \<and> sched_view s' ps ths' j \<and> kernel_only s' \<and>
    ticked s s'"
proof -
  obtain s' where s': "sched_view s' ps ths' j" "ticked s s'"
    "SchedIrqHandler L frame s = mbind (switch_directory L s') (\<lambda>s''. ret (SchedLoadFrame frame (ths' ! j), s''))"
    using SchedIrqHandler_answers [OF assms(1), where frame = frame and L = L] assms(3) by (auto simp: answers_def)
  moreover have k: "kernel_only s'" using assms(2) s'(2) by (simp add: kernel_only_def ticked_def)
  ultimately show ?thesis using kernel_only_switch [OF k s'(1), of L] by auto
qed

definition ready :: "SchedThread list \<Rightarrow> nat \<Rightarrow> bool" where
  "ready ths i \<longleftrightarrow> (\<forall>t \<in> set ths. State t = TASK_STATE_RUNNING) \<and> RemainingCpuTime (ths ! i) = 2"

lemma two_ticks:
  assumes "ready ths i" "i < length ths"
  shows "\<exists>ths1 ths2. tick_spec f ths i = Some (ths1, i) \<and> tick_spec g ths1 i = Some (ths2, Suc i mod length ths) \<and>
    ready ths2 (Suc i mod length ths) \<and> length ths1 = length ths \<and> length ths2 = length ths"
proof -
  let ?j = "Suc i mod length ths"
  have j: "?j < length ths" using assms(2) by (cases "length ths") auto
  define t where "t = (case f of Some f \<Rightarrow> SchedSaveFrame f (ths ! i) | None \<Rightarrow> ths ! i)"
  have t: "State t = TASK_STATE_RUNNING" "RemainingCpuTime t = 2"
    using assms by (auto simp: t_def ready_def SchedSaveFrame_def split: option.split)
  have "\<not> (2 :: u32) \<le> 1" by (simp add: word_le_nat_alt)
  note t = t this
  let ?ths1 = "ths[i := t\<lparr>RemainingCpuTime := 1\<rparr>]"
  have one: "tick_spec f ths i = Some (?ths1, i)" using t by (simp add: tick_spec_def Let_def flip: t_def)
  define u where "u = (case g of Some f \<Rightarrow> SchedSaveFrame f (?ths1 ! i) | None \<Rightarrow> ?ths1 ! i)"
  have u: "State u = TASK_STATE_RUNNING" "RemainingCpuTime u = 1"
    using t assms(2) by (auto simp: u_def SchedSaveFrame_def split: option.split)
  let ?w = "ths[i := u\<lparr>RemainingCpuTime := 0\<rparr>]"
  have "tick_spec g ?ths1 i = pick_spec (length ths) ?w i"
    using u assms(2) by (simp add: tick_spec_def Let_def flip: u_def)
  moreover obtain n where n: "length ths = Suc n" using assms(2) by (cases "length ths") auto
  moreover have run: "State (?w ! k) = TASK_STATE_RUNNING" if "k < length ths" for k
    using assms(1) that u(1) by (cases "k = i") (simp_all add: ready_def)
  ultimately have two: "tick_spec g ?ths1 i = Some (?w[?j := (?w ! ?j)\<lparr>RemainingCpuTime := 2\<rparr>], ?j)"
    using j by (simp add: Let_def)
  have "ready (?w[?j := (?w ! ?j)\<lparr>RemainingCpuTime := 2\<rparr>]) ?j"
    using j run by (auto simp: ready_def in_set_conv_nth nth_list_update)
  with one two show ?thesis by auto
qed

end
