(* ===== verification/Processes.thy ===== *)
theory Processes
  imports RoundRobin
begin

text \<open>
  Creating processes and threads keeps the scheduler's data well formed and the memory of others
  untouched. \<open>SchedInit\<close> sets up a ring of two runnable threads.
\<close>

section \<open>Creating processes and threads\<close>

text \<open>
  The invariant of the scheduler's data: well-formed lists of distinct elements, every process
  and thread in one of them, all of it in memory handed out by the heap.
\<close>

definition elements :: "(ptr \<times> ptr list) list \<Rightarrow> ptr list" where
  "elements ps = map fst ps @ concat (map snd ps)"

definition sched_inv :: "linker \<Rightarrow> 'z sched_state_scheme \<Rightarrow> (ptr \<times> ptr list) list \<Rightarrow> bool" where
  "sched_inv L s ps \<longleftrightarrow> sched_ok s ps \<and> distinct (elements ps) \<and> distinct (map (proc_of s) (map fst ps)) \<and>
     (\<forall>x \<in> set (elements ps). owned L s x) \<and>
     (\<forall>e \<in> set (map fst ps). \<exists>p. proc_of s e = Some p \<and> p \<noteq> NULL \<and> owned L s p) \<and>
     (\<forall>t \<in> set (concat (map snd ps)). \<exists>a. thread_of s t = Some a \<and> a \<noteq> NULL \<and> owned L s a)"

lemma same_outside_sched:
  assumes "same_outside s (s' :: 'z sched_state_scheme)"
  shows "links s' = links s" "SchedProcessList s' = SchedProcessList s" "procs s' = procs s" "proc_of s' = proc_of s"
    "threads s' = threads s" "thread_of s' = thread_of s" "currentPid s' = currentPid s" "initialized s' = initialized s"
    "CurrIteratedProc s' = CurrIteratedProc s" "CurrIteratedThread s' = CurrIteratedThread s"
    "SchedTickCounter s' = SchedTickCounter s" "IdtIntHandlers s' = IdtIntHandlers s" "console s' = console s"
    "VfsFsList s' = VfsFsList s" "DevfsDeviceList s' = DevfsDeviceList s" "DevfsRootDir s' = DevfsRootDir s"
  using assms by (cases s', cases s, simp add: same_outside_def)+

text \<open>
  What the scheduler leaves alone: the state of the other components, and every list element that
  is neither its own nor newly allocated.
\<close>

definition same_clients :: "'z sched_state_scheme \<Rightarrow> 'z sched_state_scheme \<Rightarrow> bool" where
  "same_clients s s' \<longleftrightarrow> IdtTable s' = IdtTable s \<and> IdtIntHandlers s' = IdtIntHandlers s \<and> DriverID s' = DriverID s \<and>
     DmDriverCount s' = DmDriverCount s \<and> DmDriverList s' = DmDriverList s \<and> RamDiskCount s' = RamDiskCount s \<and>
     VfsFsList s' = VfsFsList s \<and> DevfsDeviceList s' = DevfsDeviceList s \<and> Device s' = Device s \<and>
     DevfsRootDir s' = DevfsRootDir s \<and> console s' = console s \<and> initialized s' = initialized s \<and>
     CurrentPageDirectory s' = CurrentPageDirectory s \<and> SchedTickCounter s' = SchedTickCounter s"

definition same_links :: "linker \<Rightarrow> ptr set \<Rightarrow> 'z sched_state_scheme \<Rightarrow> 'z sched_state_scheme \<Rightarrow> bool" where
  "same_links L X s s' \<longleftrightarrow> (\<forall>a. owned L s a \<and> a \<notin> X \<longrightarrow> owned L s' a \<and> links s' a = links s a)"

text \<open>Creating a thread or a process changes neither the current thread nor what is built on the scheduler.\<close>

definition same_current :: "'z sched_state_scheme \<Rightarrow> 'z sched_state_scheme \<Rightarrow> bool" where
  "same_current s s' \<longleftrightarrow> CurrIteratedProc s' = CurrIteratedProc s \<and> CurrIteratedThread s' = CurrIteratedThread s \<and>
     sched_state.more s' = sched_state.more s"

lemma same_outside_current: "same_outside s s' \<Longrightarrow> same_current s s'"
  by (cases s', cases s, simp add: same_outside_def same_current_def)

text \<open>All processes run in kernel mode, as those that exist after the boot.\<close>

definition kernel_modes :: "'z sched_state_scheme \<Rightarrow> bool" where
  "kernel_modes s \<longleftrightarrow> (\<forall>p pr. procs s p = Some pr \<longrightarrow> IsKernelMode pr)"

lemma same_outside_clients: "same_outside s s' \<Longrightarrow> same_clients s s'"
  by (cases s', cases s, simp add: same_outside_def same_clients_def)

lemma same_clients_trans: "same_clients s s' \<Longrightarrow> same_clients s' s'' \<Longrightarrow> same_clients s s''"
  by (simp add: same_clients_def)

lemma registered_frame: "(\<And>x. x \<in> set xs \<Longrightarrow> h' x = h x) \<Longrightarrow> registered h' head xs = registered h head xs"
  using dseg_frame [of xs h' h NULL NULL] by (auto simp: registered_def dll_def)

text \<open>Two requests in a row.\<close>

lemma got_two:
  assumes "heap_ready L s" "room L s (Suc (Suc k))" "small m" "small n" "m \<noteq> 0" "n \<noteq> 0"
  shows "\<exists>p s1 q s2. got L m (Suc k) s p s1 \<and> got L n k s1 q s2 \<and> p \<noteq> q \<and> \<not> owned L s p \<and> \<not> owned L s q \<and>
    owned L s2 p \<and> owned L s2 q \<and> keeps L s s2 \<and> (\<forall>a. owned L s a \<longrightarrow> owned L s2 a) \<and> same_outside s s2"
proof -
  obtain p s1 where g: "got L m (Suc k) s p s1" using malloc_got [OF assms(1,3,2)] by blast
  obtain q s2 where h: "got L n k s1 q s2" using malloc_got [OF gotD(4) [OF g] assms(4) gotD(3) [OF g]] by blast
  have "\<not> owned L s p" "owned L s1 p" "\<not> owned L s1 q" "owned L s2 q"
    using got_fresh [OF g assms(5)] got_fresh [OF h assms(6)] by simp_all
  then show ?thesis
    using g h gotD(11) [OF g] gotD(11) [OF h] keeps_trans [OF gotD(6) [OF g] gotD(6) [OF h]]
      same_outside_trans [OF gotD(5) [OF g] gotD(5) [OF h]] by blast
qed

lemma sched_okI:
  assumes "registered (links s) (SchedProcessList s) (map fst ps)"
    and "\<And>e ts. (e, ts) \<in> set ps \<Longrightarrow> \<exists>p pr. proc_of s e = Some p \<and> procs s p = Some pr \<and> registered (links s) (Threads pr) ts"
    and "\<And>t. t \<in> set (concat (map snd ps)) \<Longrightarrow> \<exists>a th. thread_of s t = Some a \<and> threads s a = Some th"
    and "distinct (map (thread_of s) (concat (map snd ps)))"
  shows "sched_ok s ps"
  unfolding sched_ok_def using assms by blast

text \<open>
  What creating a thread does to the data: \<open>te\<close> is a new element for the new thread \<open>th\<close>, hung
  behind the elements \<open>ts\<close> of the process at \<open>owner\<close>.
\<close>

definition adds_thread :: "linker \<Rightarrow> 'z sched_state_scheme \<Rightarrow> ptr \<Rightarrow> ptr list \<Rightarrow> ptr \<Rightarrow> ptr \<Rightarrow> 'z sched_state_scheme \<Rightarrow> bool" where
  "adds_thread L s owner ts te th s' \<longleftrightarrow> \<not> owned L s te \<and> \<not> owned L s th \<and> owned L s' te \<and> owned L s' th \<and> th \<noteq> NULL \<and>
     (\<forall>a. owned L s a \<longrightarrow> owned L s' a) \<and> proc_of s' = proc_of s \<and> SchedProcessList s' = SchedProcessList s \<and>
     (\<exists>u. threads s' = (threads s)(th \<mapsto> u)) \<and> thread_of s' = (thread_of s)(te \<mapsto> th) \<and>
     (\<forall>a. a \<notin> set ts \<and> a \<noteq> te \<longrightarrow> links s' a = links s a) \<and>
     (\<exists>pr head. procs s owner = Some pr \<and> procs s' = (procs s)(owner \<mapsto> pr\<lparr>Threads := head\<rparr>) \<and>
        registered (links s') head (ts @ [te]))"

lemma sched_invD:
  assumes "sched_inv L s ps"
  shows "sched_ok s ps" "distinct (elements ps)" "distinct (map (proc_of s) (map fst ps))" "x \<in> set (elements ps) \<Longrightarrow> owned L s x"
    and "e \<in> set (map fst ps) \<Longrightarrow> \<exists>p. proc_of s e = Some p \<and> p \<noteq> NULL \<and> owned L s p"
    and "t \<in> set (concat (map snd ps)) \<Longrightarrow> \<exists>a. thread_of s t = Some a \<and> a \<noteq> NULL \<and> owned L s a"
    and "set (map fst ps) \<inter> set (concat (map snd ps)) = {}" "distinct (concat (map snd ps))"
  using assms unfolding sched_inv_def elements_def distinct_append by blast+

lemma added_thread_is_new:
  assumes "sched_inv L s ps" "adds_thread L s owner ts te th s'"
  shows "te \<notin> set (elements ps)" "t \<in> set (concat (map snd ps)) \<Longrightarrow> t \<noteq> te"
    "t \<in> set (concat (map snd ps)) \<Longrightarrow> thread_of s t = Some a \<Longrightarrow> a \<noteq> th"
    "t \<in> set (concat (map snd ps)) \<Longrightarrow> thread_at s' t = thread_at s t"
proof -
  have n: "\<not> owned L s te" "\<not> owned L s th" "thread_of s' = (thread_of s)(te \<mapsto> th)" using assms(2) by (simp_all add: adds_thread_def)
  obtain u where u: "threads s' = (threads s)(th \<mapsto> u)" using assms(2) by (auto simp: adds_thread_def)
  show te: "te \<notin> set (elements ps)" using sched_invD(4) [OF assms(1)] n(1) by blast
  then show old: "t \<noteq> te" if "t \<in> set (concat (map snd ps))" for t using that by (auto simp: elements_def)
  show new: "a \<noteq> th" if "t \<in> set (concat (map snd ps))" "thread_of s t = Some a" for t a
    using sched_invD(6) [OF assms(1) that(1)] that(2) n(2) by auto
  show "thread_at s' t = thread_at s t" if t: "t \<in> set (concat (map snd ps))"
    using sched_ok_thread [OF sched_invD(1) [OF assms(1)] t] new [OF t] old [OF t] by (auto simp: thread_at_def n(3) u)
qed

text \<open>The lists of the other processes do not change.\<close>

lemma added_thread_lists:
  assumes "sched_inv L s ps" "ps = as @ (e, ts) # bs" "proc_of s e = Some owner" "adds_thread L s owner ts te th s'"
  shows "registered (links s') (SchedProcessList s') (map fst ps)"
    and "(e', ts') \<in> set (as @ (e, ts @ [te]) # bs) \<Longrightarrow>
      \<exists>p pr. proc_of s' e' = Some p \<and> procs s' p = Some pr \<and> registered (links s') (Threads pr) ts'"
proof -
  note inv = sched_invD [OF assms(1)] and new = added_thread_is_new [OF assms(1,4)]
  have f: "proc_of s' = proc_of s" "SchedProcessList s' = SchedProcessList s" "\<forall>a. a \<notin> set ts \<and> a \<noteq> te \<longrightarrow> links s' a = links s a"
    using assms(4) by (simp_all add: adds_thread_def)
  obtain pr head where pr: "procs s owner = Some pr" "procs s' = (procs s)(owner \<mapsto> pr\<lparr>Threads := head\<rparr>)"
    "registered (links s') head (ts @ [te])" using assms(4) by (auto simp: adds_thread_def)
  have frame: "registered (links s') hd xs = registered (links s) hd xs" if "set xs \<inter> set ts = {}" "te \<notin> set xs" for hd xs
    by (rule registered_frame) (use that f(3) in blast)
  have "set ts \<subseteq> set (concat (map snd ps))" using assms(2) by auto
  then have "set (map fst ps) \<inter> set ts = {}" "te \<notin> set (map fst ps)" using inv(7) new(1) by (auto simp: elements_def)
  then have "registered (links s') (SchedProcessList s) (map fst ps) = registered (links s) (SchedProcessList s) (map fst ps)" by (rule frame)
  then show "registered (links s') (SchedProcessList s') (map fst ps)" using inv(1) by (simp add: sched_ok_def f)
  show "\<exists>p pr. proc_of s' e' = Some p \<and> procs s' p = Some pr \<and> registered (links s') (Threads pr) ts'"
    if "(e', ts') \<in> set (as @ (e, ts @ [te]) # bs)"
  proof (cases "(e', ts') = (e, ts @ [te])")
    case True
    then show ?thesis using pr(2,3) assms(3) by (simp add: f)
  next
    case False
    then have m: "(e', ts') \<in> set (as @ bs)" using that by auto
    then have "(e', ts') \<in> set ps" "set ts' \<subseteq> set (concat (map snd (as @ bs)))" using assms(2) by force+
    moreover have "set ts \<inter> set (concat (map snd (as @ bs))) = {}" using inv(8) unfolding assms(2) by auto
    moreover have "te \<notin> set ts'" using new(1) \<open>(e', ts') \<in> set ps\<close> by (auto simp: elements_def)
    ultimately have "registered (links s') hd ts' = registered (links s) hd ts'" for hd by (intro frame) blast+
    moreover have "proc_of s e' \<noteq> Some owner" using inv(3) m by (auto simp: assms(2) assms(3) [symmetric] image_iff rev_image_eqI)
    ultimately show ?thesis using inv(1) \<open>(e', ts') \<in> set ps\<close> unfolding sched_ok_def f(1) pr(2) by fastforce
  qed
qed

lemma added_thread_distinct:
  assumes "sched_inv L s ps" "adds_thread L s owner ts te th s'"
  shows "inj_on (thread_of s') (insert te (set (concat (map snd ps))))"
proof -
  let ?T = "set (concat (map snd ps))"
  note new = added_thread_is_new [OF assms]
  have f: "thread_of s' te = Some th" "\<And>t. t \<in> ?T \<Longrightarrow> thread_of s' t = thread_of s t"
    using assms(2) new(2) by (auto simp: adds_thread_def)
  have "inj_on (thread_of s) ?T" using sched_invD(1) [OF assms(1)] by (simp add: sched_ok_def distinct_map)
  then have "inj_on (thread_of s') ?T" using inj_on_cong [of ?T "thread_of s'" "thread_of s"] f(2) by blast
  moreover have "thread_of s' te \<notin> thread_of s' ` ?T"
  proof
    assume "thread_of s' te \<in> thread_of s' ` ?T"
    then obtain t where "t \<in> ?T" "thread_of s t = Some th" using f by (metis (no_types, lifting) image_iff)
    then show False using new(3) by blast
  qed
  ultimately show ?thesis using new(2) by (simp only: inj_on_insert Diff_insert0) blast
qed

lemma added_thread_ok:
  assumes "sched_inv L s ps" "ps = as @ (e, ts) # bs" "proc_of s e = Some owner" "adds_thread L s owner ts te th s'"
  shows "sched_ok s' (as @ (e, ts @ [te]) # bs)"
proof (rule sched_okI [OF _ added_thread_lists(2) [OF assms]])
  let ?T = "concat (map snd (as @ (e, ts @ [te]) # bs))"
  have T: "set ?T = insert te (set (concat (map snd ps)))" using assms(2) by auto
  have f: "thread_of s' = (thread_of s)(te \<mapsto> th)" using assms(4) by (simp add: adds_thread_def)
  obtain u where u: "threads s' = (threads s)(th \<mapsto> u)" using assms(4) by (auto simp: adds_thread_def)
  note new = added_thread_is_new [OF assms(1,4)] and inv = sched_invD [OF assms(1)]
  show "registered (links s') (SchedProcessList s') (map fst (as @ (e, ts @ [te]) # bs))"
    using added_thread_lists(1) [OF assms] assms(2) by simp
  show "\<exists>a u. thread_of s' t = Some a \<and> threads s' a = Some u" if "t \<in> set ?T" for t
  proof (cases "t = te")
    case True
    then show ?thesis by (simp add: f u)
  next
    case False
    then have "t \<in> set (concat (map snd ps))" using that unfolding T by blast
    then obtain a v where "thread_of s t = Some a" "threads s a = Some v"
      using sched_ok_thread [OF inv(1)] by blast
    then show ?thesis using False by (simp add: f u)
  qed
  have "distinct ?T" using inv(8) new(1) by (auto simp: assms(2) elements_def)
  then show "distinct (map (thread_of s') ?T)" using added_thread_distinct [OF assms(1,4)] by (simp only: distinct_map T)
qed

lemma added_thread_inv:
  assumes "sched_inv L s ps" "ps = as @ (e, ts) # bs" "proc_of s e = Some owner" "adds_thread L s owner ts te th s'"
  shows "sched_inv L s' (as @ (e, ts @ [te]) # bs)"
proof -
  let ?ps = "as @ (e, ts @ [te]) # bs"
  note new = added_thread_is_new [OF assms(1,4)] and inv = sched_invD [OF assms(1)]
  have f: "owned L s' te" "owned L s' th" "th \<noteq> NULL" "\<And>a. owned L s a \<Longrightarrow> owned L s' a" "proc_of s' = proc_of s"
    "thread_of s' = (thread_of s)(te \<mapsto> th)" using assms(4) by (simp_all add: adds_thread_def)
  have F: "map fst ?ps = map fst ps" and T: "set (concat (map snd ?ps)) = insert te (set (concat (map snd ps)))"
    and E: "set (elements ?ps) = insert te (set (elements ps))" using assms(2) by (auto simp: elements_def)
  have "distinct (elements ?ps)" using inv(2) new(1) by (auto simp: assms(2) elements_def)
  moreover have "\<forall>x \<in> set (elements ?ps). owned L s' x" using inv(4) f(1,4) unfolding E by blast
  moreover have "\<forall>e \<in> set (map fst ?ps). \<exists>p. proc_of s' e = Some p \<and> p \<noteq> NULL \<and> owned L s' p"
    using inv(5) f(4) unfolding F f(5) by blast
  moreover have "\<exists>a. thread_of s' t = Some a \<and> a \<noteq> NULL \<and> owned L s' a" if "t \<in> set (concat (map snd ?ps))" for t
    using that inv(6) [of t] f(2,3,4) unfolding T f(6) by auto
  moreover have "distinct (map (proc_of s') (map fst ?ps))" using inv(3) unfolding F f(5) .
  ultimately show ?thesis using added_thread_ok [OF assms] unfolding sched_inv_def by blast
qed

lemma SchedCreateThread_inv:
  assumes "sched_inv L s ps" "ps = as @ (e, ts) # bs" "proc_of s e = Some owner" "name \<noteq> NULL"
    and "heap_ready L s" "room L s (Suc (Suc k))"
  shows "\<exists>thread te s' th. SchedCreateThread L owner name eip stack s = ret (thread, s') \<and>
    sched_inv L s' (as @ (e, ts @ [te]) # bs) \<and> heap_ready L s' \<and> room L s' k \<and> keeps L s s' \<and>
    thread_at s' te = th \<and> (\<forall>t \<in> set (concat (map snd ps)). thread_at s' t = thread_at s t) \<and>
    thread_of s' te = Some thread \<and> \<not> owned L s te \<and> State th = TASK_STATE_RUNNING \<and> RemainingCpuTime th = 2 \<and> EipT (CPUFrame th) = eip \<and>
    EspT (CPUFrame th) = stack \<and>
    same_clients s s' \<and> same_links L (set (elements ps)) s s' \<and> (kernel_only s \<longrightarrow> kernel_only s') \<and>
    (\<forall>pr. procs s owner = Some pr \<longrightarrow> CsT (CPUFrame th) = (if IsKernelMode pr then 0x08 else 0x1B) \<and>
       DsT (CPUFrame th) = (if IsKernelMode pr then 0x10 else 0x23)) \<and> same_current s s' \<and>
    (kernel_modes s \<longrightarrow> kernel_modes s')"
proof -
  let ?E = "elements ps"
  have inv: "sched_ok s ps" "\<And>x. x \<in> set ?E \<Longrightarrow> owned L s x" "\<exists>p. proc_of s e = Some p \<and> p \<noteq> NULL \<and> owned L s p"
    using sched_invD(1,4,5) [OF assms(1)] assms(2) by auto
  then obtain pr where pr: "procs s owner = Some pr" "registered (links s) (Threads pr) ts" "owner \<noteq> NULL"
    using assms(2,3) by (auto simp: sched_ok_def)
  have sm: "small 80" "small 12" "(80 :: u32) \<noteq> 0" "(12 :: u32) \<noteq> 0" by (simp_all add: small_def)
  obtain th s1 te s2 where g: "got L 80 (Suc k) s th s1" "got L 12 k s1 te s2" "th \<noteq> te" "\<not> owned L s th" "\<not> owned L s te"
    "owned L s2 th" "owned L s2 te" "keeps L s s2" "\<forall>a. owned L s a \<longrightarrow> owned L s2 a" "same_outside s s2"
    using got_two [OF assms(5,6) sm] by blast
  note x = same_outside_sched [OF g(10)]
  have E: "set ts \<subseteq> set ?E" using assms(2) by (auto simp: elements_def)
  then have te: "te \<notin> set ts" "te \<noteq> NULL" using inv(2) g(5) gotD(2) [OF g(2)] by blast+
  obtain h head where add: "list_add (links s) (Threads pr) te = ret (h, head)" "registered h head (ts @ [te])"
    "\<forall>a. a \<notin> set ts \<and> a \<noteq> te \<longrightarrow> h a = links s a"
    using list_add_registered [OF pr(2) te(2,1)] by blast
  let ?seg = "if IsKernelMode pr then GdtKernelData else GdtUserData + 3"
  let ?t = "\<lparr>ParentProcess = owner, ThreadName = name, State = TASK_STATE_RUNNING, RemainingCpuTime = 2,
     CPUFrame = \<lparr>GsT = ?seg, FsT = ?seg, SsT = ?seg, EsT = ?seg, DsT = ?seg,
       CsT = (if IsKernelMode pr then GdtKernelCode else GdtUserCode + 3), EdiT = 0, EsiT = 0, EbpT = stack, EspT = stack,
       EbxT = 0, EdxT = 0, EcxT = 0, EaxT = 0, EipT = eip, EflagsT = 0x200\<rparr>\<rparr>"
  let ?s = "s2\<lparr>threads := (threads s)(th \<mapsto> ?t), thread_of := (thread_of s)(te \<mapsto> th), links := h,
     procs := (procs s)(owner \<mapsto> pr\<lparr>Threads := head\<rparr>)\<rparr>"
  have run: "SchedCreateThread L owner name eip stack s = ret (th, ?s)"
    using pr(1,3) assms(4) gotD(1,2) [OF g(1)] gotD(1,2) [OF g(2)] add(1)
    by (simp add: SchedCreateThread_def Let_def put_thread_def SchedTimePerThread_def x
        same_outside_sched [OF gotD(5) [OF g(1)]] same_outside_sched [OF gotD(5) [OF g(2)]])
  have "same_mem s2 ?s" by (simp add: same_mem_def)
  note f = same_mem_frame [OF this]
  have fields: "procs ?s = (procs s)(owner \<mapsto> pr\<lparr>Threads := head\<rparr>)" "links ?s = h" by simp_all
  have adds: "adds_thread L s owner ts te th ?s"
    unfolding adds_thread_def f(3)
  proof (intro conjI)
    show "\<exists>u. threads ?s = (threads s)(th \<mapsto> u)" by (rule exI [of _ ?t]) simp
    show "\<exists>pr head. procs s owner = Some pr \<and> procs ?s = (procs s)(owner \<mapsto> pr\<lparr>Threads := head\<rparr>) \<and> registered (links ?s) head (ts @ [te])"
      by (rule exI [of _ pr], rule exI [of _ head]) (simp add: pr(1) add(2))
  qed (use g(4-7,9) gotD(2) [OF g(1)] add(3) in \<open>simp_all add: x\<close>)
  have "thread_at ?s te = ?t" by (simp add: thread_at_def)
  moreover have "heap_ready L ?s" "room L ?s k" "keeps L s ?s"
    using gotD(3,4) [OF g(2)] keeps_trans [OF g(8) f(6)] by (simp_all only: f)
  moreover have "same_clients s ?s" using same_outside_clients [OF g(10)] by (simp add: same_clients_def)
  moreover have "same_links L (set ?E) s ?s" using E add(3) g(5,9) unfolding same_links_def f(3) fields by blast
  moreover have "same_current s ?s" using same_outside_current [OF g(10)] by (simp add: same_current_def)
  moreover have "kernel_only s \<longrightarrow> kernel_only ?s" using pr(1) unfolding kernel_only_def fields by auto
  moreover have "kernel_modes s \<longrightarrow> kernel_modes ?s" using pr(1) unfolding kernel_modes_def fields by auto
  ultimately show ?thesis using run added_thread_inv [OF assms(1-3) adds] added_thread_is_new(4) [OF assms(1) adds] g(5)
    by (intro exI [of _ th] exI [of _ te] exI [of _ ?s] exI [of _ ?t])
      (simp add: pr(1) GdtKernelCode_def GdtKernelData_def GdtUserCode_def GdtUserData_def)
qed

text \<open>Creating a process: \<open>e\<close> is a new element for the new process at \<open>p\<close>, which has no threads yet.\<close>

definition adds_process :: "linker \<Rightarrow> 'z sched_state_scheme \<Rightarrow> ptr list \<Rightarrow> ptr \<Rightarrow> ptr \<Rightarrow> 'z sched_state_scheme \<Rightarrow> bool" where
  "adds_process L s es e p s' \<longleftrightarrow> \<not> owned L s e \<and> \<not> owned L s p \<and> owned L s' e \<and> owned L s' p \<and> p \<noteq> NULL \<and>
     (\<forall>a. owned L s a \<longrightarrow> owned L s' a) \<and> proc_of s' = (proc_of s)(e \<mapsto> p) \<and> (\<exists>pr. procs s' = (procs s)(p \<mapsto> pr) \<and> Threads pr = NULL) \<and>
     threads s' = threads s \<and> thread_of s' = thread_of s \<and> registered (links s') (SchedProcessList s') (es @ [e]) \<and>
     (\<forall>a. a \<notin> set es \<and> a \<noteq> e \<longrightarrow> links s' a = links s a)"

lemma added_process_is_new:
  assumes "sched_inv L s ps" "adds_process L s (map fst ps) e p s'"
  shows "e \<notin> set (elements ps)" "e' \<in> set (map fst ps) \<Longrightarrow> proc_of s' e' = proc_of s e'"
    "e' \<in> set (map fst ps) \<Longrightarrow> proc_of s e' = Some q \<Longrightarrow> q \<noteq> p"
proof -
  have n: "\<not> owned L s e" "\<not> owned L s p" "proc_of s' = (proc_of s)(e \<mapsto> p)" using assms(2) by (simp_all add: adds_process_def)
  show "e \<notin> set (elements ps)" using sched_invD(4) [OF assms(1)] n(1) by blast
  then show "e' \<in> set (map fst ps) \<Longrightarrow> proc_of s' e' = proc_of s e'" by (auto simp: elements_def n(3))
  show "q \<noteq> p" if "e' \<in> set (map fst ps)" "proc_of s e' = Some q"
    using sched_invD(5) [OF assms(1) that(1)] that(2) n(2) by auto
qed

lemma added_process_ok:
  assumes "sched_inv L s ps" "adds_process L s (map fst ps) e p s'"
  shows "sched_ok s' (ps @ [(e, [])])"
proof (rule sched_okI)
  note new = added_process_is_new [OF assms] and inv = sched_invD [OF assms(1)]
  have f: "proc_of s' = (proc_of s)(e \<mapsto> p)" "threads s' = threads s" "thread_of s' = thread_of s"
    "\<forall>a. a \<notin> set (map fst ps) \<and> a \<noteq> e \<longrightarrow> links s' a = links s a" using assms(2) by (simp_all add: adds_process_def)
  obtain pr where pr: "procs s' = (procs s)(p \<mapsto> pr)" "Threads pr = NULL" using assms(2) by (auto simp: adds_process_def)
  show "registered (links s') (SchedProcessList s') (map fst (ps @ [(e, [])]))" using assms(2) by (simp add: adds_process_def)
  show "\<exists>p pr. proc_of s' e' = Some p \<and> procs s' p = Some pr \<and> registered (links s') (Threads pr) ts'"
    if m: "(e', ts') \<in> set (ps @ [(e, [])])" for e' ts'
  proof (cases "(e', ts') = (e, [])")
    case True
    then show ?thesis by (simp add: f pr registered_def)
  next
    case False
    then have m': "(e', ts') \<in> set ps" "e' \<in> set (map fst ps)" using m by force+
    then have "set ts' \<subseteq> set (concat (map snd ps))" by auto
    then have "set ts' \<inter> set (map fst ps) = {}" "e \<notin> set ts'" using inv(7) new(1) by (auto simp: elements_def simp del: set_map set_concat)
    then have "registered (links s') hd ts' = registered (links s) hd ts'" for hd by (intro registered_frame) (use f(4) in blast)
    then show ?thesis using inv(1) m'(1) new(2,3) [OF m'(2)] unfolding sched_ok_def pr(1) by fastforce
  qed
  show "\<exists>a th. thread_of s' t = Some a \<and> threads s' a = Some th" if "t \<in> set (concat (map snd (ps @ [(e, [])])))" for t
    using sched_ok_thread [OF inv(1), of t] that by (simp add: f)
  show "distinct (map (thread_of s') (concat (map snd (ps @ [(e, [])]))))" using inv(1) by (simp add: f sched_ok_def)
qed

lemma added_process_inv:
  assumes "sched_inv L s ps" "adds_process L s (map fst ps) e p s'"
  shows "sched_inv L s' (ps @ [(e, [])])"
proof -
  let ?ps = "ps @ [(e, [])]"
  note new = added_process_is_new [OF assms] and inv = sched_invD [OF assms(1)]
  have f: "proc_of s' e = Some p" "thread_of s' = thread_of s" "owned L s' e" "owned L s' p" "p \<noteq> NULL" "\<And>a. owned L s a \<Longrightarrow> owned L s' a"
    using assms(2) by (simp_all add: adds_process_def)
  have E: "set (elements ?ps) = insert e (set (elements ps))" and T: "concat (map snd ?ps) = concat (map snd ps)"
    and F: "map fst ?ps = map fst ps @ [e]" by (auto simp: elements_def)
  have "distinct (elements ?ps)" using inv(2) new(1) by (auto simp: elements_def)
  moreover have "\<forall>x \<in> set (elements ?ps). owned L s' x" using inv(4) f(3,6) unfolding E by blast
  moreover have "\<exists>q. proc_of s' e' = Some q \<and> q \<noteq> NULL \<and> owned L s' q" if "e' \<in> set (map fst ?ps)" for e'
  proof (cases "e' \<in> set (map fst ps)")
    case True
    then show ?thesis using inv(5) [OF True] f(6) by (auto simp: new(2))
  next
    case False
    then show ?thesis using that f(1,4,5) by auto
  qed
  moreover have "\<forall>t \<in> set (concat (map snd ?ps)). \<exists>a. thread_of s' t = Some a \<and> a \<noteq> NULL \<and> owned L s' a"
    using inv(6) f(6) unfolding T f(2) by blast
  moreover have "distinct (map (proc_of s') (map fst ?ps))"
  proof -
    have "map (proc_of s') (map fst ps) = map (proc_of s) (map fst ps)" by (rule map_cong [OF refl]) (rule new(2))
    then have eq: "map (proc_of s') (map fst ?ps) = map (proc_of s) (map fst ps) @ [Some p]"
      by (simp only: F map_append list.map fst_conv f(1))
    have "Some p \<notin> set (map (proc_of s) (map fst ps))" 
      by (metis (no_types, lifting) image_iff list.set_map new(3))
    then show ?thesis unfolding eq distinct_append using inv(3) by (simp del: map_map)
  qed
  ultimately show ?thesis using added_process_ok [OF assms] unfolding sched_inv_def by blast
qed

lemma SchedCreateProcess_inv:
  assumes "sched_inv L s ps" "heap_ready L s" "room L s (Suc (Suc k))"
  shows "\<exists>p e s'. SchedCreateProcess L km False uid s = ret (p, s') \<and> sched_inv L s' (ps @ [(e, [])]) \<and>
    heap_ready L s' \<and> room L s' k \<and> keeps L s s' \<and> proc_of s' e = Some p \<and>
    procs s' p = Some \<lparr>ProcessId = currentPid s, UserId = uid, IsKernelMode = km, PageDirectory = NULL, Threads = NULL\<rparr> \<and>
    (\<forall>t. thread_at s' t = thread_at s t) \<and> \<not> owned L s e \<and>
    same_clients s s' \<and> same_links L (set (elements ps)) s s' \<and> (kernel_only s \<longrightarrow> kernel_only s') \<and> same_current s s' \<and>
    (kernel_modes s \<and> km \<longrightarrow> kernel_modes s')"
proof -
  let ?E = "elements ps"
  have sm: "small 20" "small 12" "(20 :: u32) \<noteq> 0" "(12 :: u32) \<noteq> 0" by (simp_all add: small_def)
  obtain p s1 e s2 where g: "got L 20 (Suc k) s p s1" "got L 12 k s1 e s2" "p \<noteq> e" "\<not> owned L s p" "\<not> owned L s e"
    "owned L s2 p" "owned L s2 e" "keeps L s s2" "\<forall>a. owned L s a \<longrightarrow> owned L s2 a" "same_outside s s2"
    using got_two [OF assms(2,3) sm] by blast
  note x = same_outside_sched [OF g(10)]
  have E: "set (map fst ps) \<subseteq> set ?E" by (auto simp: elements_def)
  then have e: "e \<notin> set (map fst ps)" "e \<noteq> NULL" "p \<noteq> NULL"
    using sched_invD(4) [OF assms(1)] g(5) gotD(2) [OF g(1)] gotD(2) [OF g(2)] by blast+
  have head: "registered (links s) (SchedProcessList s) (map fst ps)" using sched_invD(1) [OF assms(1)] by (simp add: sched_ok_def)
  obtain h head where add: "list_add (links s) (SchedProcessList s) e = ret (h, head)" "registered h head (map fst ps @ [e])"
    "\<forall>a. a \<notin> set (map fst ps) \<and> a \<noteq> e \<longrightarrow> h a = links s a"
    using list_add_registered [OF head e(2,1)] by blast
  let ?pr = "\<lparr>ProcessId = currentPid s, UserId = uid, IsKernelMode = km, PageDirectory = NULL, Threads = NULL\<rparr>"
  let ?s = "s2\<lparr>currentPid := currentPid s + 1, procs := (procs s)(p \<mapsto> ?pr), proc_of := (proc_of s)(e \<mapsto> p),
     links := h, SchedProcessList := head\<rparr>"
  have run: "SchedCreateProcess L km False uid s = ret (p, ?s)"
    using gotD(1,2) [OF g(1)] gotD(1,2) [OF g(2)] add(1)
    by (simp add: SchedCreateProcess_def Let_def x)
  have "same_mem s2 ?s" by (simp add: same_mem_def)
  note f = same_mem_frame [OF this]
  have fields: "procs ?s = (procs s)(p \<mapsto> ?pr)" "links ?s = h" "threads ?s = threads s" "thread_of ?s = thread_of s"
    by (simp_all add: x)
  have adds: "adds_process L s (map fst ps) e p ?s"
    unfolding adds_process_def f(3)
  proof (intro conjI)
    show "\<exists>pr. procs ?s = (procs s)(p \<mapsto> pr) \<and> Threads pr = NULL" by (rule exI [of _ ?pr]) simp
  qed (use g(4-7,9) e(3) add(2,3) in \<open>simp_all add: x\<close>)
  have "heap_ready L ?s" "room L ?s k" "keeps L s ?s"
    using gotD(3,4) [OF g(2)] keeps_trans [OF g(8) f(6)] by (simp_all only: f)
  moreover have "proc_of ?s e = Some p" "procs ?s p = Some ?pr" "\<forall>t. thread_at ?s t = thread_at s t"
    by (simp_all add: thread_at_def x)
  moreover have "same_clients s ?s" using same_outside_clients [OF g(10)] by (simp add: same_clients_def)
  moreover have "same_links L (set ?E) s ?s" using E add(3) g(5,9) unfolding same_links_def f(3) fields by blast
  moreover have "same_current s ?s" using same_outside_current [OF g(10)] by (simp add: same_current_def)
  moreover have "kernel_only s \<longrightarrow> kernel_only ?s" unfolding kernel_only_def fields by auto
  moreover have "kernel_modes s \<and> km \<longrightarrow> kernel_modes ?s" unfolding kernel_modes_def fields by auto
  ultimately show ?thesis using run added_process_inv [OF assms(1) adds] g(5) by blast
qed

lemma sched_inv_frame:
  assumes "sched_inv L s ps" "links s' = links s" "SchedProcessList s' = SchedProcessList s" "proc_of s' = proc_of s"
    "procs s' = procs s" "threads s' = threads s" "thread_of s' = thread_of s" "\<And>a. owned L s a \<Longrightarrow> owned L s' a"
  shows "sched_inv L s' ps"
proof -
  have "sched_ok s' ps" using assms(1) by (simp add: sched_inv_def sched_ok_def assms(2-7))
  with assms(1,8) show ?thesis unfolding sched_inv_def assms(4,7) by blast
qed

lemma STACK_ALLOCATE_inv:
  assumes "sched_inv L s ps" "heap_ready L s" "room L s (Suc k)"
  shows "\<exists>stack s'. STACK_ALLOCATE L 128 s = ret (stack, s') \<and> sched_inv L s' ps \<and> heap_ready L s' \<and> room L s' k \<and>
    keeps L s s' \<and> same_clients s s' \<and> same_links L {} s s' \<and> (kernel_only s \<longrightarrow> kernel_only s') \<and>
    (\<forall>t. thread_at s' t = thread_at s t) \<and> SchedProcessList s' = SchedProcessList s \<and> (kernel_modes s \<longrightarrow> kernel_modes s')"
proof -
  have "small 128" by (simp add: small_def)
  then obtain p s' where g: "got L 128 k s p s'" using malloc_got [OF assms(2) _ assms(3)] by blast
  note x = same_outside_sched [OF gotD(5) [OF g]]
  have "sched_inv L s' ps"
    by (rule sched_inv_frame [OF assms(1)]) (use x gotD(11) [OF g] in simp_all)
  moreover have "same_links L {} s s'" "kernel_only s \<longrightarrow> kernel_only s'" "\<forall>t. thread_at s' t = thread_at s t" "kernel_modes s \<longrightarrow> kernel_modes s'"
    using gotD(11) [OF g] by (simp_all add: same_links_def kernel_only_def kernel_modes_def thread_at_def x)
  ultimately show ?thesis using gotD(1,3-6) [OF g] same_outside_clients x(2) by (auto simp: STACK_ALLOCATE_def)
qed

lemma same_links_trans:
  assumes "same_links L X s s1" "same_links L Y s1 s2" "\<And>y. y \<in> Y \<Longrightarrow> y \<in> X \<or> \<not> owned L s y"
  shows "same_links L X s s2"
  using assms unfolding same_links_def by metis

lemma sched_inv_head:
  assumes "sched_inv L s [(e, ts)]"
  shows "SchedProcessList s = e" "\<exists>p pr. proc_of s e = Some p \<and> procs s p = Some pr \<and> Threads pr = head_or NULL ts"
  using assms by (auto simp: sched_inv_def sched_ok_def registered_def split: if_splits) (cases ts; simp)+

text \<open>A stack and a kernel thread on it, in a system of one process.\<close>

lemma kernel_thread:
  assumes "sched_inv L s [(e, ts)]" "heap_ready L s" "room L s (Suc (Suc (Suc k)))" "kernel_only s" "name \<noteq> NULL" "kernel_modes s"
  shows "\<exists>stack s1 p th te s'. STACK_ALLOCATE L 128 s = ret (stack, s1) \<and> deref (proc_of s1) (SchedProcessList s1) = ret p \<and>
    SchedCreateThread L p name eip stack s1 = ret (th, s') \<and> sched_inv L s' [(e, ts @ [te])] \<and>
    heap_ready L s' \<and> room L s' k \<and> keeps L s s' \<and> same_clients s s' \<and> same_links L (set (e # ts)) s s' \<and> kernel_only s' \<and>
    \<not> owned L s te \<and> State (thread_at s' te) = TASK_STATE_RUNNING \<and> RemainingCpuTime (thread_at s' te) = 2 \<and>
    EipT (CPUFrame (thread_at s' te)) = eip \<and> (\<forall>t \<in> set ts. thread_at s' t = thread_at s t) \<and>
    kernel_modes s' \<and> CsT (CPUFrame (thread_at s' te)) = 0x08"
proof -
  obtain stack s1 where 1: "STACK_ALLOCATE L 128 s = ret (stack, s1)" "sched_inv L s1 [(e, ts)]" "heap_ready L s1"
      "room L s1 (Suc (Suc k))" "keeps L s s1" "same_clients s s1" "same_links L {} s s1" "kernel_only s1"
      "\<forall>t. thread_at s1 t = thread_at s t" "kernel_modes s1"
    using STACK_ALLOCATE_inv [OF assms(1-3)] assms(4,6) by blast
  obtain p pr where p: "proc_of s1 e = Some p" "SchedProcessList s1 = e" "procs s1 p = Some pr" using sched_inv_head [OF 1(2)] by blast
  then have "IsKernelMode pr" using 1(10) by (simp add: kernel_modes_def)
  from SchedCreateThread_inv [OF 1(2) _ p(1) assms(5) 1(3,4), of "[]" ts "[]" eip stack] obtain th te s' where
    2: "SchedCreateThread L p name eip stack s1 = ret (th, s')" "sched_inv L s' [(e, ts @ [te])]" "heap_ready L s'" "room L s' k"
      "keeps L s1 s'" "same_clients s1 s'" "same_links L (set (elements [(e, ts)])) s1 s'" "kernel_only s'" "\<not> owned L s1 te"
      "State (thread_at s' te) = TASK_STATE_RUNNING" "RemainingCpuTime (thread_at s' te) = 2" "EipT (CPUFrame (thread_at s' te)) = eip"
      "\<forall>t \<in> set ts. thread_at s' t = thread_at s1 t" "kernel_modes s'" "CsT (CPUFrame (thread_at s' te)) = 0x08"
    using 1(8,10) p(3) \<open>IsKernelMode pr\<close> by auto
  have "same_links L (set (e # ts)) s s1" using 1(7) by (simp add: same_links_def)
  then have "same_links L (set (e # ts)) s s'" by (rule same_links_trans [OF _ 2(7)]) (simp add: elements_def)
  moreover have "\<not> owned L s te" using 1(7) 2(9) by (auto simp: same_links_def)
  moreover have "keeps L s s'" "same_clients s s'" by (rule keeps_trans [OF 1(5) 2(5)], rule same_clients_trans [OF 1(6) 2(6)])
  moreover have "\<forall>t \<in> set ts. thread_at s' t = thread_at s t" using 1(9) 2(13) by simp
  moreover have "deref (proc_of s1) (SchedProcessList s1) = ret p" using p by simp
  ultimately show ?thesis using 1(1) 2(1-4,8,10-12,14,15) by blast
qed

lemma SchedInit_first:
  assumes "heap_ready (lk I) s" "room (lk I) s (Suc (Suc (Suc (Suc (Suc (Suc (Suc (Suc k))))))))"
    and "SchedProcessList s = NULL" "kernel_only s" "str_KIdle I \<noteq> NULL" "str_Test I \<noteq> NULL" "kernel_modes s"
  shows "\<exists>s' e t1 t2. SchedInit I s = ret s' \<and> sched_inv (lk I) s' [(e, [t1, t2])] \<and>
    sched_view s' [(e, [t1, t2])] [thread_at s' t1, thread_at s' t2] 0 \<and> ready [thread_at s' t1, thread_at s' t2] 0 \<and>
    EipT (CPUFrame (thread_at s' t1)) = addr_SchedIdle I \<and> EipT (CPUFrame (thread_at s' t2)) = addr_SchedSleepTest I \<and>
    heap_ready (lk I) s' \<and> room (lk I) s' k \<and> keeps (lk I) s s' \<and> kernel_only s' \<and>
    IdtIntHandlers s' = (IdtIntHandlers s)(0x20 := Some SchedIrqHandler_cb) \<and>
    same_clients s (s'\<lparr>IdtIntHandlers := IdtIntHandlers s\<rparr>) \<and> same_links (lk I) {} s s' \<and>
    CsT (CPUFrame (thread_at s' t1)) = 0x08 \<and> CsT (CPUFrame (thread_at s' t2)) = 0x08"
proof -
  let ?L = "lk I"
  have "sched_inv ?L s []" using assms(3) by (simp add: sched_inv_def sched_ok_def registered_def elements_def)
  from SchedCreateProcess_inv [OF this assms(1,2), of True 0] obtain p e s1 where
    1: "SchedCreateProcess ?L True False 0 s = ret (p, s1)" "sched_inv ?L s1 [(e, [])]" "heap_ready ?L s1"
      "room ?L s1 (Suc (Suc (Suc (Suc (Suc (Suc k))))))" "keeps ?L s s1" "\<not> owned ?L s e" "same_clients s s1"
      "same_links ?L {} s s1" "kernel_only s1" "kernel_modes s1"
    using assms(4,7) by (auto simp: elements_def)
  obtain st1 s2 p1 th1 t1 s3 where
    2: "STACK_ALLOCATE ?L 128 s1 = ret (st1, s2)" "deref (proc_of s2) (SchedProcessList s2) = ret p1"
      "SchedCreateThread ?L p1 (str_KIdle I) (addr_SchedIdle I) st1 s2 = ret (th1, s3)" "sched_inv ?L s3 [(e, [] @ [t1])]"
      "heap_ready ?L s3" "room ?L s3 (Suc (Suc (Suc k)))" "keeps ?L s1 s3" "same_clients s1 s3"
      "same_links ?L (set [e]) s1 s3" "kernel_only s3" "\<not> owned ?L s1 t1" "State (thread_at s3 t1) = TASK_STATE_RUNNING"
      "RemainingCpuTime (thread_at s3 t1) = 2" "EipT (CPUFrame (thread_at s3 t1)) = addr_SchedIdle I"
      "kernel_modes s3" "CsT (CPUFrame (thread_at s3 t1)) = 0x08"
    using kernel_thread [OF 1(2-4,9) assms(5) 1(10)] by blast
  obtain st2 s4 p2 th2 t2 s5 where
    3: "STACK_ALLOCATE ?L 128 s3 = ret (st2, s4)" "deref (proc_of s4) (SchedProcessList s4) = ret p2"
      "SchedCreateThread ?L p2 (str_Test I) (addr_SchedSleepTest I) st2 s4 = ret (th2, s5)"
      "sched_inv ?L s5 [(e, ([] @ [t1]) @ [t2])]" "heap_ready ?L s5" "room ?L s5 k" "keeps ?L s3 s5" "same_clients s3 s5"
      "same_links ?L (set (e # [] @ [t1])) s3 s5" "kernel_only s5" "State (thread_at s5 t2) = TASK_STATE_RUNNING"
      "EipT (CPUFrame (thread_at s5 t2)) = addr_SchedSleepTest I" "\<forall>t \<in> set ([] @ [t1]). thread_at s5 t = thread_at s3 t"
      "CsT (CPUFrame (thread_at s5 t2)) = 0x08"
    using kernel_thread [OF 2(4-6,10) assms(6) 2(15)] by blast
  have inv5: "sched_inv ?L s5 [(e, [t1, t2])]" using 3(4) by simp
  obtain p5 pr where p5: "proc_of s5 e = Some p5" "procs s5 p5 = Some pr" "Threads pr = t1" "SchedProcessList s5 = e"
    using sched_inv_head [OF inv5] by auto
  let ?s = "IdtSetHandler 0x20 SchedIrqHandler_cb (s5\<lparr>CurrIteratedProc := e, CurrIteratedThread := t1\<rparr>)"
  have run: "SchedInit I s = ret ?s" using 1(1) 2(1-3) 3(1-3) p5 by (simp add: SchedInit_def Let_def cur_process_def)
  have "same_mem s5 ?s" by (simp add: same_mem_def IdtSetHandler_def)
  note f = same_mem_frame [OF this]
  have same: "links ?s = links s5" "SchedProcessList ?s = SchedProcessList s5" "proc_of ?s = proc_of s5" "procs ?s = procs s5"
    "threads ?s = threads s5" "thread_of ?s = thread_of s5" "CurrIteratedProc ?s = e" "CurrIteratedThread ?s = t1"
    "thread_at ?s = thread_at s5" by (simp_all add: IdtSetHandler_def thread_at_def [abs_def])
  have "sched_inv ?L ?s [(e, [t1, t2])]" by (rule sched_inv_frame [OF inv5]) (simp_all only: same f)
  moreover from this have "sched_view ?s [(e, [t1, t2])] [thread_at ?s t1, thread_at ?s t2] 0"
    by (simp add: sched_view_def sched_inv_def same)
  moreover have "ready [thread_at ?s t1, thread_at ?s t2] 0" "EipT (CPUFrame (thread_at ?s t1)) = addr_SchedIdle I"
    "EipT (CPUFrame (thread_at ?s t2)) = addr_SchedSleepTest I"
    "CsT (CPUFrame (thread_at ?s t1)) = 0x08" "CsT (CPUFrame (thread_at ?s t2)) = 0x08"
    using 2(12-14,16) 3(11-14) by (simp_all add: ready_def same)
  moreover have "same_links ?L {} s ?s"
  proof -
    have l3: "same_links ?L {} s s3" by (rule same_links_trans [OF 1(8) 2(9)]) (use 1(6) in simp)
    have "\<not> owned ?L s t1" using 1(8) 2(11) by (auto simp: same_links_def)
    then have "same_links ?L {} s s5" by (intro same_links_trans [OF l3 3(9)]) (use 1(6) in auto)
    then show ?thesis by (simp only: same_links_def f(3) same)
  qed
  moreover have "same_clients s s5" using 1(7) 2(8) 3(8) same_clients_trans by blast
  then have "IdtIntHandlers ?s = (IdtIntHandlers s)(0x20 := Some SchedIrqHandler_cb)"
    "same_clients s (?s\<lparr>IdtIntHandlers := IdtIntHandlers s\<rparr>)" by (simp_all add: same_clients_def IdtSetHandler_def)
  moreover have "keeps ?L s ?s" using 1(5) 2(7) 3(7) f(6) keeps_trans by blast
  moreover have "heap_ready ?L ?s" "room ?L ?s k" using 3(5,6) by (simp_all only: f)
  moreover have "kernel_only ?s" using 3(10) by (simp only: kernel_only_def same)
  ultimately show ?thesis using run by blast
qed

end
