(* ===== verification/Threads.thy ===== *)
theory Threads
  imports Processes
begin

text \<open>
  The properties of the scheduler: the timer interrupt against its specification, sleeping, the
  rotation of the runnable threads and the creation of threads, each shown on a machine on which
  \<open>SchedInit\<close> has run.
\<close>

section \<open>Properties of the scheduler\<close>

text \<open>A fresh machine, before any process exists, and the scheduler started on it.\<close>

definition sched_machine :: sched_state where
  "sched_machine = devfs_state.extend devfs_machine
     (sched_state.fields 0 NULL NULL NULL False 0 Map.empty Map.empty Map.empty Map.empty)"

lemmas sched_machine_defs = sched_machine_def devfs_machine_defs sched_state.defs

lemma sched_machine_fresh: "fresh sched_machine"
  by (simp add: fresh_def sched_machine_defs empty_heap_def)

lemma sched_started:
  "\<exists>s ps ths e ts. SchedInit driver_image sched_machine = ret s \<and> ps = [(e, ts)] \<and> sched_inv sample_image s ps \<and>
     sched_view s ps ths 0 \<and> ready ths 0 \<and> length ths = 2 \<and> kernel_only s \<and>
     heap_ready sample_image s \<and> room sample_image s 2"
proof -
  have lk: "lk driver_image = sample_image" "str_KIdle driver_image \<noteq> NULL" "str_Test driver_image \<noteq> NULL"
    by (simp_all add: driver_image_def)
  have m: "SchedProcessList sched_machine = NULL" "kernel_only sched_machine" "kernel_modes sched_machine"
    by (simp_all add: sched_machine_defs kernel_only_def kernel_modes_def)
  have r: "heap_ready (lk driver_image) sched_machine"
    "room (lk driver_image) sched_machine (Suc (Suc (Suc (Suc (Suc (Suc (Suc (Suc 2))))))))"
    unfolding lk by (rule fresh_ready [OF sched_machine_fresh], rule fresh_room [OF sched_machine_fresh]) simp
  obtain s e t1 t2 where s: "SchedInit driver_image sched_machine = ret s" "sched_inv sample_image s [(e, [t1, t2])]"
    "sched_view s [(e, [t1, t2])] [thread_at s t1, thread_at s t2] 0" "ready [thread_at s t1, thread_at s t2] 0"
    "kernel_only s" "heap_ready sample_image s" "room sample_image s 2"
    using SchedInit_first [OF r m(1,2) lk(2,3) m(3)] unfolding lk(1) by (elim exE conjE)
  show ?thesis
    by (rule exI [of _ s], rule exI [of _ "[(e, [t1, t2])]"], rule exI [of _ "[thread_at s t1, thread_at s t2]"],
        rule exI [of _ e], rule exI [of _ "[t1, t2]"]) (use s in simp)
qed

text \<open>
  C5. The timer interrupt implements round robin scheduling. On a well-formed state, whose
  process and thread lists are one ring of threads \<open>ths\<close> with \<open>i\<close> the current one, the handler
  never follows a bad pointer: it does on the linked objects what \<open>tick_spec\<close> does on the list
  (take a tick from the current thread's two, or go on to the next that does not sleep), then
  switches the page directory and loads the registers of the chosen thread. It fails to return
  exactly when every thread sleeps, the current one with other than one tick left.
\<close>

theorem SchedIrqHandler_refines_round_robin:
  assumes "sched_view s ps ths i"
  shows "(case tick_spec (if initialized s then Some frame else None) ths i of
      None \<Rightarrow> SchedIrqHandler L frame s = None
    | Some (ths', j) \<Rightarrow> \<exists>s'. sched_view s' ps ths' j \<and> SchedTickCounter s' = SchedTickCounter s + 1 \<and> initialized s' \<and>
        SchedIrqHandler L frame s = mbind (switch_directory L s') (\<lambda>s''. ret (SchedLoadFrame frame (ths' ! j), s''))) \<and>
    (tick_spec (if initialized s then Some frame else None) ths i = None \<longleftrightarrow>
      (\<forall>t \<in> set ths. State t = TASK_STATE_SLEEPING) \<and> RemainingCpuTime (ths ! i) \<noteq> 1)"
  using SchedIrqHandler_view [OF assms, where frame = frame and L = L] tick_spec_None [of i ths "if initialized s then Some frame else None"] view_length [OF assms]
  by (cases "tick_spec (if initialized s then Some frame else None) ths i") auto

theorem SchedIrqHandler_refines_round_robin_witness:
  "\<exists>s s' ps ths'. SchedInit driver_image sched_machine = ret s \<and> sched_view s' ps ths' 0 \<and>
     SchedTickCounter s' = SchedTickCounter s + 1 \<and>
     SchedIrqHandler sample_image zero_frame s = mbind (switch_directory sample_image s') (\<lambda>s''. ret (SchedLoadFrame zero_frame (ths' ! 0), s''))"
proof -
  obtain s ps ths where s: "SchedInit driver_image sched_machine = ret s" "sched_view s ps ths 0" "ready ths 0" "length ths = 2"
    using sched_started by blast
  obtain ths1 where "tick_spec (if initialized s then Some zero_frame else None) ths 0 = Some (ths1, 0)"
    using two_ticks [OF s(3)] s(4) by fastforce
  with SchedIrqHandler_refines_round_robin [OF s(2), where frame = zero_frame and L = sample_image, THEN conjunct1] s(1)
  show ?thesis by auto
qed

text \<open>
  C17. A context switch loses no register. After an interrupt of a thread, what the handler kept
  for it are the registers of the interrupted frame, what it keeps of every other thread is as
  before, and the frame it returns holds the registers kept for the thread it chose; a thread
  therefore resumes with the registers it was interrupted with.
\<close>

theorem context_switch_keeps_registers:
  assumes "sched_view s ps ths i" "initialized s" "SchedIrqHandler L frame s = ret (frame', s')"
  shows "\<exists>ths' j. sched_view s' ps ths' j \<and> CPUFrame (ths' ! i) = registers frame \<and>
    (\<forall>k < length ths. k \<noteq> i \<longrightarrow> CPUFrame (ths' ! k) = CPUFrame (ths ! k)) \<and>
    registers frame' = CPUFrame (ths' ! j) \<and> State (ths' ! j) = TASK_STATE_RUNNING \<and>
    InterruptNumber frame' = InterruptNumber frame \<and> ErrorCode frame' = ErrorCode frame"
proof -
  obtain ths' j where t: "tick_spec (Some frame) ths i = Some (ths', j)" "sched_view s' ps ths' j"
    "frame' = SchedLoadFrame frame (ths' ! j)"
    using SchedIrqHandler_ret [OF assms(1,3)] assms(2) by auto
  have i: "i < length ths" using view_length [OF assms(1)] by simp
  note c = tick_spec_threads [OF t(1) i]
  show ?thesis
    using t(2,3) c(3,4,6) registers_load [of frame] by (intro exI [of _ ths'] exI [of _ j])
      (simp add: registers_save SchedLoadFrame_def Let_def)
qed

theorem context_switch_keeps_registers_witness:
  "\<exists>(s :: sched_state) s' ps ths. sched_view s ps ths 0 \<and> CPUFrame (ths ! 0) = registers zero_frame \<and> length ths = 2 \<and>
     (\<exists>f. SchedIrqHandler sample_image zero_frame s' = ret (f, s))"
proof -
  obtain s ps ths where s: "SchedInit driver_image sched_machine = ret s" "sched_view s ps ths 0" "ready ths 0" "length ths = 2" "kernel_only s"
    using sched_started by blast
  let ?s = "s\<lparr>initialized := True\<rparr>"
  have v: "sched_view ?s ps ths 0" using s(2) by (subst sched_view_frame [of _ s]) simp_all
  obtain ths1 where one: "tick_spec (if initialized ?s then Some zero_frame else None) ths 0 = Some (ths1, 0)"
    "length ths1 = length ths"
    using two_ticks [OF s(3)] s(4) by fastforce
  have k: "kernel_only ?s" using s(5) by (simp add: kernel_only_def)
  obtain s1 f where s1: "SchedIrqHandler sample_image zero_frame ?s = ret (f, s1)" "sched_view s1 ps ths1 0"
    using kernel_tick [OF v k one(1)] by blast
  obtain ths' j where "sched_view s1 ps ths' j" "CPUFrame (ths' ! 0) = registers zero_frame"
    using context_switch_keeps_registers [OF v _ s1(1)] by auto
  moreover from this(1) s1(2) have "ths' = ths1" by (simp add: sched_view_def)
  ultimately have "sched_view s1 ps ths1 0 \<and> CPUFrame (ths1 ! 0) = registers zero_frame \<and> length ths1 = 2"
    using s1(2) one(2) s(4) by simp
  with s1(1) show ?thesis by blast
qed

text \<open>
  C14. Sleeping lasts for ever. If a thread calls \<open>SchedSleep\<close> for itself, for any time but one
  millisecond, then in every later state, whatever sequence of ticks, calls of \<open>SchedSleep\<close> and
  other work led there, the thread sleeps and is not the one that runs: the search for the next
  thread counts its time down but does not look whether it has run out.
\<close>

theorem SchedSleep_never_wakes:
  assumes "sched_view s ps ths i" "cur_thread s = ret (a, t)" "millis \<noteq> 1"
    and "SchedSleep (\<lambda>n. SchedIrqHandler L frame) a millis s = ret (frame', s1)" "(sched_step L)\<^sup>*\<^sup>* s1 s2"
  shows "\<exists>ths' j. sched_view s2 ps ths' j \<and> j \<noteq> i \<and> i < length ths' \<and> State (ths' ! i) = TASK_STATE_SLEEPING"
proof -
  let ?t = "t\<lparr>State := TASK_STATE_SLEEPING, RemainingCpuTime := millis\<rparr>"
  have a: "thread_of s (CurrIteratedThread s) = Some a" "threads s a = Some t"
    using assms(2) by (auto simp: cur_thread_def mbind_eq_ret deref_def ret_def split: option.splits)
  then have irq: "SchedIrqHandler L frame (put_thread a ?t s) = ret (frame', s1)"
    using SchedSleep_ret [OF assms(4)] by auto
  have i: "i < length ths" using view_length [OF assms(1)] by simp
  have "asleep s1 ps i"
    by (rule tick_keeps_asleep [OF view_put [OF assms(1) a(1), of ?t] _ _ _ irq]) (use i assms(3) in simp_all)
  with assms(5) have "asleep s2 ps i" by (rule sleeping.steps)
  then show ?thesis unfolding asleep_def by blast
qed

theorem SchedSleep_never_wakes_witness:
  "\<exists>(s :: sched_state) ps ths j. sched_view s ps ths j \<and> j \<noteq> 0 \<and> State (ths ! 0) = TASK_STATE_SLEEPING \<and>
     (\<exists>s0 a f. SchedSleep (\<lambda>n. SchedIrqHandler sample_image zero_frame) a 1000 s0 = ret (f, s))"
proof -
  obtain s ps ths where s: "SchedInit driver_image sched_machine = ret s" "sched_view s ps ths 0" "ready ths 0" "length ths = 2" "kernel_only s"
    "sched_inv sample_image s ps"
    using sched_started by blast
  obtain a where a: "cur_thread s = ret (a, ths ! 0)" "thread_of s (CurrIteratedThread s) = Some a"
    using view_current [OF s(2)] by blast
  then have ta: "threads s a = Some (ths ! 0)"
    by (auto simp: cur_thread_def mbind_eq_ret deref_def ret_def split: option.splits)
  let ?t = "(ths ! 0)\<lparr>State := TASK_STATE_SLEEPING, RemainingCpuTime := 1000\<rparr>"
  let ?s = "put_thread a ?t s" and ?ths = "ths[0 := ?t]"
  have v: "sched_view ?s ps ?ths 0" by (rule view_put [OF s(2) a(2)])
  obtain t1 t2 where ths: "ths = [t1, t2]" using s(4) by (auto simp: numeral_2_eq_2 length_Suc_conv)
  have "tick_spec (if initialized ?s then Some zero_frame else None) ?ths 0 \<noteq> None"
    using tick_spec_None [of 0 ?ths] s(3) by (auto simp: ths ready_def)
  then obtain ths' j where t: "tick_spec (if initialized ?s then Some zero_frame else None) ?ths 0 = Some (ths', j)" by auto
  have k: "kernel_only ?s" using s(5) by (simp add: kernel_only_def put_thread_def)
  obtain s1 f where s1: "SchedIrqHandler sample_image zero_frame ?s = ret (f, s1)" using kernel_tick [OF v k t] by blast
  have "a \<noteq> NULL"
  proof -
    have "CurrIteratedThread s \<in> set (concat (map snd ps))"
    proof -
      have "(CurrIteratedProc s, CurrIteratedThread s) \<in> set (ring ps)"
        using s(2) by (simp add: sched_view_def)
      then show ?thesis using snd_ring [of ps] by (metis image_eqI list.set_map snd_conv)
    qed
    then show ?thesis using s(6) a(2) unfolding sched_inv_def by fastforce
  qed
  then have "SchedSleep (\<lambda>n. SchedIrqHandler sample_image zero_frame) a 1000 s = ret (f, s1)"
    using s1 ta by (simp add: SchedSleep_def SchedTick_def)
  then show ?thesis using SchedSleep_never_wakes [OF s(2) a(1) _ _ rtranclp.rtrancl_refl, of 1000 sample_image zero_frame] by fastforce
qed

text \<open>
  C8. Every runnable thread gets the processor in turn, for two ticks each. If no thread sleeps
  and the current one has its full quantum, then however the threads are interrupted, after
  \<open>2 * k\<close> ticks the current thread is the \<open>k\<close>-th after it in the ring, again with its full
  quantum, and as many ticks have been counted; so within \<open>2 * length ths\<close> ticks each thread has
  been current.
\<close>

theorem runnable_threads_rotate:
  assumes "sched_view s ps ths i" "ready ths i" "kernel_only s" "length frames = 2 * k"
  shows "\<exists>s' ths'. ticks L frames s = ret s' \<and> sched_view s' ps ths' ((i + k) mod length ths) \<and>
    ready ths' ((i + k) mod length ths) \<and> kernel_only s' \<and> SchedTickCounter s' = SchedTickCounter s + of_nat (2 * k)"
  using assms
proof (induction k arbitrary: frames s ths i)
  case 0
  then show ?case using view_length [OF 0(1)] by auto
next
  case (Suc k)
  obtain f g fs where frames: "frames = f # g # fs" "length fs = 2 * k"
    using Suc.prems(4) by (cases frames; cases "tl frames") auto
  have i: "i < length ths" using view_length [OF Suc.prems(1)] by simp
  note tt = two_ticks [OF Suc.prems(2) i]
  obtain ths1 where one: "tick_spec (if initialized s then Some f else None) ths i = Some (ths1, i)"
    using tt [of "if initialized s then Some f else None"] by blast
  obtain s1 f1 where s1: "SchedIrqHandler L f s = ret (f1, s1)" "sched_view s1 ps ths1 i" "kernel_only s1"
    "SchedTickCounter s1 = SchedTickCounter s + 1"
    using kernel_tick [OF Suc.prems(1,3) one] unfolding ticked_def by blast
  obtain ths2 where two: "tick_spec (if initialized s1 then Some g else None) ths1 i = Some (ths2, Suc i mod length ths)"
    "ready ths2 (Suc i mod length ths)" "length ths2 = length ths"
    using tt [of "if initialized s then Some f else None" "if initialized s1 then Some g else None"] one by auto
  obtain s2 f2 where s2: "SchedIrqHandler L g s1 = ret (f2, s2)" "sched_view s2 ps ths2 (Suc i mod length ths)" "kernel_only s2"
    "SchedTickCounter s2 = SchedTickCounter s1 + 1"
    using kernel_tick [OF s1(2,3) two(1)] unfolding ticked_def by blast
  have "(Suc i mod length ths + k) mod length ths = (i + Suc k) mod length ths"
    by (metis add_Suc_right add_Suc mod_add_left_eq)
  then show ?case
    using Suc.IH [OF s2(2) two(2) s2(3) frames(2)] two(3) s1(1,4) s2(1,4) frames(1) by (auto simp: algebra_simps)
qed

theorem runnable_threads_rotate_witness:
  "\<exists>s s' ps ths. SchedInit driver_image sched_machine = ret s \<and>
     ticks sample_image [zero_frame, zero_frame] s = ret s' \<and> sched_view s' ps ths 1"
proof -
  obtain s ps ths where s: "SchedInit driver_image sched_machine = ret s" "sched_view s ps ths 0" "ready ths 0" "length ths = 2" "kernel_only s"
    using sched_started by blast
  have "length [zero_frame, zero_frame] = 2 * 1" by simp
  from runnable_threads_rotate [OF s(2,3,5) this, of sample_image] s(1,4) show ?thesis by auto
qed

text \<open>
  C23. Creating threads keeps the scheduler's data well formed. While memory lasts,
  \<open>SchedCreateThread\<close> returns a thread placed last in its process's part of the ring, runnable,
  with a full quantum, entry point and stack as given, its segments those of the process's
  mode; the invariant holds again and every other thread is as it was.
\<close>

theorem SchedCreateThread_appends:
  assumes "sched_inv L s ps" "ps = as @ (e, ts) # bs" "proc_of s e = Some owner" "name \<noteq> NULL"
    and "heap_ready L s" "room L s (Suc (Suc k))" "procs s owner = Some pr"
  shows "\<exists>thread te s'. SchedCreateThread L owner name eip stack s = ret (thread, s') \<and>
    sched_inv L s' (as @ (e, ts @ [te]) # bs) \<and> heap_ready L s' \<and> room L s' k \<and> thread_of s' te = Some thread \<and>
    (\<forall>t \<in> set (concat (map snd ps)). thread_at s' t = thread_at s t) \<and>
    State (thread_at s' te) = TASK_STATE_RUNNING \<and> RemainingCpuTime (thread_at s' te) = 2 \<and>
    EipT (CPUFrame (thread_at s' te)) = eip \<and> EspT (CPUFrame (thread_at s' te)) = stack \<and>
    CsT (CPUFrame (thread_at s' te)) = (if IsKernelMode pr then 0x08 else 0x1B) \<and>
    DsT (CPUFrame (thread_at s' te)) = (if IsKernelMode pr then 0x10 else 0x23)"
  using SchedCreateThread_inv [OF assms(1-6), of eip stack] assms(7) by blast

theorem SchedCreateThread_appends_witness:
  "\<exists>s s' e ts te owner thread. SchedInit driver_image sched_machine = ret s \<and>
     SchedCreateThread sample_image owner 0xE0003060 0xE0005000 0x7000 s = ret (thread, s') \<and>
     sched_inv sample_image s' [(e, ts @ [te])] \<and> EipT (CPUFrame (thread_at s' te)) = 0xE0005000"
proof -
  obtain s e ts where s: "SchedInit driver_image sched_machine = ret s" "sched_inv sample_image s [(e, ts)]"
    "heap_ready sample_image s" "room sample_image s (Suc (Suc 0))"
    using sched_started by (auto simp: numeral_2_eq_2)
  obtain p pr where p: "proc_of s e = Some p" "procs s p = Some pr" using sched_inv_head [OF s(2)] by blast
  have split: "[(e, ts)] = [] @ (e, ts) # []" by simp
  show ?thesis
    using SchedCreateThread_appends [OF s(2) split p(1) _ s(3,4) p(2), of "0xE0003060" "0xE0005000" "0x7000"] s(1) by auto
qed

end
