(* ===== verification/Syscalls.thy ===== *)
theory Syscalls
  imports Threads
begin

text \<open>
  System calls (\<open>kernel/src/Syscalls/Syscalls.c\<close>): the table of handlers, its two entries and the
  dispatch on \<open>eax\<close>. A handler is named by a constructor; arguments are those its C type takes.
\<close>

datatype SyscallHandler = SyscallTest_fn | SyscallTTYWrite_fn

definition SYSCALL_HANDLER_AMOUNT :: u32 where "SYSCALL_HANDLER_AMOUNT = 2"

record syscall_state = sched_state +
  SyscallHandlers :: "nat \<Rightarrow> SyscallHandler option"

text \<open>\<open>for (i = 0; i < n; i++) Kprintf("Hello world\n");\<close>\<close>

function syscall_test_loop :: "u32 \<Rightarrow> u32 \<Rightarrow> 'z heap_state_scheme \<Rightarrow> 'z heap_state_scheme run" where
  "syscall_test_loop n i s =
     (if i < n then
        (case kprintf ''Hello world\<newline>'' [] s of
           None \<Rightarrow> None
         | Some (Inl e) \<Rightarrow> Some (Inl e)
         | Some (Inr s') \<Rightarrow> syscall_test_loop n (i + 1) s')
      else ret s)"
  by pat_completeness auto
termination
  by (relation "measure (\<lambda>(n, i, s). unat n - unat i)") (auto simp: measure_up32)

declare syscall_test_loop.simps [simp del]

definition SyscallTest :: "u32 \<Rightarrow> 'z heap_state_scheme \<Rightarrow> (u32 \<times> 'z heap_state_scheme) run" where
  "SyscallTest n s = mbind (syscall_test_loop n 0 s) (\<lambda>s. ret (n * 2, s))"

definition SyscallTTYWrite :: "ptr \<Rightarrow> u32 \<Rightarrow> 'z heap_state_scheme \<Rightarrow> (u32 \<times> 'z heap_state_scheme) run" where
  "SyscallTTYWrite buf len s =
     ret (len, s\<lparr>console := snd (IoWrite (TTYStream (console s)) (buffer (bmem s) buf len) len (console s))\<rparr>)"

definition SyscallIntHandler :: "IdtFrame \<Rightarrow> 'z syscall_state_scheme \<Rightarrow> (IdtFrame \<times> 'z syscall_state_scheme) run" where
  "SyscallIntHandler frame s =
     (if Eax frame \<ge> SYSCALL_HANDLER_AMOUNT then ret (frame, s)
      else
        mbind (case SyscallHandlers s (unat (Eax frame)) of
                 None \<Rightarrow> Some (Inl (BadAccess NULL))
               | Some SyscallTest_fn \<Rightarrow> SyscallTest (Ebx frame) s
               | Some SyscallTTYWrite_fn \<Rightarrow> SyscallTTYWrite (Ebx frame) (Ecx frame) s) (\<lambda>(r, s).
        ret (frame\<lparr>Eax := r\<rparr>, s)))"

definition SyscallInit :: "'z syscall_state_scheme \<Rightarrow> 'z syscall_state_scheme" where
  "SyscallInit s =
     (let s = s\<lparr>SyscallHandlers := (SyscallHandlers s)(0 := Some SyscallTest_fn)\<rparr>;
          s = s\<lparr>SyscallHandlers := (SyscallHandlers s)(1 := Some SyscallTTYWrite_fn)\<rparr>
      in IdtSetHandler 0x83 SyscallIntHandler_cb s)"

subsection \<open>The two system calls\<close>

definition hello :: "u8 list" where "hello = ascii ''Hello world\<newline>''"

lemma kprintf_hello: "\<exists>t. kprintf ''Hello world\<newline>'' [] s = ret (s\<lparr>console := t\<rparr>) \<and> prints hello (console s) t"
proof -
  have "37 \<notin> set (ascii ''Hello world\<newline>'')" by (simp add: ascii_def)
  from Kprintf_plain [OF this, of "bmem s" "console s"] show ?thesis by (auto simp: kprintf_def hello_def)
qed

lemma syscall_test_loop_prints:
  "i \<le> n \<Longrightarrow> \<exists>t. syscall_test_loop n i s = ret (s\<lparr>console := t\<rparr>) \<and>
     prints (concat (replicate (unat n - unat i) hello)) (console s) t"
proof (induction n i s rule: syscall_test_loop.induct)
  case (1 n i s)
  show ?case
  proof (cases "i < n")
    case False
    with 1(2) have "i = n" by simp
    then show ?thesis by (intro exI [of _ "console s"]) (simp add: syscall_test_loop.simps [of n])
  next
    case True
    obtain t where t: "kprintf ''Hello world\<newline>'' [] s = ret (s\<lparr>console := t\<rparr>)" "prints hello (console s) t"
      using kprintf_hello by blast
    have le: "i + 1 \<le> n" using True by (rule inc_le)
    have u: "unat n - unat i = Suc (unat n - unat (i + 1))"
      using True unat_inc32 [OF True] by (simp add: word_less_nat_alt)
    obtain t' where t': "syscall_test_loop n (i + 1) (s\<lparr>console := t\<rparr>) = ret (s\<lparr>console := t'\<rparr>)"
      "prints (concat (replicate (unat n - unat (i + 1)) hello)) t t'"
      using 1(1) [OF True t(1) [unfolded ret_def] refl le] by auto
    have "prints (concat (replicate (unat n - unat i) hello)) (console s) t'"
      using prints_append [OF t(2) t'(2)] u by simp
    moreover have "syscall_test_loop n i s = ret (s\<lparr>console := t'\<rparr>)"
      using True t(1) t'(1) by (subst syscall_test_loop.simps) (simp add: ret_def)
    ultimately show ?thesis by blast
  qed
qed

lemma SyscallTest_prints:
  "\<exists>t. SyscallTest n s = ret (n * 2, s\<lparr>console := t\<rparr>) \<and>
     prints (concat (replicate (unat n) hello)) (console s) t"
  using syscall_test_loop_prints [of 0 n s] by (auto simp: SyscallTest_def)

lemma SyscallTTYWrite_prints:
  "\<exists>t. SyscallTTYWrite p n s = ret (n, s\<lparr>console := t\<rparr>) \<and> prints (buffer (bmem s) p n) (console s) t"
proof -
  have l: "length (buffer (bmem s) p n) = unat n" by (simp add: buffer_def)
  have "prints (buffer (bmem s) p n) (console s) (emit (buffer (bmem s) p n) (console s))"
    by (rule emit_prints) (use l unsigned_less [of n, where 'a = nat] in simp)
  then show ?thesis by (auto simp: SyscallTTYWrite_def emit_def l)
qed

subsection \<open>Dispatch\<close>

text \<open>What the kernel's interrupt handlers do, by name.\<close>

definition kernel_call :: "linker \<Rightarrow> callback \<Rightarrow> IdtFrame \<Rightarrow> 'z syscall_state_scheme \<Rightarrow> (IdtFrame \<times> 'z syscall_state_scheme) run" where
  "kernel_call L cb frame s =
     (case cb of SchedIrqHandler_cb \<Rightarrow> SchedIrqHandler L frame s
      | SyscallIntHandler_cb \<Rightarrow> SyscallIntHandler frame s
      | PS2KbdIrq1Handler_cb \<Rightarrow> PS2KbdIrq1Handler frame s)"

definition syscalls_ready :: "'z syscall_state_scheme \<Rightarrow> bool" where
  "syscalls_ready s \<longleftrightarrow> IdtIntHandlers s 0x83 = Some SyscallIntHandler_cb \<and>
     SyscallHandlers s 0 = Some SyscallTest_fn \<and> SyscallHandlers s 1 = Some SyscallTTYWrite_fn"

lemma SyscallInit_ready: "syscalls_ready (SyscallInit s)"
  by (simp add: syscalls_ready_def SyscallInit_def IdtSetHandler_def Let_def)


definition syscall_machine :: syscall_state where
  "syscall_machine = SyscallInit (sched_state.extend sched_machine (syscall_state.fields (\<lambda>_. None)))"


end
