(* ===== verification/Kernel.thy ===== *)
theory Kernel
  imports Syscalls
begin

text \<open>
  The boot sequence (\<open>kernel/src/KMain.c\<close>): all components composed in the order \<open>KMain\<close> starts
  them, on the state the boot loader and \<open>_start.asm\<close> leave. The segments (\<open>GdtInit\<close>) are not part
  of this state; the endless loop after \<open>STI\<close> only halts, so
  the result is the state in which the first timer interrupt arrives.
\<close>

definition KMain :: "image \<Rightarrow> port_device \<Rightarrow> 'z syscall_state_scheme \<Rightarrow> 'z syscall_state_scheme run" where
  "KMain I dev s =
     (let s = IdtInit (entry_stubs I) s;
          s = PicInit s;
          s = PitInit s;
          s = MmPmInitAllocator (lk I) s;
          s = MmVmInitAllocator s;
          s = DmInit s
      in mbind (TTYInit I dev s) (\<lambda>s.
         mbind (RamDiskInit I s) (\<lambda>s.
         mbind (SchedInit I s) (\<lambda>s.
         let s = SyscallInit s;
             s = VfsInit s
         in DevfsInit I s))))"

subsection \<open>Memory at boot\<close>

text \<open>After \<open>MmPmInitAllocator\<close> three of four frames are free, so there are enough of them.\<close>

lemma boot_frames:
  assumes "unat (KernelSizePages L) < 200000" "n \<le> 1000"
  shows "frames_left (MmPmInitAllocator L s) n"
proof (rule frames_leftI [where f = "\<lambda>k. 4 * (64 + unat (KernelSizePages L) + k) + 1"])
  show "inj_on (\<lambda>k. 4 * (64 + unat (KernelSizePages L) + k) + 1) {..<n}" by (simp add: inj_on_def)
  fix k assume k: "k < n"
  let ?i = "4 * (64 + unat (KernelSizePages L) + k) + 1"
  have fits: "image_fits L" using assms(1) by (simp add: image_fits_def)
  have arith: "4 * (64 + T + j) + 1 < 1048576" if "T < 200000" "j < 1000" for T j :: nat using that by simp
  have b: "?i < 1048576" by (rule arith [OF assms(1)]) (use assms(2) k in simp)
  then have u: "unat (of_nat ?i :: u32) = ?i" by (intro unat_of_nat32) linarith
  have lt: "(of_nat ?i :: u32) < MM_BITMAP_SIZE" using b by (simp only: word_less_nat_alt u) (simp add: MM_BITMAP_SIZE_def)
  have "(4 * m + 1) mod 4 = 1" for m :: nat by simp
  then have "?i mod 4 = 1" .
  then have "page_status (MmPmInitAllocator L s) (of_nat ?i) = MmPmPageFree"
    by (simp only: boot_status [OF fits lt] u) simp
  moreover have "unat (MmPmBitmapTop (MmPmInitAllocator L s)) \<le> ?i"
  proof -
    have "unat (64 + KernelSizePages L) = 64 + unat (KernelSizePages L)" using assms(1) by (simp add: unat_plus_if')
    then show ?thesis by (simp add: MmPmInitAllocator_def Let_def)
  qed
  ultimately show "unat (MmPmBitmapTop (MmPmInitAllocator L s)) \<le> ?i \<and> ?i < 1048576 \<and>
      page_status (MmPmInitAllocator L s) (of_nat ?i) = MmPmPageFree" using b by blast
qed

text \<open>What the loader leaves: zeroed statics, the literals in place, kernel pages unmapped from some page on.\<close>

definition initial_data :: "image \<Rightarrow> 'z syscall_state_scheme \<Rightarrow> bool" where
  "initial_data I s \<longleftrightarrow> \<not> LibAllocLock s \<and> l_memRoot s = NULL \<and> l_bestBet s = NULL \<and>
     DevfsDeviceList s = NULL \<and> ChildrenAmount (DevfsRootDir s) = 0 \<and> Children (DevfsRootDir s) = NULL \<and>
     VfsFsList s = NULL \<and> SchedProcessList s = NULL \<and> procs s = Map.empty \<and> \<not> initialized s \<and>
     addr_DevfsInfo I \<noteq> NULL \<and> addr_TTYDevfsDev I \<noteq> NULL \<and> addr_TTYDriver I \<noteq> NULL \<and> addr_RamDiskDriver I \<noteq> NULL \<and>
     str_KIdle I \<noteq> NULL \<and> str_Test I \<noteq> NULL"

definition literals :: "image \<Rightarrow> ptr set" where
  "literals I = {str_devfs I, str_tty I, str_TTY I, str_RamDisk I}"

definition power_on :: "image \<Rightarrow> 'z syscall_state_scheme \<Rightarrow> bool" where
  "power_on I s \<longleftrightarrow> image_ok (lk I) \<and> unat (KernelSizePages (lk I)) < 200000 \<and>
     (\<exists>t \<ge> 1. t + 192 \<le> KERNEL_PAGES \<and> unat (addr_VirtualAddress (lk I)) + (t + 192) * 4096 + 8192 < 4294967296 \<and>
        (\<forall>j < KERNEL_PAGES. t \<le> j \<longrightarrow> \<not> kernel_present (lk I) s j)) \<and>
     initial_data I s \<and> (\<forall>p \<in> literals I. \<exists>str. text_at (lk I) s p str)"

lemma chips_console: "\<exists>t. PitInit (PicInit s) = s\<lparr>console := t\<rparr>"
  unfolding PicInit_def PitInit_def PitReconfigureC0_def kernel_outb_def Let_def
  by (rule exI) simp

lemma register_driver:
  assumes "text_at L s name str" "def \<noteq> NULL" "unat (DmDriverCount s) < 32"
  shows "\<exists>s'. mbind (DmRegisterDriver def (set_DriverID def name s)) (\<lambda>(r, s). ret s) = ret s' \<and> drivers s' = drivers s @ [def] \<and>
    DmDriverCount s' = DmDriverCount s + 1 \<and> same_mem s s' \<and> driver_state.more s' = driver_state.more s \<and>
    IdtTable s' = IdtTable s \<and> IdtIntHandlers s' = IdtIntHandlers s"
proof -
  let ?s = "set_DriverID def name s"
  have d: "drivers ?s = drivers s" "length (drivers s) < 32" using assms(3) by (simp_all add: drivers_def set_DriverID_def)
  have "DriverID ?s def = name" "cstr (bmem ?s) name str" "name \<noteq> NULL"
    using assms(1) by (simp_all add: set_DriverID_def text_at_def)
  then obtain t where t: "DmRegisterDriver def ?s = ret (1, ?s\<lparr>DmDriverList := (DmDriverList ?s)(unat (DmDriverCount ?s) := def),
             DmDriverCount := DmDriverCount ?s + 1, console := t\<rparr>)"
      "drivers (?s\<lparr>DmDriverList := (DmDriverList ?s)(unat (DmDriverCount ?s) := def),
             DmDriverCount := DmDriverCount ?s + 1, console := t\<rparr>) = drivers ?s @ [def]"
    using DmRegisterDriver_cases [of ?s "def" str] assms(2,3) d by (auto simp: set_DriverID_def)
  show ?thesis
    by (rule exI [of _ "?s\<lparr>DmDriverList := (DmDriverList ?s)(unat (DmDriverCount ?s) := def),
             DmDriverCount := DmDriverCount ?s + 1, console := t\<rparr>"])
      (use t d in \<open>simp add: same_mem_def set_DriverID_def\<close>)
qed

lemma devfs_more_fields:
  assumes "devfs_state.more s' = devfs_state.more (s :: 'z syscall_state_scheme)"
  shows "SchedProcessList s' = SchedProcessList s" "procs s' = procs s" "proc_of s' = proc_of s" "threads s' = threads s"
    "thread_of s' = thread_of s" "CurrIteratedProc s' = CurrIteratedProc s" "CurrIteratedThread s' = CurrIteratedThread s"
    "SyscallHandlers s' = SyscallHandlers s" "initialized s' = initialized s" "currentPid s' = currentPid s"
  using assms by (cases s', cases s, simp)+

lemma driver_more_fields:
  assumes "driver_state.more s' = driver_state.more (s :: 'z syscall_state_scheme)"
  shows "links s' = links s" "VfsFsList s' = VfsFsList s" "DevfsDeviceList s' = DevfsDeviceList s" "Device s' = Device s"
    "DevfsRootDir s' = DevfsRootDir s" "devfs_state.more s' = devfs_state.more s"
  using assms by (cases s', cases s, simp)+

lemma sched_inv_links:
  assumes "sched_inv L s ps" "\<And>a. owned L s a \<Longrightarrow> owned L s' a \<and> links s' a = links s a"
    and "SchedProcessList s' = SchedProcessList s" "proc_of s' = proc_of s"
    "procs s' = procs s" "threads s' = threads s" "thread_of s' = thread_of s"
  shows "sched_inv L s' ps"
proof -
  have ok: "sched_ok s ps" and own: "\<And>x. x \<in> set (elements ps) \<Longrightarrow> owned L s x" using assms(1) by (simp_all add: sched_inv_def)
  have l: "links s' x = links s x" if "x \<in> set (elements ps)" for x using assms(2) own [OF that] by blast
  have "registered (links s') (SchedProcessList s) (map fst ps) = registered (links s) (SchedProcessList s) (map fst ps)"
    by (rule registered_frame) (rule l, simp add: elements_def)
  moreover have "registered (links s') hd ts = registered (links s) hd ts" if "(e, ts) \<in> set ps" for e ts hd
    by (rule registered_frame) (rule l, use that in \<open>force simp: elements_def\<close>)
  ultimately have "sched_ok s' ps" using ok by (auto simp: sched_ok_def assms(3-7))
  with assms(1,2) show ?thesis unfolding sched_inv_def assms(4,7) by blast
qed

text \<open>The state in which \<open>KMain\<close> has run its first six calls.\<close>

definition early :: "image \<Rightarrow> 'z syscall_state_scheme \<Rightarrow> 'z syscall_state_scheme" where
  "early I s = DmInit (MmVmInitAllocator (MmPmInitAllocator (lk I) (PitInit (PicInit (IdtInit (entry_stubs I) s)))))"

lemma early_state:
  "\<exists>t. early I s = (MmPmInitAllocator (lk I) s)\<lparr>IdtTable := IdtTable (IdtInit (entry_stubs I) s), console := t, DmDriverCount := 0\<rparr>"
proof -
  obtain t where t: "PitInit (PicInit (IdtInit (entry_stubs I) s)) = IdtInit (entry_stubs I) s\<lparr>console := t\<rparr>" using chips_console by blast
  have "early I s = (MmPmInitAllocator (lk I) s)\<lparr>IdtTable := IdtTable (IdtInit (entry_stubs I) s), console := t, DmDriverCount := 0\<rparr>"
    unfolding early_def t by (simp add: IdtInit_eq MmPmInitAllocator_def MmVmInitAllocator_def DmInit_def Let_def)
  then show ?thesis by blast
qed

lemma early_memory:
  assumes "power_on I s"
  shows "heap_ready (lk I) (early I s)" "room (lk I) (early I s) 12"
    "text_at (lk I) s p str \<Longrightarrow> text_at (lk I) (early I s) p str"
proof -
  obtain t where t: "early I s = (MmPmInitAllocator (lk I) s)\<lparr>IdtTable := IdtTable (IdtInit (entry_stubs I) s), console := t, DmDriverCount := 0\<rparr>"
    using early_state by blast
  have p: "kpt (lk I) (early I s) = kpt (lk I) s" "bmem (early I s) = bmem s"
    by (simp_all add: t kpt_def MmPmInitAllocator_def Let_def fun_eq_iff)
  have "heap_ok (lk I) (early I s) []"
    using assms by (simp add: heap_ok_def power_on_def initial_data_def literals_def t MmPmInitAllocator_def Let_def)
  moreover have "\<not> LibAllocLock (early I s)" using assms by (simp add: power_on_def initial_data_def literals_def t MmPmInitAllocator_def Let_def)
  ultimately show "heap_ready (lk I) (early I s)" using assms by (auto simp: heap_ready_def power_on_def initial_data_def literals_def)
  have "frames_left (MmPmInitAllocator (lk I) s) 192" using assms by (intro boot_frames) (simp_all add: power_on_def initial_data_def literals_def)
  then have "frames_left (early I s) 192" by (simp add: t frames_left_def page_status_def)
  then show "room (lk I) (early I s) 12" using assms by (simp add: room_def power_on_def initial_data_def literals_def p)
  show "text_at (lk I) s p str \<Longrightarrow> text_at (lk I) (early I s) p str"
    by (simp add: text_at_def settled_def owned_def p)
qed

lemma early_fields:
  assumes "power_on I s"
  shows "DmDriverCount (early I s) = 0" "drivers (early I s) = []" "DevfsDeviceList (early I s) = NULL"
    "ChildrenAmount (DevfsRootDir (early I s)) = 0" "Children (DevfsRootDir (early I s)) = NULL" "VfsFsList (early I s) = NULL"
    "SchedProcessList (early I s) = NULL" "procs (early I s) = Map.empty" "\<not> initialized (early I s)"
    "IdtTable (early I s) = IdtTable (IdtInit (entry_stubs I) s)" "IdtIntHandlers (early I s) = IdtIntHandlers s"
proof -
  obtain t where t: "early I s = (MmPmInitAllocator (lk I) s)\<lparr>IdtTable := IdtTable (IdtInit (entry_stubs I) s), console := t, DmDriverCount := 0\<rparr>"
    using early_state by blast
  show "DmDriverCount (early I s) = 0" "drivers (early I s) = []" "DevfsDeviceList (early I s) = NULL"
    "ChildrenAmount (DevfsRootDir (early I s)) = 0" "Children (DevfsRootDir (early I s)) = NULL" "VfsFsList (early I s) = NULL"
    "SchedProcessList (early I s) = NULL" "procs (early I s) = Map.empty" "\<not> initialized (early I s)"
    "IdtTable (early I s) = IdtTable (IdtInit (entry_stubs I) s)" "IdtIntHandlers (early I s) = IdtIntHandlers s"
    using assms by (simp_all add: t power_on_def initial_data_def literals_def drivers_def MmPmInitAllocator_def Let_def)
qed

lemma boot_tty:
  assumes "power_on I s"
  shows "\<exists>s' e. TTYInit I dev (early I s) = ret s' \<and> heap_ready (lk I) s' \<and> room (lk I) s' 9 \<and>
    drivers s' = [addr_TTYDriver I] \<and> DmDriverCount s' = 1 \<and> e \<noteq> NULL \<and> owned (lk I) s' e \<and>
    registered (links s') (DevfsDeviceList s') [e] \<and> Device s' e = addr_TTYDevfsDev I \<and> VfsFsList s' = NULL \<and>
    SchedProcessList s' = NULL \<and> procs s' = Map.empty \<and> \<not> initialized s' \<and> IdtTable s' = IdtTable (IdtInit (entry_stubs I) s) \<and>
    (\<forall>p str. text_at (lk I) s p str \<longrightarrow> text_at (lk I) s' p str)"
proof -
  let ?L = "lk I" and ?s1 = "early I s"
  note mem = early_memory [OF assms] and f1 = early_fields [OF assms]
  have p: "addr_TTYDevfsDev I \<noteq> NULL" "addr_TTYDriver I \<noteq> NULL" using assms by (simp_all add: power_on_def initial_data_def literals_def)
  obtain ttystr where tty: "text_at ?L s (str_tty I) ttystr" using assms by (auto simp: power_on_def initial_data_def literals_def)
  obtain TTYstr where TTY: "text_at ?L s (str_TTY I) TTYstr" using assms by (auto simp: power_on_def initial_data_def literals_def)
  let ?s2 = "?s1\<lparr>console := TTYInit_console dev (console ?s1), device_ops := (device_ops ?s1)(addr_TTYDevfsOps I :=
                \<lparr>GetSizeCallback = None, FileOpenCallback = Some TTYOpen_cb\<rparr>),
              devices := (devices ?s1)(addr_TTYDevfsDev I := \<lparr>DevName = str_tty I, DevOperations = addr_TTYDevfsOps I\<rparr>)\<rparr>"
  have "same_mem ?s1 ?s2" by (simp add: same_mem_def)
  note m2 = same_mem_frame [OF this]
  have a: "heap_ready ?L ?s2" "room ?L ?s2 (Suc (Suc (Suc 9)))" "text_at ?L ?s2 (DevName (devices ?s2 (addr_TTYDevfsDev I))) ttystr"
    using mem(1,2) mem(3) [OF tty] by (simp_all only: m2) simp_all
  obtain s3 e where s3: "DevfsAddDevice I (addr_TTYDevfsDev I) ?s2 = ret s3" "heap_ready ?L s3" "room ?L s3 9" "keeps ?L ?s2 s3"
    "device_list s3 [addr_TTYDevfsDev I]" "e \<noteq> NULL" "links s3 = (links ?s2)(e \<mapsto> \<lparr>Next = NULL, Prev = NULL\<rparr>)"
    "DevfsDeviceList s3 = e" "VfsFsList s3 = VfsFsList ?s2" "owned ?L s3 e" "same_drivers ?s2 s3"
    "devfs_state.more s3 = devfs_state.more ?s2"
  proof -
    have "DevfsDeviceList ?s2 = NULL" "ChildrenAmount (DevfsRootDir ?s2) = 0" "Children (DevfsRootDir ?s2) = NULL"
      using f1(3-5) by simp_all
    from DevfsAddDevice_first [OF a(1,2) p(1) this a(3)] that show thesis by blast
  qed
  have reg: "registered (links s3) (DevfsDeviceList s3) [e]" using s3(6-8) by (simp add: registered_def dll_def)
  then have dev: "Device s3 e = addr_TTYDevfsDev I"
    using s3(5,8) by (auto simp: device_list_def registered_def dll_def split: if_splits)
  have text3: "text_at ?L s3 p str" if "text_at ?L s p str" for p str
    using text_at_keeps [OF s3(4)] mem(3) [OF that] m2(5) by blast
  have c3: "DmDriverCount s3 = 0" "drivers s3 = []" "IdtTable s3 = IdtTable (IdtInit (entry_stubs I) s)"
    using s3(11) f1(1,10) by (simp_all add: same_drivers_def drivers_def)
  obtain s4 where s4: "TTY_register_driver I s3 = ret s4" "drivers s4 = drivers s3 @ [addr_TTYDriver I]"
    "DmDriverCount s4 = DmDriverCount s3 + 1" "same_mem s3 s4" "driver_state.more s4 = driver_state.more s3" "IdtTable s4 = IdtTable s3"
    using register_driver [OF text3 [OF TTY] p(2)] c3(1) by (auto simp: TTY_register_driver_def)
  note m4 = same_mem_frame [OF s4(4)] and d4 = driver_more_fields [OF s4(5)]
  note e3 = devfs_more_fields [OF s3(12)] and e4 = devfs_more_fields [OF d4(6)]
  have run: "TTYInit I dev ?s1 = ret s4" using s3(1) s4(1) by (simp add: TTYInit_def Let_def)
  have "heap_ready ?L s4" "room ?L s4 9" "owned ?L s4 e" using s3(2,3,10) by (simp_all only: m4)
  moreover have "text_at ?L s4 p str" if "text_at ?L s p str" for p str using text3 [OF that] by (simp only: m4)
  ultimately show ?thesis
    using run reg dev s3(6,9) s4(2,3,6) c3 f1(6-9) by (intro exI [of _ s4] exI [of _ e]) (simp add: d4 e3 e4)
qed

lemma boot_drivers:
  assumes "power_on I s"
  shows "\<exists>s4 s' e. TTYInit I dev (early I s) = ret s4 \<and> RamDiskInit I s4 = ret s' \<and> heap_ready (lk I) s' \<and> room (lk I) s' 9 \<and>
    drivers s' = [addr_TTYDriver I, addr_RamDiskDriver I] \<and> owned (lk I) s' e \<and>
    registered (links s') (DevfsDeviceList s') [e] \<and> Device s' e = addr_TTYDevfsDev I \<and> VfsFsList s' = NULL \<and>
    SchedProcessList s' = NULL \<and> procs s' = Map.empty \<and> \<not> initialized s' \<and> IdtTable s' = IdtTable (IdtInit (entry_stubs I) s) \<and>
    (\<forall>p str. text_at (lk I) s p str \<longrightarrow> text_at (lk I) s' p str)"
proof -
  obtain rd where rd: "text_at (lk I) s (str_RamDisk I) rd" using assms by (auto simp: power_on_def initial_data_def literals_def)
  obtain s4 e where s4: "TTYInit I dev (early I s) = ret s4" "heap_ready (lk I) s4" "room (lk I) s4 9"
    "drivers s4 = [addr_TTYDriver I]" "DmDriverCount s4 = 1" "e \<noteq> NULL" "owned (lk I) s4 e"
    "registered (links s4) (DevfsDeviceList s4) [e]" "Device s4 e = addr_TTYDevfsDev I" "VfsFsList s4 = NULL"
    "SchedProcessList s4 = NULL" "procs s4 = Map.empty" "\<not> initialized s4" "IdtTable s4 = IdtTable (IdtInit (entry_stubs I) s)"
    "\<forall>p str. text_at (lk I) s p str \<longrightarrow> text_at (lk I) s4 p str"
    using boot_tty [OF assms] by blast
  have "addr_RamDiskDriver I \<noteq> NULL" using assms by (simp add: power_on_def initial_data_def literals_def)
  then obtain s5 where s5: "RamDiskInit I s4 = ret s5" "drivers s5 = drivers s4 @ [addr_RamDiskDriver I]" "same_mem s4 s5"
    "driver_state.more s5 = driver_state.more s4" "IdtTable s5 = IdtTable s4"
    using register_driver [OF s4(15) [rule_format, OF rd]] s4(5) by (auto simp: RamDiskInit_def)
  note m5 = same_mem_frame [OF s5(3)] and d5 = driver_more_fields [OF s5(4)]
  note e5 = devfs_more_fields [OF d5(6)]
  have "heap_ready (lk I) s5" "room (lk I) s5 9" "owned (lk I) s5 e" using s4(2,3,7) by (simp_all only: m5)
  moreover have "text_at (lk I) s5 p str" if "text_at (lk I) s p str" for p str
    using s4(15) [rule_format, OF that] by (simp only: m5)
  ultimately show ?thesis
    using s4(1,4,8-14) s5(1,2,5) by (intro exI [of _ s4] exI [of _ s5] exI [of _ e]) (simp add: d5 e5)
qed

text \<open>The scheduler, the system calls and the registry of filesystems.\<close>

lemma boot_scheduler:
  fixes s :: "'z syscall_state_scheme"
  assumes "heap_ready (lk I) s" "room (lk I) s 9" "SchedProcessList s = NULL" "kernel_only s" "str_KIdle I \<noteq> NULL" "str_Test I \<noteq> NULL" "kernel_modes s"
  shows "\<exists>s6 s' e t1 t2. SchedInit I s = ret s6 \<and> s' = VfsInit (SyscallInit s6) \<and> heap_ready (lk I) s' \<and> room (lk I) s' 1 \<and>
    sched_inv (lk I) s' [(e, [t1, t2])] \<and> sched_view s' [(e, [t1, t2])] [thread_at s' t1, thread_at s' t2] 0 \<and>
    ready [thread_at s' t1, thread_at s' t2] 0 \<and> kernel_only s' \<and> syscalls_ready s' \<and>
    EipT (CPUFrame (thread_at s' t1)) = addr_SchedIdle I \<and> EipT (CPUFrame (thread_at s' t2)) = addr_SchedSleepTest I \<and>
    IdtIntHandlers s' 0x20 = Some SchedIrqHandler_cb \<and> same_links (lk I) {} s s' \<and>
    (\<forall>p str. text_at (lk I) s p str \<longrightarrow> text_at (lk I) s' p str) \<and> DevfsDeviceList s' = DevfsDeviceList s \<and> Device s' = Device s \<and>
    VfsFsList s' = VfsFsList s \<and> IdtTable s' = IdtTable s \<and> drivers s' = drivers s \<and> initialized s' = initialized s \<and>
    CsT (CPUFrame (thread_at s' t1)) = 0x08 \<and> CsT (CPUFrame (thread_at s' t2)) = 0x08"
proof -
  have "room (lk I) s (Suc (Suc (Suc (Suc (Suc (Suc (Suc (Suc (Suc 0)))))))))" using assms(2) by (simp add: eval_nat_numeral)
  then obtain s6 e t1 t2 where s6: "SchedInit I s = ret s6" "sched_inv (lk I) s6 [(e, [t1, t2])]"
    "sched_view s6 [(e, [t1, t2])] [thread_at s6 t1, thread_at s6 t2] 0" "ready [thread_at s6 t1, thread_at s6 t2] 0"
    "EipT (CPUFrame (thread_at s6 t1)) = addr_SchedIdle I" "EipT (CPUFrame (thread_at s6 t2)) = addr_SchedSleepTest I"
    "heap_ready (lk I) s6" "room (lk I) s6 (Suc 0)" "keeps (lk I) s s6" "kernel_only s6"
    "IdtIntHandlers s6 = (IdtIntHandlers s)(0x20 := Some SchedIrqHandler_cb)"
    "same_clients s (s6\<lparr>IdtIntHandlers := IdtIntHandlers s\<rparr>)" "same_links (lk I) {} s s6"
    "CsT (CPUFrame (thread_at s6 t1)) = 0x08" "CsT (CPUFrame (thread_at s6 t2)) = 0x08"
    using SchedInit_first [OF assms(1) _ assms(3-7)] by blast
  let ?s = "VfsInit (SyscallInit s6)"
  have "same_mem s6 ?s" by (simp add: same_mem_def VfsInit_def SyscallInit_def IdtSetHandler_def Let_def)
  note m = same_mem_frame [OF this]
  have f: "links ?s = links s6" "DevfsDeviceList ?s = DevfsDeviceList s6" "Device ?s = Device s6" "VfsFsList ?s = VfsFsList s6"
    "SchedProcessList ?s = SchedProcessList s6" "procs ?s = procs s6" "proc_of ?s = proc_of s6" "threads ?s = threads s6"
    "thread_of ?s = thread_of s6" "CurrIteratedProc ?s = CurrIteratedProc s6" "CurrIteratedThread ?s = CurrIteratedThread s6"
    "IdtTable ?s = IdtTable s6" "DmDriverCount ?s = DmDriverCount s6" "DmDriverList ?s = DmDriverList s6"
    "IdtIntHandlers ?s 0x20 = IdtIntHandlers s6 0x20" "initialized ?s = initialized s6"
    by (simp_all add: VfsInit_def SyscallInit_def IdtSetHandler_def Let_def)
  have at: "thread_at ?s = thread_at s6" by (simp add: thread_at_def [abs_def] f)
  have "syscalls_ready ?s" using SyscallInit_ready [of s6] by (simp add: VfsInit_def)
  moreover have inv: "sched_inv (lk I) ?s [(e, [t1, t2])]" by (rule sched_inv_frame [OF s6(2)]) (simp_all only: f m)
  moreover have "sched_view ?s [(e, [t1, t2])] [thread_at s6 t1, thread_at s6 t2] 0" "kernel_only ?s"
    using inv s6(3,10) by (simp_all add: sched_view_def sched_inv_def kernel_only_def f at)
  moreover have "heap_ready (lk I) ?s" "room (lk I) ?s 1" using s6(7,8) by (simp_all only: m One_nat_def)
  moreover have "same_links (lk I) {} s ?s" using s6(13) by (simp only: same_links_def f m)
  moreover have "text_at (lk I) ?s p str" if "text_at (lk I) s p str" for p str
    using text_at_keeps [OF s6(9) that] by (simp only: m)
  moreover have "DevfsDeviceList ?s = DevfsDeviceList s" "Device ?s = Device s" "VfsFsList ?s = VfsFsList s" "IdtTable ?s = IdtTable s"
    "drivers ?s = drivers s" "initialized ?s = initialized s" using s6(12) by (simp_all add: same_clients_def f drivers_def)
  moreover have "IdtIntHandlers ?s 0x20 = Some SchedIrqHandler_cb" by (simp add: f s6(11))
  ultimately show ?thesis using s6(1,4-6,14,15)
    by (intro exI [of _ s6] exI [of _ ?s] exI [of _ e] exI [of _ t1] exI [of _ t2]) (simp add: at)
qed

text \<open>The state in which \<open>KMain\<close> enables interrupts.\<close>

lemma KMain_reaches:
  assumes "power_on I s"
  shows "\<exists>s' e t1 t2. KMain I dev s = ret s' \<and> heap_ready (lk I) s' \<and>
    IdtTable s' = IdtTable (IdtInit (entry_stubs I) s) \<and> IdtIntHandlers s' 0x20 = Some SchedIrqHandler_cb \<and> syscalls_ready s' \<and> sched_inv (lk I) s' [(e, [t1, t2])] \<and> \<not> initialized s' \<and>
    drivers s' = [addr_TTYDriver I, addr_RamDiskDriver I] \<and>
    sched_view s' [(e, [t1, t2])] [thread_at s' t1, thread_at s' t2] 0 \<and> ready [thread_at s' t1, thread_at s' t2] 0 \<and> kernel_only s' \<and>
    EipT (CPUFrame (thread_at s' t1)) = addr_SchedIdle I \<and> EipT (CPUFrame (thread_at s' t2)) = addr_SchedSleepTest I \<and>
    CsT (CPUFrame (thread_at s' t1)) = 0x08 \<and> CsT (CPUFrame (thread_at s' t2)) = 0x08 \<and>
    VfsCreateInstance I (str_devfs I) NULL s' = ret (addr_DevfsInstance I) \<and>
    dev_listing s' = [] \<and> device_list s' [addr_TTYDevfsDev I]"
proof -
  obtain dn where dn: "text_at (lk I) s (str_devfs I) dn" using assms by (auto simp: power_on_def initial_data_def literals_def)
  have p: "str_KIdle I \<noteq> NULL" "str_Test I \<noteq> NULL" "addr_DevfsInfo I \<noteq> NULL" using assms by (simp_all add: power_on_def initial_data_def literals_def)
  obtain s4 s5 e0 where s5: "TTYInit I dev (early I s) = ret s4" "RamDiskInit I s4 = ret s5" "heap_ready (lk I) s5" "room (lk I) s5 9"
    "drivers s5 = [addr_TTYDriver I, addr_RamDiskDriver I]" "owned (lk I) s5 e0"
    "registered (links s5) (DevfsDeviceList s5) [e0]" "Device s5 e0 = addr_TTYDevfsDev I" "VfsFsList s5 = NULL"
    "SchedProcessList s5 = NULL" "procs s5 = Map.empty" "\<not> initialized s5" "IdtTable s5 = IdtTable (IdtInit (entry_stubs I) s)"
    "\<forall>p str. text_at (lk I) s p str \<longrightarrow> text_at (lk I) s5 p str"
    using boot_drivers [OF assms] by blast
  have "kernel_only s5" "kernel_modes s5" by (simp_all add: kernel_only_def kernel_modes_def s5(11))
  then obtain s6 s7 e t1 t2 where s7: "SchedInit I s5 = ret s6" "s7 = VfsInit (SyscallInit s6)" "heap_ready (lk I) s7" "room (lk I) s7 1"
    "sched_inv (lk I) s7 [(e, [t1, t2])]" "sched_view s7 [(e, [t1, t2])] [thread_at s7 t1, thread_at s7 t2] 0"
    "ready [thread_at s7 t1, thread_at s7 t2] 0" "kernel_only s7" "syscalls_ready s7"
    "EipT (CPUFrame (thread_at s7 t1)) = addr_SchedIdle I" "EipT (CPUFrame (thread_at s7 t2)) = addr_SchedSleepTest I"
    "IdtIntHandlers s7 0x20 = Some SchedIrqHandler_cb" "same_links (lk I) {} s5 s7"
    "\<forall>p str. text_at (lk I) s5 p str \<longrightarrow> text_at (lk I) s7 p str" "DevfsDeviceList s7 = DevfsDeviceList s5" "Device s7 = Device s5"
    "VfsFsList s7 = VfsFsList s5" "IdtTable s7 = IdtTable s5" "drivers s7 = drivers s5" "initialized s7 = initialized s5"
    "CsT (CPUFrame (thread_at s7 t1)) = 0x08" "CsT (CPUFrame (thread_at s7 t2)) = 0x08"
    using boot_scheduler [OF s5(3,4,10) _ p(1,2)] by blast
  have l7: "owned (lk I) s7 e0" "links s7 e0 = links s5 e0" using s5(6) s7(13) by (simp_all add: same_links_def)
  then have reg7: "registered (links s7) (DevfsDeviceList s7) [e0]" "\<forall>x \<in> set [e0]. owned (lk I) s7 x"
    using s5(7) by (simp_all add: registered_def dll_def s7(15))
  have a7: "room (lk I) s7 (Suc 0)" "VfsFsList s7 = NULL" "text_at (lk I) s7 (str_devfs I) dn"
    using s7(4,14,17) s5(9,14) dn by simp_all
  obtain s8 where s8: "DevfsInit I s7 = ret s8" "heap_ready (lk I) s8" "dev_listing s8 = []"
    "registered (links s8) (DevfsDeviceList s8) [e0]" "Device s8 = Device s7"
    "VfsCreateInstance I (str_devfs I) NULL s8 = ret (addr_DevfsInstance I)"
    "\<forall>a. owned (lk I) s7 a \<longrightarrow> owned (lk I) s8 a \<and> links s8 a = links s7 a"
    "same_drivers s7 s8" "devfs_state.more s8 = devfs_state.more s7"
    using DevfsInit_first [OF s7(3) a7(1,2) p(3) a7(3) reg7] by blast
  note e8 = devfs_more_fields [OF s8(9)]
  have at: "thread_at s8 = thread_at s7" by (simp add: thread_at_def [abs_def] e8)
  have inv: "sched_inv (lk I) s8 [(e, [t1, t2])]"
    by (rule sched_inv_links [OF s7(5)]) (use s8(7) e8 in simp_all)
  have "sched_view s8 [(e, [t1, t2])] [thread_at s8 t1, thread_at s8 t2] 0" "kernel_only s8" "syscalls_ready s8"
    using inv s7(6,8,9) s8(8) by (simp_all add: sched_view_def sched_inv_def kernel_only_def syscalls_ready_def same_drivers_def at e8)
  moreover have "device_list s8 [addr_TTYDevfsDev I]"
    using s8(4) s5(8) by (auto simp: device_list_def s8(5) s7(16) intro!: exI [of _ "[e0]"])
  moreover have "drivers s8 = drivers s7" "IdtTable s8 = IdtTable s7" "IdtIntHandlers s8 = IdtIntHandlers s7"
    using s8(8) by (simp_all add: drivers_def same_drivers_def)
  moreover have "KMain I dev s = ret s8"
    using s5(1,2) s7(1,2) s8(1) by (simp add: KMain_def early_def Let_def)
  ultimately show ?thesis using s8(2,3,6) s7(7,10-12,18-22) s5(5,12,13) inv by (intro exI [of _ s8] exI [of _ e] exI [of _ t1] exI [of _ t2]) (simp add: at e8)
qed


text \<open>The machine of the earlier examples, switched on.\<close>

definition boot_machine :: syscall_state where
  "boot_machine = sched_state.extend sched_machine (syscall_state.fields (\<lambda>_. None))"

lemma boot_machine_power_on: "power_on driver_image boot_machine"
proof -
  note defs = boot_machine_def sched_machine_defs syscall_state.defs empty_heap_def
  have t: "text_at sample_image boot_machine 0xE0003030 [100]" "text_at sample_image boot_machine 0xE0003040 []"
    "text_at sample_image boot_machine 0xE0003000 []" "text_at sample_image boot_machine 0xE0003010 []"
    by (rule image_text; simp add: defs)+
  have lk: "lk driver_image = sample_image" "str_devfs driver_image = 0xE0003030" "str_tty driver_image = 0xE0003040"
    "str_TTY driver_image = 0xE0003000" "str_RamDisk driver_image = 0xE0003010" "addr_DevfsInfo driver_image \<noteq> NULL"
    "addr_TTYDevfsDev driver_image \<noteq> NULL" "addr_TTYDriver driver_image \<noteq> NULL" "addr_RamDiskDriver driver_image \<noteq> NULL"
    "str_KIdle driver_image \<noteq> NULL" "str_Test driver_image \<noteq> NULL"
    by (simp_all add: driver_image_def)
  have "\<not> kernel_present sample_image boot_machine j" for j by (simp add: defs kpt_def Present_def)
  moreover have "\<not> LibAllocLock boot_machine" "l_memRoot boot_machine = NULL" "l_bestBet boot_machine = NULL"
    "DevfsDeviceList boot_machine = NULL" "ChildrenAmount (DevfsRootDir boot_machine) = 0"
    "Children (DevfsRootDir boot_machine) = NULL" "VfsFsList boot_machine = NULL" "SchedProcessList boot_machine = NULL"
    "procs boot_machine = Map.empty" "\<not> initialized boot_machine"
    by (simp_all add: defs)
  moreover have "\<forall>p \<in> {0xE0003030, 0xE0003040, 0xE0003000, 0xE0003010}. \<exists>str. text_at sample_image boot_machine p str"
    using t by blast
  ultimately show ?thesis
    unfolding power_on_def initial_data_def literals_def lk using lk(6-) sample_image_ok
    by (simp add: KERNEL_PAGES_def) (intro exI [of _ 1]; simp)
qed


section \<open>The life of the test thread\<close>

text \<open>The timer interrupt, from the entry stub to the acknowledgement.\<close>

lemma timer_interrupt:
  assumes "IdtIntHandlers s 0x20 = Some SchedIrqHandler_cb" "InterruptNumber f = 0x20" "SchedIrqHandler L f s = ret (f', s')"
  shows "\<exists>t. IdtGlobalIntHandler (kernel_call L) f s = ret (Resume f' (s'\<lparr>console := t\<rparr>))"
proof -
  obtain t where "PicEOI 0 s' = s'\<lparr>console := t\<rparr>" unfolding PicEOI_def kernel_outb_def by simp
  moreover have "IdtGlobalIntHandler (kernel_call L) f s = ret (Resume f' (PicEOI 0 s'))"
    using assms by (simp add: IdtGlobalIntHandler_def kernel_call_def Let_def)
  ultimately show ?thesis by auto
qed

lemma view_console [simp]: "sched_view (s\<lparr>console := t\<rparr>) ps ths i = sched_view s ps ths i"
  by (rule sched_view_frame) simp_all

lemma kernel_only_console [simp]: "kernel_only (s\<lparr>console := t\<rparr>) = kernel_only s"
  by (simp add: kernel_only_def)

text \<open>A timer interrupt on a well-formed kernel follows the specification of a tick.\<close>

lemma timer_tick:
  assumes "sched_view s ps ths i" "kernel_only s" "IdtIntHandlers s 0x20 = Some SchedIrqHandler_cb" "InterruptNumber f = 0x20"
    and "tick_spec (if initialized s then Some f else None) ths i = Some (ths', j)"
  shows "\<exists>s'. IdtGlobalIntHandler (kernel_call L) f s = ret (Resume (SchedLoadFrame f (ths' ! j)) s') \<and> sched_view s' ps ths' j \<and>
    kernel_only s' \<and> IdtIntHandlers s' 0x20 = Some SchedIrqHandler_cb \<and> initialized s' \<and> thread_of s' = thread_of s \<and>
    IdtTable s' = IdtTable s"
proof -
  obtain s' where s': "SchedIrqHandler L f s = ret (SchedLoadFrame f (ths' ! j), s')" "sched_view s' ps ths' j" "kernel_only s'" "ticked s s'"
    using kernel_tick [OF assms(1,2,5)] by blast
  then show ?thesis using timer_interrupt [OF assms(3,4) s'(1)] assms(3) by (auto simp: ticked_def)
qed

text \<open>The ticks of a system of two threads, and the sleep of the second.\<close>

lemma two_threads_spec:
  fixes g h :: IdtFrame
  assumes "ready [u, v] 0"
  defines "u' \<equiv> (SchedSaveFrame g u)\<lparr>RemainingCpuTime := 0\<rparr>" and "v' \<equiv> v\<lparr>RemainingCpuTime := 2\<rparr>"
  shows "tick_spec None [u, v] 0 = Some ([u\<lparr>RemainingCpuTime := 1\<rparr>, v], 0)"
    and "tick_spec (Some g) [u\<lparr>RemainingCpuTime := 1\<rparr>, v] 0 = Some ([u', v'], 1)"
    and "\<exists>w. tick_spec (Some h) [u', v'\<lparr>State := TASK_STATE_SLEEPING, RemainingCpuTime := 1000\<rparr>] 1 = Some ([u'\<lparr>RemainingCpuTime := 2\<rparr>, w], 0) \<and> State w = TASK_STATE_SLEEPING"
proof -
  have "\<not> (2 :: u32) \<le> 1" by (simp add: word_le_nat_alt)
  moreover have "State u = TASK_STATE_RUNNING" "State v = TASK_STATE_RUNNING" "RemainingCpuTime u = 2" using assms(1) by (simp_all add: ready_def)
  ultimately show "tick_spec None [u, v] 0 = Some ([u\<lparr>RemainingCpuTime := 1\<rparr>, v], 0)"
    "tick_spec (Some g) [u\<lparr>RemainingCpuTime := 1\<rparr>, v] 0 = Some ([u', v'], 1)"
    "\<exists>w. tick_spec (Some h) [u', v'\<lparr>State := TASK_STATE_SLEEPING, RemainingCpuTime := 1000\<rparr>] 1 = Some ([u'\<lparr>RemainingCpuTime := 2\<rparr>, w], 0) \<and> State w = TASK_STATE_SLEEPING"
    by (simp_all add: tick_spec_def Let_def SchedSaveFrame_def u'_def v'_def)
qed

text \<open>With the second of two threads asleep, the first is current.\<close>

lemma first_is_current:
  assumes "asleep s [(e, [t1, t2])] 1"
  shows "CurrIteratedThread s = t1 \<and> State (thread_at s t2) = TASK_STATE_SLEEPING"
proof -
  obtain ths i where v: "sched_view s [(e, [t1, t2])] ths i" "i \<noteq> 1" "State (ths ! 1) = TASK_STATE_SLEEPING"
    using assms by (auto simp: asleep_def)
  have "i = 0" using view_length [OF v(1)] v(2) by simp
  with v show ?thesis by (auto simp: sched_view_def less_Suc_eq)
qed




end
