(* ===== verification/KernelSafety.thy ===== *)
theory KernelSafety
  imports Kernel
begin

text \<open>
  The kernel after it has booted, as a state machine: interrupts of any vector with any frame,
  threads put to sleep, processes and threads created, memory requested, the console written to.
  Its data stay well formed, and none of the handlers ever panics or follows a bad pointer.
\<close>

section \<open>Well-formed kernel states\<close>

definition kernel_ok :: "linker \<Rightarrow> 'z syscall_state_scheme \<Rightarrow> (ptr \<times> ptr list) list \<Rightarrow> bool" where
  "kernel_ok L s ps \<longleftrightarrow> sched_inv L s ps \<and> (\<exists>ths i. sched_view s ps ths i) \<and> kernel_only s \<and> heap_ready L s \<and>
     syscalls_ready s \<and> IdtIntHandlers s 0x20 = Some SchedIrqHandler_cb"

text \<open>All that a well-formed state depends on, and the cases in which it does not change.\<close>

lemma sched_view_current:
  "sched_inv L s ps \<Longrightarrow> (\<exists>ths i. sched_view s ps ths i) \<longleftrightarrow> (CurrIteratedProc s, CurrIteratedThread s) \<in> set (ring ps)"
  by (auto simp: sched_view_def sched_inv_def in_set_conv_nth)

lemma kernel_okI:
  assumes "kernel_ok L s ps" "sched_inv L s' ps'" "set (ring ps) \<subseteq> set (ring ps')" "CurrIteratedProc s' = CurrIteratedProc s"
    "CurrIteratedThread s' = CurrIteratedThread s" "kernel_only s'" "heap_ready L s'" "sched_state.more s' = sched_state.more s"
    "IdtIntHandlers s' = IdtIntHandlers s"
  shows "kernel_ok L s' ps'"
proof -
  have "SyscallHandlers s' = SyscallHandlers s" using assms(8) by (cases s, cases s') simp
  moreover have "(CurrIteratedProc s', CurrIteratedThread s') \<in> set (ring ps')"
    using assms(1-5) sched_view_current [of L s ps] by (auto simp: kernel_ok_def)
  ultimately show ?thesis
    using assms by (simp add: kernel_ok_def syscalls_ready_def sched_view_current)
qed

lemma kernel_ok_console: "kernel_ok L s ps \<Longrightarrow> kernel_ok L (s\<lparr>console := t\<rparr>) ps"
proof -
  assume ok: "kernel_ok L s ps"
  have m: "same_mem s (s\<lparr>console := t\<rparr>)" by (simp add: same_mem_def)
  have "sched_inv L (s\<lparr>console := t\<rparr>) ps"
    by (rule sched_inv_frame [of L s]) (use ok in \<open>simp_all add: kernel_ok_def same_mem_owned [OF m]\<close>)
  then show ?thesis
    using ok same_mem_frame(1) [OF m] by (intro kernel_okI [OF ok]) (simp_all add: kernel_ok_def)
qed

lemma kernel_ok_tick:
  assumes "kernel_ok L s ps" "ticked s s'" "sched_view s' ps ths j" "kernel_only s'"
  shows "kernel_ok L s' ps"
proof -
  note f = assms(2) [unfolded ticked_def]
  note m = same_mem_frame [of s s']
  have "SyscallHandlers s' = SyscallHandlers s" using f by (cases s, cases s') simp
  moreover have "sched_inv L s' ps"
    using assms(1,3) f m(3) unfolding kernel_ok_def sched_inv_def sched_view_def by simp
  ultimately show ?thesis using assms(1,3,4) f m(1) unfolding kernel_ok_def syscalls_ready_def by auto
qed

section \<open>Interrupts\<close>

lemma SyscallIntHandler_returns:
  assumes "syscalls_ready s"
  shows "\<exists>r t. SyscallIntHandler f s = ret (f\<lparr>Eax := r\<rparr>, s\<lparr>console := t\<rparr>)"
proof -
  have n: "\<not> (2 :: u32) \<le> 1" by (simp add: word_le_nat_alt)
  have "unat (Eax f) = 0 \<or> unat (Eax f) = 1 \<or> 2 \<le> unat (Eax f)" by linarith
  then consider "Eax f = 0" | "Eax f = 1" | "Eax f \<ge> 2" by (auto simp: word_le_nat_alt word_unat_eq_iff)
  then show ?thesis
  proof cases
    case 1
    with SyscallTest_prints [of "Ebx f" s] assms show ?thesis
      by (auto simp: SyscallIntHandler_def SYSCALL_HANDLER_AMOUNT_def syscalls_ready_def)
  next
    case 2
    with SyscallTTYWrite_prints [of "Ebx f" "Ecx f" s] assms n show ?thesis
      by (auto simp: SyscallIntHandler_def SYSCALL_HANDLER_AMOUNT_def syscalls_ready_def)
  next
    case 3
    then have "SyscallIntHandler f s = ret (f\<lparr>Eax := Eax f\<rparr>, s\<lparr>console := console s\<rparr>)"
      by (simp add: SyscallIntHandler_def SYSCALL_HANDLER_AMOUNT_def)
    then show ?thesis by blast
  qed
qed

definition all_asleep :: "'z sched_state_scheme \<Rightarrow> (ptr \<times> ptr list) list \<Rightarrow> bool" where
  "all_asleep s ps \<longleftrightarrow> (\<forall>(e, t) \<in> set (ring ps). State (thread_at s t) = TASK_STATE_SLEEPING)"

lemma handler_safe:
  assumes "kernel_ok L s ps"
  shows "case kernel_call L cb f s of None \<Rightarrow> cb = SchedIrqHandler_cb \<and> all_asleep s ps
    | Some (Inl e) \<Rightarrow> False | Some (Inr (f', s')) \<Rightarrow> kernel_ok L s' ps \<and> IdtTable s' = IdtTable s"
proof (cases cb)
  case SchedIrqHandler_cb
  obtain ths i where v: "sched_view s ps ths i" and k: "kernel_only s" using assms by (auto simp: kernel_ok_def)
  let ?spec = "tick_spec (if initialized s then Some f else None) ths i"
  show ?thesis
  proof (cases ?spec)
    case None
    then have "\<forall>t \<in> set ths. State t = TASK_STATE_SLEEPING" using tick_spec_None view_length [OF v] by blast
    then have "all_asleep s ps" using v by (fastforce simp: all_asleep_def sched_view_def)
    then show ?thesis using SchedIrqHandler_view [OF v, where frame = f and L = L] None SchedIrqHandler_cb
      by (simp add: kernel_call_def)
  next
    case (Some r)
    obtain ths' j where r: "r = (ths', j)" by (cases r)
    obtain s' where s': "SchedIrqHandler L f s = ret (SchedLoadFrame f (ths' ! j), s')" "sched_view s' ps ths' j" "kernel_only s'" "ticked s s'"
      using kernel_tick [OF v k Some [unfolded r]] by blast
    then have "kernel_ok L s' ps" by (intro kernel_ok_tick [OF assms])
    moreover have "IdtTable s' = IdtTable s" using s'(4) by (simp add: ticked_def)
    ultimately show ?thesis using s'(1) SchedIrqHandler_cb by (simp add: kernel_call_def ret_def)
  qed
next
  case SyscallIntHandler_cb
  obtain r t where "SyscallIntHandler f s = ret (f\<lparr>Eax := r\<rparr>, s\<lparr>console := t\<rparr>)"
    using SyscallIntHandler_returns [of s f] assms by (auto simp: kernel_ok_def)
  then show ?thesis using SyscallIntHandler_cb kernel_ok_console [OF assms] by (simp add: kernel_call_def ret_def)
next
  case PS2KbdIrq1Handler_cb
  then show ?thesis using assms by (simp add: kernel_call_def PS2KbdIrq1Handler_def ret_def)
qed

lemma interrupt_safe:
  assumes "kernel_ok L s ps"
  shows "case IdtGlobalIntHandler (kernel_call L) f s of
      None \<Rightarrow> 0x1E < InterruptNumber f \<and> IdtIntHandlers s (ucast (InterruptNumber f)) = Some SchedIrqHandler_cb \<and> all_asleep s ps
    | Some (Inl e) \<Rightarrow> False
    | Some (Inr (Hang s')) \<Rightarrow> InterruptNumber f \<le> 0x1E
    | Some (Inr (Resume f' s')) \<Rightarrow> 0x1E < InterruptNumber f \<and> kernel_ok L s' ps \<and> IdtTable s' = IdtTable s"
proof (cases "InterruptNumber f \<le> 0x1E")
  case True
  then show ?thesis by (simp add: IdtGlobalIntHandler_def Let_def ret_def)
next
  case False
  then have n: "0x1E < InterruptNumber f" "InterruptNumber f \<noteq> 0x0E" by auto
  let ?r = "case IdtIntHandlers s (ucast (InterruptNumber f)) of Some cb \<Rightarrow> kernel_call L cb f s | None \<Rightarrow> ret (f, s)"
  have eoi: "kernel_ok L (if b then PicEOI x s' else s') ps \<and> IdtTable (if b then PicEOI x s' else s') = IdtTable s'"
    if "kernel_ok L s' ps" for b x s'
    using kernel_ok_console [OF that] that by (simp add: PicEOI_def kernel_outb_def)
  have safe: "case ?r of None \<Rightarrow> IdtIntHandlers s (ucast (InterruptNumber f)) = Some SchedIrqHandler_cb \<and> all_asleep s ps
    | Some (Inl e) \<Rightarrow> False | Some (Inr (f', s')) \<Rightarrow> kernel_ok L s' ps \<and> IdtTable s' = IdtTable s"
  proof (cases "IdtIntHandlers s (ucast (InterruptNumber f))")
    case None
    then show ?thesis using assms by (simp add: ret_def)
  next
    case (Some cb)
    with handler_safe [OF assms, of cb f] show ?thesis by (auto split: option.splits sum.splits)
  qed
  show ?thesis
  proof (cases ?r)
    case None
    then show ?thesis using safe n False by (simp add: IdtGlobalIntHandler_def Let_def)
  next
    case (Some x)
    then obtain f' s' where x: "x = Inr (f', s')" "kernel_ok L s' ps" "IdtTable s' = IdtTable s" using safe by (auto split: sum.splits)
    then show ?thesis using Some n False eoi [OF x(2)] x(3)
      by (simp add: IdtGlobalIntHandler_def Let_def ret_def)
  qed
qed


section \<open>The kernel as a state machine\<close>

text \<open>
  What may happen to the kernel's data. \<open>e\<close> is an element of the process list, and two requests of
  memory have to be met for a process or a thread. Software interrupts carry any frame \<open>f\<close>.
\<close>

definition listed_process :: "'z sched_state_scheme \<Rightarrow> ptr \<Rightarrow> bool" where
  "listed_process s p \<longleftrightarrow> (\<exists>es e. registered (links s) (SchedProcessList s) es \<and> e \<in> set es \<and> proc_of s e = Some p)"

definition software_interrupt :: "linker \<Rightarrow> IdtFrame \<Rightarrow> u8 \<Rightarrow> 'z syscall_state_scheme \<Rightarrow> 'z syscall_state_scheme handled run" where
  "software_interrupt L f n = IdtGlobalIntHandler (kernel_call L) (f\<lparr>InterruptNumber := ucast n\<rparr>)"

inductive kernel_step :: "linker \<Rightarrow> 'z syscall_state_scheme \<Rightarrow> 'z syscall_state_scheme \<Rightarrow> bool" for L where
  interrupt: "IdtGlobalIntHandler (kernel_call L) f s = ret (Resume f' s') \<Longrightarrow> kernel_step L s s'"
| sleep: "SchedSleep (software_interrupt L f) thread millis s = ret (Resume f' s') \<Longrightarrow> kernel_step L s s'"
| process: "room L s 2 \<Longrightarrow> SchedCreateProcess L kernelMode False uid s = ret (p, s') \<Longrightarrow> kernel_step L s s'"
| thread: "room L s 2 \<Longrightarrow> listed_process s owner \<Longrightarrow> name \<noteq> NULL \<Longrightarrow>
    SchedCreateThread L owner name eip stack s = ret (p, s') \<Longrightarrow> kernel_step L s s'"
| allocate: "request_fits n \<Longrightarrow> malloc L n s = ret (p, s') \<Longrightarrow> kernel_step L s s'"
| print: "kernel_step L s (s\<lparr>console := t\<rparr>)"

lemma sleep_safe:
  assumes "kernel_ok L s ps" "threads s a = Some t" "a \<noteq> NULL"
  shows "kernel_ok L (put_thread a (t\<lparr>State := TASK_STATE_SLEEPING, RemainingCpuTime := millis\<rparr>) s) ps"
    (is "kernel_ok L ?s ps")
proof -
  obtain ths i where v: "sched_view s ps ths i" using assms(1) by (auto simp: kernel_ok_def)
  obtain ths' where v': "sched_view ?s ps ths' i" using put_view [OF v assms(2), of "t\<lparr>State := TASK_STATE_SLEEPING, RemainingCpuTime := millis\<rparr>"] by auto
  have m: "same_mem s ?s" by simp
  have "sched_inv L ?s ps"
    using assms(1) v' same_mem_owned [OF m]
    unfolding kernel_ok_def sched_inv_def sched_view_def by (simp add: put_thread_def)
  then show ?thesis
    using assms(1) same_mem_frame(1) [OF m] by (intro kernel_okI [OF assms(1)]) (simp_all add: kernel_ok_def put_thread_def kernel_only_def)
qed

lemma SchedSleep_safe:
  assumes "kernel_ok L s ps" "SchedSleep (software_interrupt L f) thread millis s = ret (Resume f' s')"
  shows "kernel_ok L s' ps \<and> IdtTable s' = IdtTable s"
proof -
  have "thread \<noteq> NULL" using assms(2) by (auto simp: SchedSleep_def mbind_KAssert_eq_ret)
  moreover obtain t where t: "threads s thread = Some t"
    "software_interrupt L f 0x20 (put_thread thread (t\<lparr>State := TASK_STATE_SLEEPING, RemainingCpuTime := millis\<rparr>) s) = ret (Resume f' s')"
    using SchedSleep_ret [OF assms(2)] by blast
  ultimately have "kernel_ok L (put_thread thread (t\<lparr>State := TASK_STATE_SLEEPING, RemainingCpuTime := millis\<rparr>) s) ps"
    using sleep_safe [OF assms(1)] by blast
  from interrupt_safe [OF this, of "f\<lparr>InterruptNumber := 0x20\<rparr>"] t(2) show ?thesis
    by (simp add: software_interrupt_def ret_def put_thread_def)
qed

lemma listed_process_split:
  assumes "kernel_ok L s ps" "listed_process s owner"
  shows "\<exists>as e ts bs. ps = as @ (e, ts) # bs \<and> proc_of s e = Some owner"
proof -
  have reg: "registered (links s) (SchedProcessList s) (map fst ps)"
    using assms(1) by (simp add: kernel_ok_def sched_inv_def sched_ok_def)
  obtain es e where e: "registered (links s) (SchedProcessList s) es" "e \<in> set es" "proc_of s e = Some owner"
    using assms(2) by (auto simp: listed_process_def)
  have "es = map fst ps" by (rule registered_unique [OF e(1) reg])
  then obtain ts where "(e, ts) \<in> set ps" using e(2) by auto
  then show ?thesis using e(3) by (meson split_list)
qed

lemma allocated_safe:
  assumes "kernel_ok L s ps" "heap_ready L s'" "same_outside s s'" "\<forall>a. owned L s a \<longrightarrow> owned L s' a"
  shows "kernel_ok L s' ps \<and> IdtTable s' = IdtTable s"
proof -
  have "IdtTable s' = IdtTable s" using same_outside_clients [OF assms(3)] by (simp add: same_clients_def)
  note x = this same_outside_sched [OF assms(3)]
  have "sched_inv L s' ps" by (rule sched_inv_frame [of L s]) (use assms(1,4) x in \<open>simp_all add: kernel_ok_def\<close>)
  then have "kernel_ok L s' ps"
    using assms(1,2) x same_outside_current [OF assms(3)]
    by (intro kernel_okI [OF assms(1)]) (simp_all add: kernel_ok_def same_current_def kernel_only_def)
  then show ?thesis using x(1) by blast
qed

lemma step_safe:
  assumes "kernel_step L s s'" "kernel_ok L s ps"
  shows "\<exists>ps'. kernel_ok L s' ps' \<and> IdtTable s' = IdtTable s"
  using assms(1)
proof cases
  case (interrupt f f')
  then show ?thesis using interrupt_safe [OF assms(2), of f] by (auto simp: ret_def)
next
  case (sleep f thread millis f')
  then show ?thesis using SchedSleep_safe [OF assms(2)] by blast
next
  case (process kernelMode uid p)
  have inv: "sched_inv L s ps" "heap_ready L s" "room L s (Suc (Suc 0))" using assms(2) process(1) by (simp_all add: kernel_ok_def numeral_2_eq_2)
  from SchedCreateProcess_inv [OF inv, of kernelMode uid] process(2) obtain e where
    "sched_inv L s' (ps @ [(e, [])])" "heap_ready L s'" "same_clients s s'" "kernel_only s \<longrightarrow> kernel_only s'" "same_current s s'"
    by auto
  moreover from this have "IdtTable s' = IdtTable s" by (simp add: same_clients_def)
  moreover from calculation have "kernel_ok L s' (ps @ [(e, [])])"
    using assms(2) by (intro kernel_okI [OF assms(2)]) (auto simp: kernel_ok_def same_clients_def same_current_def)
  ultimately show ?thesis by blast
next
  case (thread owner name eip stack p)
  obtain as e ts bs where ps: "ps = as @ (e, ts) # bs" "proc_of s e = Some owner"
    using listed_process_split [OF assms(2) thread(2)] by blast
  have inv: "sched_inv L s ps" "heap_ready L s" "room L s (Suc (Suc 0))" using assms(2) thread(1) by (simp_all add: kernel_ok_def numeral_2_eq_2)
  from SchedCreateThread_inv [OF inv(1) ps thread(3) inv(2,3), of eip stack] thread(4) obtain te where
    "sched_inv L s' (as @ (e, ts @ [te]) # bs)" "heap_ready L s'" "same_clients s s'" "kernel_only s \<longrightarrow> kernel_only s'" "same_current s s'"
    by auto
  moreover from this have "IdtTable s' = IdtTable s" by (simp add: same_clients_def)
  moreover from calculation have "kernel_ok L s' (as @ (e, ts @ [te]) # bs)"
    using assms(2) by (intro kernel_okI [OF assms(2)]) (auto simp: kernel_ok_def same_clients_def same_current_def ps(1))
  ultimately show ?thesis by blast
next
  case (allocate n p)
  have h: "heap_ready L s" using assms(2) by (simp add: kernel_ok_def)
  from malloc_contract [OF h allocate(1)] allocate(2) have "heap_ready L s'" "same_outside s s'" "\<forall>a. owned L s a \<longrightarrow> owned L s' a"
    by (auto simp: ret_def)
  then show ?thesis using allocated_safe [OF assms(2)] by blast
next
  case (print t)
  then show ?thesis using kernel_ok_console [OF assms(2)] by auto
qed


interpretation booted: preserved "kernel_step L" "\<lambda>s. \<exists>ps. kernel_ok L s ps" for L
  by unfold_locales (blast dest: step_safe)

lemma SchedSleep_never_panics:
  assumes "kernel_ok L s ps" "threads s a = Some t" "a \<noteq> NULL"
  shows "SchedSleep (software_interrupt L f) a millis s \<noteq> Some (Inl e)"
proof -
  let ?s = "put_thread a (t\<lparr>State := TASK_STATE_SLEEPING, RemainingCpuTime := millis\<rparr>) s"
  have "SchedSleep (software_interrupt L f) a millis s = software_interrupt L f 0x20 ?s"
    using assms(2,3) by (simp add: SchedSleep_def SchedTick_def)
  then show ?thesis using interrupt_safe [OF sleep_safe [OF assms, of millis], of "f\<lparr>InterruptNumber := 0x20\<rparr>"]
    by (auto simp: software_interrupt_def)
qed

lemma KMain_kernel_ok:
  assumes "power_on I s" "KMain I dev s = ret s0"
  shows "\<exists>ps. kernel_ok (lk I) s0 ps"
proof -
  obtain s' e t1 t2 where "KMain I dev s = ret s'" "heap_ready (lk I) s'" "IdtIntHandlers s' 0x20 = Some SchedIrqHandler_cb"
    "syscalls_ready s'" "sched_inv (lk I) s' [(e, [t1, t2])]" "kernel_only s'"
    "sched_view s' [(e, [t1, t2])] [thread_at s' t1, thread_at s' t2] 0"
    using KMain_reaches [OF assms(1), of dev] by blast
  then have "kernel_ok (lk I) s0 [(e, [t1, t2])]" using assms(2) by (auto simp: kernel_ok_def)
  then show ?thesis by blast
qed

text \<open>
  The booted kernel is type safe. Whatever follows the end of \<open>KMain\<close>, in any order and number
  (interrupts of any vector with any registers, threads put to sleep, processes without page
  directory and threads created while memory lasts, memory requested, the console written to), the
  data of the kernel stay well formed. In every such state the interrupt handler neither panics nor follows a bad
  pointer, whatever frame it is given: it stops the machine for a processor exception, never
  returns if it looks for a thread to run and all sleep, and otherwise leaves a well-formed state again. Nor does putting an existing
  thread to sleep panic.
\<close>

lemma booted_kernel_never_faults:
  assumes "power_on I s" "KMain I dev s = ret s0" "(kernel_step (lk I))\<^sup>*\<^sup>* s0 s1"
  shows "\<exists>ps. kernel_ok (lk I) s1 ps \<and>
    (\<forall>f. case IdtGlobalIntHandler (kernel_call (lk I)) f s1 of
        None \<Rightarrow> 0x1E < InterruptNumber f \<and> IdtIntHandlers s1 (ucast (InterruptNumber f)) = Some SchedIrqHandler_cb \<and> all_asleep s1 ps
      | Some (Inl e) \<Rightarrow> False
      | Some (Inr (Hang s')) \<Rightarrow> InterruptNumber f \<le> 0x1E
      | Some (Inr (Resume f' s')) \<Rightarrow> 0x1E < InterruptNumber f \<and> kernel_ok (lk I) s' ps) \<and>
    (\<forall>a t f millis e. threads s1 a = Some t \<and> a \<noteq> NULL \<longrightarrow> SchedSleep (software_interrupt (lk I) f) a millis s1 \<noteq> Some (Inl e))"
proof -
  obtain ps where ps: "kernel_ok (lk I) s1 ps"
    using booted.steps [OF assms(3)] KMain_kernel_ok [OF assms(1,2)] by blast
  have "\<forall>a t f millis e. threads s1 a = Some t \<and> a \<noteq> NULL \<longrightarrow> SchedSleep (software_interrupt (lk I) f) a millis s1 \<noteq> Some (Inl e)"
    using SchedSleep_never_panics [OF ps] by blast
  moreover have "case IdtGlobalIntHandler (kernel_call (lk I)) f s1 of
        None \<Rightarrow> 0x1E < InterruptNumber f \<and> IdtIntHandlers s1 (ucast (InterruptNumber f)) = Some SchedIrqHandler_cb \<and> all_asleep s1 ps
      | Some (Inl e) \<Rightarrow> False
      | Some (Inr (Hang s')) \<Rightarrow> InterruptNumber f \<le> 0x1E
      | Some (Inr (Resume f' s')) \<Rightarrow> 0x1E < InterruptNumber f \<and> kernel_ok (lk I) s' ps" for f
    using interrupt_safe [OF ps, of f] by (auto split: option.splits sum.splits handled.splits)
  ultimately show ?thesis using ps by blast
qed

lemma booted_kernel_never_faults_witness:
  "\<exists>s0 ps. KMain driver_image (\<lambda>h p. 0) boot_machine = ret s0 \<and> kernel_ok sample_image (s0\<lparr>console := blank_tty\<rparr>) ps"
proof -
  obtain s0 where s0: "KMain driver_image (\<lambda>h p. 0) boot_machine = ret s0"
    using KMain_reaches [OF boot_machine_power_on, of "\<lambda>h p. 0"] by blast
  have lk: "lk driver_image = sample_image" by (simp add: driver_image_def)
  have "(kernel_step (lk driver_image))\<^sup>*\<^sup>* s0 (s0\<lparr>console := blank_tty\<rparr>)"
    by (rule r_into_rtranclp, rule kernel_step.print)
  from booted_kernel_never_faults [OF boot_machine_power_on s0 this] s0 show ?thesis
    unfolding lk by blast
qed

end
