(* ===== verification/StartCode.thy ===== *)
theory StartCode
  imports Heap_Invariant
begin

unbundle bit_operations_syntax

text \<open>
  The entry point of the image (\<open>kernel/src/_start.asm\<close>) and the symbols the linker script places
  (\<open>kernel/mcpgos.ld\<close>). The boot loader has copied the image to \<open>PhysicalAddress\<close>, cleared \<open>.bss\<close> and
  jumped here with paging off, so memory is addressed physically. The code copies the Multiboot
  tags, fills the page tables of kernel space, points a first page directory at them and turns
  paging on. Whether the direction flag is set is up to the loader: it is cleared only at the end.
\<close>

section \<open>The image\<close>

definition KernelStart :: ptr where "KernelStart = VirtualAddress"

definition KernelEnd :: "linker \<Rightarrow> ptr" where
  "KernelEnd L = KernelStart + 4096 * KernelSizePages L"

definition TO_PHYSICAL :: "ptr \<Rightarrow> u32" where
  "TO_PHYSICAL virt = virt - 0xE0000000 + 0x100000"

text \<open>\<open>TemporaryPageDirectory\<close> follows \<open>ZeroIdentityPage\<close>, page aligned.\<close>

definition addr_TemporaryPageDirectory :: "linker \<Rightarrow> ptr" where
  "addr_TemporaryPageDirectory L = addr_ZeroIdentityPage L + 0x1000"

text \<open>The initial contents of the three tables in \<open>.data\<close>.\<close>

definition KernelPageTables_data :: "nat \<Rightarrow> u32" where "KernelPageTables_data i = 0"

definition ZeroIdentityPage_data :: "nat \<Rightarrow> u32" where
  "ZeroIdentityPage_data i = of_nat (4096 * i) OR 3"

definition TemporaryPageDirectory_data :: "nat \<Rightarrow> u32" where
  "TemporaryPageDirectory_data i = (if i = 0 then 0 OR 3 else 0)"

text \<open>The Multiboot header, as double words; the two tags are the module alignment tag and the end tag.\<close>

definition MultibootHeader_data :: "u32 list" where
  "MultibootHeader_data = (let header_size = 32 :: u32 in [0xE85250D6, 0, header_size, - 0xE85250D6 - header_size, 0x0006, 8, 0x0000, 8])"

text \<open>What a loader requires of it: the magic number, a sum of zero, its size, and tags of eight bytes up to an end tag.\<close>

fun tags_end :: "u32 list \<Rightarrow> bool" where
  "tags_end [t, n] \<longleftrightarrow> t = 0 \<and> n = 8"
| "tags_end (t # n # ws) \<longleftrightarrow> t \<noteq> 0 \<and> n = 8 \<and> tags_end ws"
| "tags_end _ \<longleftrightarrow> False"

lemma multiboot_header_accepted:
  "hd MultibootHeader_data = 0xE85250D6 \<and> sum_list (take 4 MultibootHeader_data) = 0 \<and>
   MultibootHeader_data ! 2 = of_nat (4 * length MultibootHeader_data) \<and> tags_end (drop 4 MultibootHeader_data)"
  by code_simp

section \<open>The code\<close>

text \<open>\<open>.copyMboot\<close>: \<open>rep movsb\<close>, upwards or downwards as the direction flag says.\<close>

primrec rep_movsb :: "nat \<Rightarrow> bool \<Rightarrow> bytes \<Rightarrow> ptr \<Rightarrow> ptr \<Rightarrow> bytes \<Rightarrow> bytes" where
  "rep_movsb 0 df src esi edi m = m"
| "rep_movsb (Suc ecx) df src esi edi m =
     (let m = m(edi := src esi) in
      if df then rep_movsb ecx df src (esi - 1) (edi - 1) m else rep_movsb ecx df src (esi + 1) (edi + 1) m)"

text \<open>\<open>.kernelSpacePreparing\<close>; the comparison that ends it is signed.\<close>

partial_function (option) kernelSpacePreparing :: "u32 \<Rightarrow> u32 \<Rightarrow> u32 \<Rightarrow> (u32 \<Rightarrow> u32) \<Rightarrow> (u32 \<Rightarrow> u32) option" where
  "kernelSpacePreparing end eax esi m =
     (let m = m(esi := m esi OR eax);
          m = m(esi := m esi OR 3);
          esi = esi + 4;
          eax = eax + 4096
      in if eax <s end then kernelSpacePreparing end eax esi m else Some m)"

text \<open>\<open>.kernelSpaceMapping.loop\<close>.\<close>

primrec kernelSpaceMapping :: "nat \<Rightarrow> u32 \<Rightarrow> u32 \<Rightarrow> (u32 \<Rightarrow> u32) \<Rightarrow> (u32 \<Rightarrow> u32)" where
  "kernelSpaceMapping 0 esi edi m = m"
| "kernelSpaceMapping (Suc ecx) esi edi m =
     (let m = m(esi := m esi OR edi);
          m = m(esi := m esi OR 3)
      in kernelSpaceMapping ecx (esi + 4) (edi + 4096) m)"

text \<open>
  \<open>_start\<close> with \<open>ebx = tags\<close>, up to the jump to \<open>KMain\<close>; not to return is to halt in \<open>.hang\<close>.
  The first word of the tags is their size; their bytes are \<open>src\<close>.
\<close>

definition start :: "linker \<Rightarrow> ptr \<Rightarrow> bool \<Rightarrow> bytes \<Rightarrow> u32 \<Rightarrow> ptr \<Rightarrow> 'z heap_state_scheme \<Rightarrow> 'z heap_state_scheme run" where
  "start L MultibootTags df src tagsize ebx s =
     (if tagsize \<le>s 4096 then
        (let s = s\<lparr>bmem := rep_movsb (unat tagsize) df src ebx MultibootTags (bmem s)\<rparr>;
             tpd = TO_PHYSICAL (addr_TemporaryPageDirectory L)
         in case kernelSpacePreparing (TO_PHYSICAL (KernelEnd L)) (TO_PHYSICAL KernelStart)
                   (TO_PHYSICAL (addr_KernelPageTables L)) (pmem s) of
              None \<Rightarrow> None
            | Some m \<Rightarrow>
                (let m = m(tpd := m tpd OR TO_PHYSICAL (addr_ZeroIdentityPage L));
                     m = kernelSpaceMapping 128 (tpd + 4 * 896) (TO_PHYSICAL (addr_KernelPageTables L)) m
                 in ret (s\<lparr>pmem := m, cr3 := tpd, CurrentPageDirectory := addr_TemporaryPageDirectory L,
                       CurrentPageDirectoryPhys := tpd\<rparr>)))
      else None)"

section \<open>What the loops compute\<close>

text \<open>Adding to entry \<open>i\<close> of the table at \<open>e\<close> the frame at \<open>b + 4096 * i\<close>, present and writable.\<close>

definition or_entries :: "u32 \<Rightarrow> u32 \<Rightarrow> nat list \<Rightarrow> (u32 \<Rightarrow> u32) \<Rightarrow> (u32 \<Rightarrow> u32)" where
  "or_entries e b = fold (\<lambda>i m. m(e + of_nat (4 * i) := (m (e + of_nat (4 * i)) OR (b + of_nat (4096 * i))) OR 3))"

lemma sint_small: "unat x < 2147483648 \<Longrightarrow> sint x = int (unat x)" for x :: u32
proof -
  assume u: "unat x < 2147483648"
  have e: "uint x = int (unat x)" by (simp only: uint_nat)
  have "uint x < 2147483648" unfolding e using u by linarith
  then have "signed_take_bit 31 (uint x) = uint x"
  proof (intro signed_take_bit_int_eq_self)
    show "- (2 ^ 31) \<le> uint x" by (rule order_trans [OF _ uint_ge_0]) simp
  qed simp
  moreover have "sint x = signed_take_bit 31 (uint x)" by (simp only: sint_uint len_num1 len_bit0 len_bit1) simp
  ultimately show ?thesis by (simp only: e)
qed

lemma sless_small:
  "unat x < 2147483648 \<Longrightarrow> unat y < 2147483648 \<Longrightarrow> x <s y \<longleftrightarrow> unat x < unat y" for x y :: u32
  by (simp only: word_sless_alt sint_small of_nat_less_iff)

lemma unat_offset: "unat b + n < 4294967296 \<Longrightarrow> unat (b + of_nat n) = unat b + n" for b :: u32
  by (simp add: unat_plus_if' unat_of_nat32)

lemma kernelSpacePreparing_fills:
  assumes "unat b + 4096 * n < 2147483648" "k < n"
  shows "kernelSpacePreparing (b + of_nat (4096 * n)) (b + of_nat (4096 * k)) (e + of_nat (4 * k)) m = Some (or_entries e b [k..<n] m)"
  using assms(2)
proof (induction "n - Suc k" arbitrary: k m)
  case 0
  then have "n = Suc k" by simp
  then show ?case
    by (subst kernelSpacePreparing.simps) (simp add: or_entries_def Let_def algebra_simps word_sless_alt)
next
  case (Suc j)
  let ?m = "m(e + of_nat (4 * k) := (m (e + of_nat (4 * k)) OR (b + of_nat (4096 * k))) OR 3)"
  have k: "Suc k < n" using Suc.hyps(2) by simp
  have step: "e + of_nat (4 * k) + 4 = e + of_nat (4 * Suc k)" "b + of_nat (4096 * k) + 4096 = b + of_nat (4096 * Suc k)" by simp_all
  have u: "unat (b + of_nat (4096 * Suc k)) = unat b + 4096 * Suc k" "unat (b + of_nat (4096 * n)) = unat b + 4096 * n"
    by (rule unat_offset; use assms(1) k in simp)+
  have "b + of_nat (4096 * Suc k) <s b + of_nat (4096 * n)"
  proof (subst sless_small)
    have "4096 * Suc k < 4096 * n" using k by simp
    then show "unat (b + of_nat (4096 * Suc k)) < 2147483648" "unat (b + of_nat (4096 * n)) < 2147483648"
      "unat (b + of_nat (4096 * Suc k)) < unat (b + of_nat (4096 * n))"
      unfolding u using assms(1) by linarith+
  qed
  then have "kernelSpacePreparing (b + of_nat (4096 * n)) (b + of_nat (4096 * k)) (e + of_nat (4 * k)) m =
      kernelSpacePreparing (b + of_nat (4096 * n)) (b + of_nat (4096 * Suc k)) (e + of_nat (4 * Suc k)) ?m"
    by (subst kernelSpacePreparing.simps) (simp only: Let_def step if_True fun_upd_same fun_upd_upd)
  also have "\<dots> = Some (or_entries e b [Suc k..<n] ?m)" using Suc.hyps k by (intro Suc.hyps(1)) simp_all
  also have "or_entries e b [Suc k..<n] ?m = or_entries e b [k..<n] m"
    using k by (simp add: or_entries_def upt_conv_Cons)
  finally show ?case .
qed

lemma kernelSpaceMapping_fills:
  "kernelSpaceMapping n (e + of_nat (4 * k)) (b + of_nat (4096 * k)) m = or_entries e b [k..<k + n] m"
proof (induction n arbitrary: k m)
  case (Suc n)
  have step: "e + of_nat (4 * k) + 4 = e + of_nat (4 * Suc k)" "b + of_nat (4096 * k) + 4096 = b + of_nat (4096 * Suc k)" by simp_all
  have "[k..<k + Suc n] = k # [Suc k..<Suc k + n]" by (simp add: upt_conv_Cons del: upt_Suc)
  then show ?case
    unfolding kernelSpaceMapping.simps Let_def step Suc.IH by (simp only: or_entries_def fold_simps fun_upd_same fun_upd_upd)
qed (simp add: or_entries_def)

text \<open>One entry of the result.\<close>

lemma or_entries_at:
  assumes "distinct is" "\<forall>i \<in> set is. i < 133120" "i < 133120"
  shows "or_entries e b is m (e + of_nat (4 * i)) =
    (if i \<in> set is then (m (e + of_nat (4 * i)) OR (b + of_nat (4096 * i))) OR 3 else m (e + of_nat (4 * i)))"
  using assms(1,2)
proof (induction "is" arbitrary: m)
  case (Cons j js)
  have "e + of_nat (4 * i) = e + of_nat (4 * j) \<longleftrightarrow> i = j"
    using Cons.prems(2) assms(3) by (simp add: of_nat32_inject del: of_nat_mult)
  then show ?case using Cons by (auto simp: or_entries_def simp del: of_nat_mult)
qed (simp add: or_entries_def)

lemma or_entries_outside:
  assumes "\<forall>i \<in> set is. a \<noteq> e + of_nat (4 * i)"
  shows "or_entries e b is m a = m a"
  using assms by (induction "is" arbitrary: m) (auto simp: or_entries_def)

section \<open>The address space the code sets up\<close>

text \<open>
  What the build gives: the image fits below the top of the address space, and the assembler keeps
  \<open>KernelPageTables\<close>, \<open>ZeroIdentityPage\<close> and \<open>TemporaryPageDirectory\<close> together in this order, on
  page boundaries.
\<close>

definition image_layout :: "linker \<Rightarrow> bool" where
  "image_layout L \<longleftrightarrow> 1 \<le> unat (KernelSizePages L) \<and> unat (KernelSizePages L) < KERNEL_PAGES \<and>
     unat (addr_KernelPageTables L) mod 4096 = 0 \<and> 0xE0000000 \<le> unat (addr_KernelPageTables L) \<and>
     addr_ZeroIdentityPage L = addr_KernelPageTables L + 0x80000 \<and>
     unat (addr_KernelPageTables L) + 0x82000 \<le> 0xE0000000 + 4096 * unat (KernelSizePages L)"

text \<open>The loader has put \<open>.data\<close> in its place.\<close>

definition tables_loaded :: "linker \<Rightarrow> 'z mm_state_scheme \<Rightarrow> bool" where
  "tables_loaded L s \<longleftrightarrow> (\<forall>i < KERNEL_PAGES. kpt L s i = KernelPageTables_data i) \<and>
     (\<forall>i < 1024. pmem s (TO_PHYSICAL (addr_ZeroIdentityPage L) + of_nat (4 * i)) = ZeroIdentityPage_data i) \<and>
     (\<forall>i < 1024. pmem s (TO_PHYSICAL (addr_TemporaryPageDirectory L) + of_nat (4 * i)) = TemporaryPageDirectory_data i)"

text \<open>The words of the three tables, numbered from the first.\<close>

definition table_word :: "linker \<Rightarrow> nat \<Rightarrow> u32" where
  "table_word L j = TO_PHYSICAL (addr_KernelPageTables L) + of_nat (4 * j)"

lemma unat_and_mask: "unat (x AND 0xFFF) = unat x mod 4096" "unat (x AND 1023) = unat x mod 1024" for x :: u32
proof -
  have "(0xFFF :: u32) = mask 12" "(1023 :: u32) = mask 10" by (simp_all add: mask_eq_exp_minus_1)
  then show "unat (x AND 0xFFF) = unat x mod 4096" "unat (x AND 1023) = unat x mod 1024"
    by (simp_all only: take_bit_eq_mask [symmetric] unsigned_take_bit_eq) (simp_all add: take_bit_eq_mod)
qed

lemma unat_drop: "unat (drop_bit n x) = unat x div 2 ^ n" for x :: u32
proof -
  have "unat (drop_bit n x) = drop_bit n (unat x)"
    using unsigned_less [of x, where ?'a = nat] by (simp add: unsigned_drop_bit_eq take_bit_nat_eq_self del: unsigned_less)
  then show ?thesis by (simp only: drop_bit_eq_div)
qed

lemma table_entry:
  fixes x :: u32
  assumes "unat x mod 4096 = 0"
  shows "Present (x OR 3)" "frame_of (x OR 3) = x" "frame_of x = x" "x AND 0xFFF = 0"
proof -
  show x: "x AND 0xFFF = 0" using assms unat_and_mask(1) [of x] by (simp add: unat_eq_0)
  have m: "(0xFFF :: u32) = mask 12" by (simp add: mask_eq_exp_minus_1)
  have low: "\<not> bit x n" if "n < 12" for n
  proof
    assume "bit x n"
    with that have "bit (x AND mask 12) n" by (simp add: bit_simps)
    with x m show False by simp
  qed
  have "bit (x OR mask 2) n \<and> 12 \<le> n \<longleftrightarrow> bit x n" if "n < 32" for n 
    using low [of n] that by (cases "n < 12") (auto simp: bit_simps)
  then have "frame_of (x OR mask 2) = x"
    unfolding frame_of_eq by (intro bit_word_eqI) (auto simp: bit_simps not_less)
  then show "frame_of (x OR 3) = x" by (simp add: mask_eq_exp_minus_1)
  show "frame_of x = x"
    unfolding frame_of_eq using low by (intro bit_word_eqI) (auto simp: bit_simps intro: ccontr)
  show "Present (x OR 3)" by (simp add: Present_def bit_simps)
qed

lemma table_word_inj: "i < 133120 \<Longrightarrow> j < 133120 \<Longrightarrow> table_word L i = table_word L j \<longleftrightarrow> i = j"
  by (simp add: table_word_def of_nat32_inject del: of_nat_mult)

lemma table_word_eqs:
  assumes "image_layout L"
  shows "kpt_addr L i = table_word L i" "TO_PHYSICAL (addr_KernelPageTables L) = table_word L 0"
    "TO_PHYSICAL (addr_ZeroIdentityPage L) = table_word L 131072" "TO_PHYSICAL (addr_TemporaryPageDirectory L) = table_word L 132096"
    "table_word L j + of_nat (4 * i) = table_word L (j + i)" "table_word L j + 4 * of_nat i = table_word L (j + i)"
  using assms by (simp_all add: kpt_addr_def table_word_def K_VIRT_TO_PHYS_def TO_PHYSICAL_def image_layout_def
      addr_TemporaryPageDirectory_def algebra_simps)

lemma unat_table_word:
  assumes "image_layout L" "j < 133120"
  shows "unat (table_word L j) = unat (addr_KernelPageTables L) - 0xE0000000 + 0x100000 + 4 * j"
proof -
  let ?a = "addr_KernelPageTables L"
  have a: "unat ?a < 4294967296" "0xE0000000 \<le> unat ?a" using assms(1) unsigned_less [of ?a, where ?'a = nat] by (simp_all add: image_layout_def)
  have d: "unat (?a - 0xE0000000) = unat ?a - 0xE0000000" using a(2) by (simp add: unat_sub_if')
  have "unat (?a - 0xE0000000) + (0x100000 + 4 * j) < 4294967296" unfolding d using a assms(2) by linarith
  note o = unat_offset [OF this]
  have "table_word L j = (?a - 0xE0000000) + of_nat (0x100000 + 4 * j)" by (simp add: table_word_def TO_PHYSICAL_def)
  also have "unat \<dots> = unat ?a - 0xE0000000 + (0x100000 + 4 * j)"
    by (simp only: o d)
  finally show ?thesis by simp
qed

text \<open>The tables after the code has run.\<close>

definition booted_tables :: "linker \<Rightarrow> (u32 \<Rightarrow> u32) \<Rightarrow> bool" where
  "booted_tables L m \<longleftrightarrow>
     (\<forall>j < 131072. m (table_word L j) = (if j < unat (KernelSizePages L) then (0x100000 + of_nat (4096 * j)) OR 3 else 0)) \<and>
     (\<forall>j < 1024. m (table_word L (131072 + j)) = of_nat (4096 * j) OR 3) \<and>
     (\<forall>j < 1024. m (table_word L (132096 + j)) =
        (if j = 0 then table_word L 131072 OR 3 else if 896 \<le> j then table_word L (1024 * (j - 896)) OR 3 else 0))"

lemma or_table_entries:
  assumes "distinct is" "\<forall>i \<in> set is. k + i < 133120" "j < 133120"
  shows "or_entries (table_word L k) b is m (table_word L j) =
    (if k \<le> j \<and> j - k \<in> set is then (m (table_word L j) OR (b + of_nat (4096 * (j - k)))) OR 3 else m (table_word L j))"
proof -
  have w: "table_word L k + of_nat (4 * i) = table_word L (k + i)" for i by (simp add: table_word_def algebra_simps)
  show ?thesis
  proof (cases "k \<le> j \<and> j - k \<in> set is")
    case True
    then have j: "table_word L j = table_word L k + of_nat (4 * (j - k))" using w [of "j - k"] by (simp del: of_nat_mult of_nat_diff)
    have "\<forall>i \<in> set is. i < 133120" using assms(2) by auto
    then show ?thesis unfolding j using True or_entries_at [OF assms(1), of "j - k" "table_word L k" b m] assms(3) by auto
  next
    case False
    have "table_word L j \<noteq> table_word L k + of_nat (4 * i)" if "i \<in> set is" for i
      unfolding w using False that assms(2,3) by (auto simp: table_word_inj)
    then have "or_entries (table_word L k) b is m (table_word L j) = m (table_word L j)" by (intro or_entries_outside) blast
    then show ?thesis by (simp only: if_not_P [OF False])
  qed
qed

text \<open>The code ends and leaves these tables.\<close>

lemma start_tables:
  assumes L: "image_layout L" and s: "tables_loaded L s" and size: "tagsize \<le>s 4096"
  shows "\<exists>m. start L MultibootTags df src tagsize ebx s =
      ret (s\<lparr>bmem := rep_movsb (unat tagsize) df src ebx MultibootTags (bmem s), pmem := m, cr3 := table_word L 132096,
        CurrentPageDirectory := addr_TemporaryPageDirectory L, CurrentPageDirectoryPhys := table_word L 132096\<rparr>) \<and>
    booted_tables L m"
proof -
  let ?n = "unat (KernelSizePages L)" and ?w = "table_word L"
  note w = table_word_eqs [OF L]
  have n: "1 \<le> ?n" "?n < 131072" using L by (simp_all add: image_layout_def KERNEL_PAGES_def)
  have "TO_PHYSICAL (KernelEnd L) = 0x100000 + of_nat (4096 * ?n)"
    by (simp add: TO_PHYSICAL_def KernelEnd_def KernelStart_def VirtualAddress_def)
  moreover have "TO_PHYSICAL KernelStart = 0x100000 + of_nat (4096 * 0)" by (simp add: TO_PHYSICAL_def KernelStart_def VirtualAddress_def)
  ultimately have "kernelSpacePreparing (TO_PHYSICAL (KernelEnd L)) (TO_PHYSICAL KernelStart) (TO_PHYSICAL (addr_KernelPageTables L)) (pmem s) =
      Some (or_entries (?w 0) 0x100000 [0..<?n] (pmem s))"
    using kernelSpacePreparing_fills [of "0x100000" ?n 0 "?w 0" "pmem s"] n w(2) by simp
  moreover define m1 where "m1 = or_entries (?w 0) 0x100000 [0..<?n] (pmem s)"
  define m2 where "m2 = m1(?w 132096 := m1 (?w 132096) OR ?w 131072)"
  define m3 where "m3 = or_entries (?w 132992) (?w 0) [0..<128] m2"
  have "kernelSpaceMapping 128 (?w 132096 + 4 * 896) (?w 0) m2 = m3"
    using kernelSpaceMapping_fills [of 128 "?w 132992" 0 "?w 0" m2] w(6) [of 132096 896] by (simp add: m3_def)
  ultimately have run: "start L MultibootTags df src tagsize ebx s =
      ret (s\<lparr>bmem := rep_movsb (unat tagsize) df src ebx MultibootTags (bmem s), pmem := m3, cr3 := ?w 132096,
        CurrentPageDirectory := addr_TemporaryPageDirectory L, CurrentPageDirectoryPhys := ?w 132096\<rparr>)"
    using size by (simp add: start_def Let_def m1_def [symmetric] m2_def [symmetric] w(2-4))
  have at: "m3 (?w j) = (if 132992 \<le> j \<and> j < 133120 then (m2 (?w j) OR ?w (1024 * (j - 132992))) OR 3 else m2 (?w j))" if "j < 133120" for j
  proof -
    have "?w 0 + of_nat (4096 * (j - 132992)) = ?w (1024 * (j - 132992))" by (simp add: table_word_def)
    then show ?thesis using or_table_entries [of "[0..<128]" 132992 j L "?w 0" m2] that by (auto simp: m3_def)
  qed
  have m2: "m2 (?w j) = (if j = 132096 then m1 (?w j) OR ?w 131072 else m1 (?w j))" if "j < 133120" for j
    using that by (simp add: m2_def table_word_inj)
  have m1: "m1 (?w j) = (if j < ?n then (pmem s (?w j) OR (0x100000 + of_nat (4096 * j))) OR 3 else pmem s (?w j))" if "j < 133120" for j
    using or_table_entries [of "[0..<?n]" 0 j L "0x100000" "pmem s"] n that by (simp add: m1_def)
  have old: "pmem s (?w j) = 0" if "j < 131072" for j
    using s that by (simp add: tables_loaded_def kpt_def KERNEL_PAGES_def w(1) KernelPageTables_data_def)
  have old2: "pmem s (?w (131072 + j)) = of_nat (4096 * j) OR 3" "pmem s (?w (132096 + j)) = (if j = 0 then 3 else 0)" if "j < 1024" for j
    using s that unfolding tables_loaded_def w(3,4,5) by (simp_all add: ZeroIdentityPage_data_def TemporaryPageDirectory_data_def)
  have "booted_tables L m3"
    unfolding booted_tables_def
  proof (intro conjI allI impI)
    show "m3 (?w j) = (if j < ?n then (0x100000 + of_nat (4096 * j)) OR 3 else 0)" if "j < 131072" for j
      using that by (simp add: at m2 m1 old)
    show "m3 (?w (131072 + j)) = of_nat (4096 * j) OR 3" if "j < 1024" for j
      using that n(2) by (simp add: at m2 m1 old2)
    show "m3 (?w (132096 + j)) = (if j = 0 then ?w 131072 OR 3 else if 896 \<le> j then ?w (1024 * (j - 896)) OR 3 else 0)" if "j < 1024" for j
      using that n(2) old2(2) [of j] old2(2) [of 0] by (simp add: at m2 m1 or.commute)
  qed
  with run show ?thesis by blast
qed

text \<open>What the processor then sees.\<close>

lemma booted_walk:
  assumes L: "image_layout L" and m: "booted_tables L m"
  shows "mmu_walk m (table_word L 132096) v =
    (if v < 0x400000 then Some v else if KernelStart \<le> v \<and> v < KernelEnd L then Some (TO_PHYSICAL v) else None)"
proof -
  let ?n = "unat (KernelSizePages L)" and ?w = "table_word L"
  define d where "d = unat v div 4194304"
  define t where "t = unat v div 4096 mod 1024"
  define r where "r = unat v mod 4096"
  have v: "unat v = 4194304 * d + 4096 * t + r" "d < 1024" "t < 1024" "r < 4096"
  proof -
    have "unat v < 4294967296" using unsigned_less [of v, where ?'a = nat] by simp
    then show "d < 1024" "t < 1024" by (simp_all add: d_def t_def less_mult_imp_div_less)
    have "unat v div 4096 div 1024 = d" by (simp add: d_def div_mult2_eq [symmetric])
    then show "unat v = 4194304 * d + 4096 * t + r" unfolding t_def r_def
      using div_mult_mod_eq [of "unat v" 4096] div_mult_mod_eq [of "unat v div 4096" 1024] by linarith
  qed (simp add: r_def)
  have n: "1 \<le> ?n" "?n < 131072" using L by (simp_all add: image_layout_def KERNEL_PAGES_def)
  have al: "unat (?w (1024 * k)) mod 4096 = 0" if "k \<le> 129" for k
  proof -
    have "4096 dvd unat (addr_KernelPageTables L)" using L by (simp add: image_layout_def mod_eq_0_iff_dvd)
    then obtain q where "unat (addr_KernelPageTables L) = 4096 * q" by (elim dvdE)
    then have "unat (?w (1024 * k)) = 4096 * (q - 917504 + 256 + k)" using that by (subst unat_table_word [OF L]) simp_all
    then show ?thesis by simp
  qed
  have idx: "drop_bit 22 v = of_nat d" "drop_bit 12 v AND 1023 = of_nat t"
    using v(2,3) by (simp_all add: word_unat_eq_iff unat_drop unat_and_mask unat_of_nat32 d_def t_def)
  have r: "v AND 0xFFF = of_nat r"
    by (simp add: word_unat_eq_iff unat_and_mask unat_of_nat32 r_def)
  have id: "of_nat (unat v) = v" by simp
  have vv: "v = of_nat (4194304 * d + 4096 * t + r)" by (rule arg_cong [OF v(1), of "of_nat :: nat \<Rightarrow> u32", unfolded id])
  have add: "?w j + 4 * of_nat i = ?w (j + i)" for i j by (simp add: table_word_def algebra_simps)
  let ?pde = "m (?w (132096 + d))"
  have walk: "mmu_walk m (?w 132096) v = (if \<not> Present ?pde then None
      else let pte = m (frame_of ?pde + 4 * of_nat t) in
        if \<not> Present pte then None else Some (frame_of pte + of_nat r))"
    using table_entry(3) [OF al [of 129]] by (simp add: mmu_walk_def Let_def idx r add)
  have pde: "?pde = (if d = 0 then ?w 131072 OR 3 else if 896 \<le> d then ?w (1024 * (d - 896)) OR 3 else 0)"
    using m v(2) by (simp add: booted_tables_def)
  have frame: "unat f mod 4096 = 0 \<Longrightarrow> Present (f OR 3) \<and> frame_of (f OR 3) = f" for f :: u32 by (intro conjI table_entry)
  consider "d = 0" | "1 \<le> d" "d < 896" | "896 \<le> d" by linarith
  then show ?thesis
  proof cases
    case 1
    have "unat (of_nat (4096 * t) :: u32) = 4096 * t" using v(3) by (subst unat_of_nat32) simp_all
    then have "frame_of (of_nat (4096 * t) OR 3) = of_nat (4096 * t)" "Present (of_nat (4096 * t) OR 3)" using frame [of "of_nat (4096 * t)"] by simp_all
    moreover have "m (?w (131072 + t)) = of_nat (4096 * t) OR 3" using m v(3) by (simp add: booted_tables_def)
    moreover have "v < 0x400000" using v(1,3,4) 1 by (simp add: word_less_nat_alt)
    moreover have "of_nat (4096 * t) + of_nat r = v" using vv 1 by simp
    ultimately show ?thesis using 1 frame [OF al [of 128]] unfolding walk pde by (simp add: Let_def add)
  next
    case 2
    then have "0x400000 \<le> unat v" "unat v < 0xE0000000" using v(1,3,4) by simp_all
    then show ?thesis using 2 unfolding walk pde by (auto simp: Present_def word_less_nat_alt word_le_nat_alt KernelStart_def VirtualAddress_def)
  next
    case 3
    define j where "j = 1024 * (d - 896) + t"
    have j: "j < 131072" "unat v = 0xE0000000 + 4096 * j + r" using 3 v by (auto simp: j_def)
    have e: "unat (KernelEnd L) = 0xE0000000 + 4096 * ?n"
      using n(2) unat_offset [of "0xE0000000" "4096 * ?n"] by (simp add: KernelEnd_def KernelStart_def VirtualAddress_def)
    have lt: "\<not> v < 0x400000" "KernelStart \<le> v" "v < KernelEnd L \<longleftrightarrow> j < ?n"
      using j(2) e by (simp_all add: word_less_nat_alt word_le_nat_alt KernelStart_def VirtualAddress_def) (use v(4) in linarith)
    have "unat (0x100000 + of_nat (4096 * j) :: u32) = 0x100000 + 4096 * j" using j(1) unat_offset [of "0x100000" "4096 * j"] by simp
    then have f: "frame_of ((0x100000 + of_nat (4096 * j)) OR 3) = 0x100000 + of_nat (4096 * j)" "Present ((0x100000 + of_nat (4096 * j)) OR 3)"
      using frame [of "0x100000 + of_nat (4096 * j)"] by simp_all
    have "v = of_nat (0xE0000000 + 4096 * j + r)" by (rule arg_cong [OF j(2), of "of_nat :: nat \<Rightarrow> u32", unfolded id])
    then have "v = 0xE0000000 + (of_nat (4096 * j) + of_nat r)" by (simp only: of_nat_add of_nat_numeral add.assoc)
    then have to: "TO_PHYSICAL v = 0x100000 + of_nat (4096 * j) + of_nat r"
      by (simp only: TO_PHYSICAL_def add_diff_cancel_left') (simp only: ac_simps)
    have "m (?w j) = (if j < ?n then (0x100000 + of_nat (4096 * j)) OR 3 else 0)" using m j(1) by (simp add: booted_tables_def)
    moreover have "frame_of (?w (1024 * (d - 896)) OR 3) + 4 * of_nat t = ?w j" "Present (?w (1024 * (d - 896)) OR 3)"
      using frame [OF al [of "d - 896"]] v(2) by (simp_all add: add j_def)
    ultimately show ?thesis using 3 lt f to unfolding walk pde by (simp add: Let_def Present_def [of 0])
  qed
qed

text \<open>What \<open>rep movsb\<close> copies, in either direction.\<close>

lemma unat_top: "unat (- 1 :: u32) = 4294967295"
proof -
  have "(- 1 :: u32) = 4294967295" by simp
  then show ?thesis by (simp only:) simp
qed

lemma rep_movsb_up:
  assumes "n < 4294967296"
  shows "rep_movsb n False src esi edi m a = (if unat (a - edi) < n then src (esi + (a - edi)) else m a)"
  using assms
proof (induction n arbitrary: esi edi m)
  case (Suc n)
  have e: "a - (edi + 1) = (a - edi) - 1" "esi + 1 + (a - edi - 1) = esi + (a - edi)" by (simp_all add: algebra_simps)
  show ?case
  proof (cases "a = edi")
    case True
    with Suc show ?thesis by (simp add: Let_def unat_top)
  next
    case False
    then have "a - edi \<noteq> 0" by simp
    then have "unat (a - edi - 1) = unat (a - edi) - 1" "unat (a - edi) \<noteq> 0" by (simp_all add: unat_minus_one unat_eq_0 del: right_minus_eq eq_iff_diff_eq_0)
    with False Suc show ?thesis by (simp add: Let_def e) linarith
  qed
qed simp

lemma rep_movsb_down:
  assumes "n < 4294967296"
  shows "rep_movsb n True src esi edi m a = (if unat (edi - a) < n then src (esi - (edi - a)) else m a)"
  using assms
proof (induction n arbitrary: esi edi m)
  case (Suc n)
  have e: "edi - 1 - a = (edi - a) - 1" "esi - 1 - (edi - a - 1) = esi - (edi - a)" by (simp_all add: algebra_simps)
  show ?case
  proof (cases "a = edi")
    case True
    with Suc show ?thesis by (simp add: Let_def unat_top)
  next
    case False
    then have "edi - a \<noteq> 0" by simp
    then have "unat (edi - a - 1) = unat (edi - a) - 1" "unat (edi - a) \<noteq> 0" by (simp_all add: unat_minus_one unat_eq_0 del: right_minus_eq eq_iff_diff_eq_0)
    with False Suc show ?thesis by (simp add: Let_def e) linarith
  qed
qed simp

lemma accepted_size: "tagsize \<le>s 4096 \<longleftrightarrow> unat tagsize \<le> 4096 \<or> 2147483648 \<le> unat tagsize" for tagsize :: u32
proof -
  have c: "sint (4096 :: u32) = 4096" by simp
  show ?thesis
  proof (cases "unat tagsize < 2147483648")
    case True
    then show ?thesis unfolding word_sle_eq c sint_small [OF True] by linarith
  next
    case False
    then have "unat (drop_bit 31 tagsize) = 1"
      using unsigned_less [of tagsize, where ?'a = nat] by (simp add: unat_drop)
    then have "drop_bit 31 tagsize = 1" by (simp add: word_unat_eq_iff)
    then have "bit tagsize 31" by (simp add: bit_iff_odd_drop_bit)
    then have "sint tagsize < 0" using bit_last_iff [of tagsize] by simp
    then show ?thesis using False unfolding word_sle_eq c by linarith
  qed
qed

lemma kpt_booted:
  assumes "image_layout L" "booted_tables L (pmem s)" "j < KERNEL_PAGES"
  shows "kernel_present L s j \<longleftrightarrow> j < unat (KernelSizePages L)"
proof -
  have "kpt L s j = (if j < unat (KernelSizePages L) then (0x100000 + of_nat (4096 * j)) OR 3 else 0)"
    using assms by (simp add: kpt_def table_word_eqs booted_tables_def KERNEL_PAGES_def)
  then show ?thesis by (simp add: Present_def bit_simps)
qed

section \<open>Properties\<close>


text \<open>An image and a loader to show it on.\<close>

definition loaded_tables :: "linker \<Rightarrow> u32 \<Rightarrow> u32" where
  "loaded_tables L a = (let j = unat (a - table_word L 0) div 4 in
     if j < 131072 then KernelPageTables_data j
     else if j < 132096 then ZeroIdentityPage_data (j - 131072) else TemporaryPageDirectory_data (j - 132096))"

lemma loaded_table_word: "j < 133120 \<Longrightarrow> loaded_tables L (table_word L j) =
    (if j < 131072 then KernelPageTables_data j
     else if j < 132096 then ZeroIdentityPage_data (j - 131072) else TemporaryPageDirectory_data (j - 132096))"
  using unat_of_nat32 [of "4 * j"] by (simp add: loaded_tables_def table_word_def Let_def)

lemma sample_layout: "image_layout sample_image"
  by (simp add: image_layout_def KERNEL_PAGES_def)

lemma loaded_tables_ok:
  assumes "image_layout L" "pmem s = loaded_tables L"
  shows "tables_loaded L s"
  unfolding tables_loaded_def kpt_def assms(2) table_word_eqs(1,3-5) [OF assms(1)] KERNEL_PAGES_def
  by (simp add: loaded_table_word)




end
