(* ===== verification/Segments.thy ===== *)
theory Segments
  imports Interrupts
begin

unbundle bit_operations_syntax

text \<open>
  Segmentation (\<open>kernel/src/CPU/GDT.asm\<close>): the descriptor table with the segments that the interrupt
  gates and the threads' registers select, and the task state segment, from which the processor
  takes the stack of an interrupt in user code and the map of the ports user code may use. Both are
  memory images, as the assembler lays them out; what the processor reads in them is written out
  beside.
\<close>

section \<open>The table and the task state segment\<close>

definition db :: "u32 \<Rightarrow> u8 list" where "db x = [ucast x]"
definition dw :: "u32 \<Rightarrow> u8 list" where "dw x = [ucast x, ucast (drop_bit 8 x)]"

definition GDT_ENTRY :: "u32 \<Rightarrow> u32 \<Rightarrow> u32 \<Rightarrow> u32 \<Rightarrow> u8 list" where
  "GDT_ENTRY base limit access flags =
     dw (limit AND 0xFFFF) @ dw (base AND 0xFFFF) @ db (drop_bit 16 base AND 0xFF) @ db access @
     db ((drop_bit 16 limit AND 0x0F) OR (flags AND 0xF0)) @ db (drop_bit 24 base AND 0xFF)"

definition GDT_ENTRY_FULL_SPAN :: "u32 \<Rightarrow> u8 list" where
  "GDT_ENTRY_FULL_SPAN access = GDT_ENTRY 0 0x000FFFFF access 0xC0"

definition GdtTable_data :: "u8 list" where
  "GdtTable_data = replicate 8 0 @ GDT_ENTRY_FULL_SPAN 0x9A @ GDT_ENTRY_FULL_SPAN 0x92 @
     GDT_ENTRY_FULL_SPAN 0xFA @ GDT_ENTRY_FULL_SPAN 0xF2 @ GDT_ENTRY 0 104 0xE9 0x40"

text \<open>The task state segment as double words: \<open>.esp\<close> is the second, \<open>.iomapBase\<close> the last.\<close>

definition TSS_data :: "u32 list" where
  "TSS_data = [0, 0, 0x10] @ replicate 91 0 @ [push_bit 16 104]"

definition GdtTss :: u16 where "GdtTss = 0x28"

record segment_state =
  GdtTable :: "u8 list"
  TSS :: "u32 list"
  gdtr :: "ptr \<times> u16"        \<comment> \<open>\<open>GdtPointer\<close>: base and limit\<close>
  seg_cs :: u16
  data_segments :: "u16 list"    \<comment> \<open>\<open>ds\<close>, \<open>ss\<close>, \<open>es\<close>, \<open>fs\<close>, \<open>gs\<close>\<close>
  task_register :: u16

definition TssSetEsp :: "ptr \<Rightarrow> segment_state \<Rightarrow> segment_state" where
  "TssSetEsp newEsp s = s\<lparr>TSS := (TSS s)[1 := newEsp]\<rparr>"

text \<open>\<open>ltr\<close> loads the task register and marks the descriptor busy.\<close>

definition ltr :: "u16 \<Rightarrow> segment_state \<Rightarrow> segment_state" where
  "ltr sel s = (let k = 8 * (unat sel div 8) + 5 in
     s\<lparr>task_register := sel, GdtTable := (GdtTable s)[k := GdtTable s ! k OR 2]\<rparr>)"

definition GdtInit :: "ptr \<Rightarrow> ptr \<Rightarrow> ptr \<Rightarrow> segment_state \<Rightarrow> segment_state" where
  "GdtInit addr_GdtTable addr_TSS StackTop s =
     (let s = s\<lparr>gdtr := (addr_GdtTable, of_nat (length (GdtTable s)))\<rparr>;
          s = s\<lparr>data_segments := [0x10, 0x10, 0x10, 0x10, 0x10]\<rparr>;
          s = s\<lparr>seg_cs := 0x08\<rparr>;
          ecx = addr_TSS;
          s = s\<lparr>GdtTable := (GdtTable s)[40 + 2 := ucast ecx, 40 + 3 := ucast (drop_bit 8 ecx)]\<rparr>;
          ecx = drop_bit 16 ecx;
          s = s\<lparr>GdtTable := (GdtTable s)[40 + 4 := ucast ecx, 40 + 7 := ucast (drop_bit 8 ecx)]\<rparr>;
          s = TssSetEsp StackTop s
      in ltr 0x28 s)"

section \<open>What the processor reads\<close>

text \<open>The eight bytes of the descriptor that a selector names, and their fields.\<close>

definition descriptor :: "u8 list \<Rightarrow> u16 \<Rightarrow> u8 list" where
  "descriptor table sel = take 8 (drop (8 * (unat sel div 8)) table)"

definition d_base :: "u8 list \<Rightarrow> u32" where
  "d_base d = ucast (d ! 2) OR push_bit 8 (ucast (d ! 3)) OR push_bit 16 (ucast (d ! 4)) OR push_bit 24 (ucast (d ! 7))"

definition d_limit :: "u8 list \<Rightarrow> u32" where
  "d_limit d = (let l = ucast (d ! 0) OR push_bit 8 (ucast (d ! 1)) OR push_bit 16 (ucast (d ! 6 AND 0xF))
     in if bit (d ! 6) 7 then push_bit 12 l OR 0xFFF else l)"

definition d_type :: "u8 list \<Rightarrow> u8" where "d_type d = d ! 5 AND 0x1F"
definition d_dpl :: "u8 list \<Rightarrow> u8" where "d_dpl d = drop_bit 5 (d ! 5) AND 3"
definition d_present :: "u8 list \<Rightarrow> bool" where "d_present d = bit (d ! 5) 7"
definition d_32bit :: "u8 list \<Rightarrow> bool" where "d_32bit d = bit (d ! 6) 6"

lemmas d_defs = d_base_def d_limit_def d_type_def d_dpl_def d_present_def d_32bit_def

text \<open>A segment over all of memory of a privilege level: type \<open>0x1A\<close> is readable code, \<open>0x12\<close> writable data.\<close>

definition flat :: "u8 \<Rightarrow> u8 \<Rightarrow> u8 list \<Rightarrow> bool" where
  "flat type level d \<longleftrightarrow> d_present d \<and> d_base d = 0 \<and> d_limit d = 0xFFFFFFFF \<and> d_32bit d \<and> d_type d = type \<and> d_dpl d = level"

text \<open>A byte of the task state segment, and whether code with no other right may access a port of
  one byte: the map must have two bytes for it below the limit, and its bit must be clear.\<close>

definition tss_byte :: "u32 list \<Rightarrow> nat \<Rightarrow> u8" where
  "tss_byte T k = ucast (drop_bit (8 * (k mod 4)) (T ! (k div 4)))"

definition io_map_base :: "u32 list \<Rightarrow> nat" where
  "io_map_base T = unat (tss_byte T 102) + 256 * unat (tss_byte T 103)"

definition port_allowed :: "u32 list \<Rightarrow> u32 \<Rightarrow> u16 \<Rightarrow> bool" where
  "port_allowed T limit port = (let k = io_map_base T + unat port div 8 in
     k + 1 \<le> unat limit \<and> \<not> bit (tss_byte T k) (unat port mod 8))"

section \<open>Properties\<close>

definition segments_at_boot :: segment_state where
  "segments_at_boot = \<lparr>GdtTable = GdtTable_data, TSS = TSS_data, gdtr = (0, 0), seg_cs = 0, data_segments = [], task_register = 0\<rparr>"

lemma table_data: "GdtTable_data = [0, 0, 0, 0, 0, 0, 0, 0,
    0xFF, 0xFF, 0, 0, 0, 0x9A, 0xCF, 0,  0xFF, 0xFF, 0, 0, 0, 0x92, 0xCF, 0,
    0xFF, 0xFF, 0, 0, 0, 0xFA, 0xCF, 0,  0xFF, 0xFF, 0, 0, 0, 0xF2, 0xCF, 0,
    104, 0, 0, 0, 0, 0xE9, 0x40, 0]"
  by code_simp

lemma GdtInit_table: "GdtTable (GdtInit g t k segments_at_boot) = [0, 0, 0, 0, 0, 0, 0, 0,
    0xFF, 0xFF, 0, 0, 0, 0x9A, 0xCF, 0,  0xFF, 0xFF, 0, 0, 0, 0x92, 0xCF, 0,
    0xFF, 0xFF, 0, 0, 0, 0xFA, 0xCF, 0,  0xFF, 0xFF, 0, 0, 0, 0xF2, 0xCF, 0,
    104, 0, ucast t, ucast (drop_bit 8 t), ucast (drop_bit 16 t), 0xEB, 0x40, ucast (drop_bit 24 t)]"
  by (simp add: GdtInit_def segments_at_boot_def table_data TssSetEsp_def ltr_def Let_def)

lemma TSS_after: "TSS (GdtInit g t k segments_at_boot) = [0, k, 0x10] @ replicate 91 0 @ [push_bit 16 104]"
  by (simp add: GdtInit_def segments_at_boot_def TSS_data_def TssSetEsp_def ltr_def Let_def)

lemma base_bytes:
  fixes t :: u32
  shows "ucast (ucast t :: u8) OR push_bit 8 (ucast (ucast (drop_bit 8 t) :: u8)) OR push_bit 16 (ucast (ucast (drop_bit 16 t) :: u8)) OR
    push_bit 24 (ucast (ucast (drop_bit 24 t) :: u8)) = t" (is "?l = t")
proof (rule bit_word_eqI)
  fix n assume "n < LENGTH(32)"
  then have n: "n < 32" by simp
  have byte: "bit (push_bit j (ucast (ucast (drop_bit j t) :: u8)) :: u32) n \<longleftrightarrow> j \<le> n \<and> n < j + 8 \<and> bit t n" for j
    using n by (cases "j \<le> n") (auto simp: bit_push_bit_iff bit_ucast_iff bit_drop_bit_eq)
  have low: "bit (ucast (ucast t :: u8) :: u32) n \<longleftrightarrow> n < 8 \<and> bit t n" using byte [of 0] by simp
  have "n < 8 \<or> 8 \<le> n \<and> n < 16 \<or> 16 \<le> n \<and> n < 24 \<or> 24 \<le> n" by linarith
  then show "bit ?l n = bit t n"
    unfolding bit_or_iff byte low using n by auto
qed

text \<open>
  C33. The segments the kernel relies on. After \<open>GdtInit\<close> the selector of every interrupt gate and
  of kernel threads names readable code of ring 0 over all of memory, \<open>GdtKernelData\<close> writable data
  over all of memory, and \<open>GdtUserCode + 3\<close> and \<open>GdtUserData + 3\<close>, which user threads get, the same for
  ring 3; they are the segments then in use. The task register holds the busy segment at \<open>TSS\<close>, with
  \<open>StackTop\<close> for the stack of interrupts; its descriptor is open to ring 3.
\<close>

theorem GdtInit_segments_are_flat:
  "let s = GdtInit addr_GdtTable addr_TSS StackTop segments_at_boot; d = \<lambda>sel :: u32. descriptor (GdtTable s) (ucast sel) in
     flat 0x1A 0 (d GdtKernelCode) \<and> flat 0x12 0 (d GdtKernelData) \<and>
     flat 0x1A 3 (d (GdtUserCode + 3)) \<and> flat 0x12 3 (d (GdtUserData + 3)) \<and>
     seg_cs s = ucast GdtKernelCode \<and> set (data_segments s) = {ucast GdtKernelData} \<and> gdtr s = (addr_GdtTable, 48) \<and>
     task_register s = GdtTss \<and> d_present (descriptor (GdtTable s) GdtTss) \<and> d_type (descriptor (GdtTable s) GdtTss) = 0x0B \<and>
     d_base (descriptor (GdtTable s) GdtTss) = addr_TSS \<and> d_limit (descriptor (GdtTable s) GdtTss) = 104 \<and>
     d_dpl (descriptor (GdtTable s) GdtTss) = 3 \<and> TSS s ! 1 = StackTop \<and> TSS s ! 2 = GdtKernelData"
proof -
  let ?s = "GdtInit addr_GdtTable addr_TSS StackTop segments_at_boot"
  have flat: "flat 0x1A 0 [0xFF, 0xFF, 0, 0, 0, 0x9A, 0xCF, 0]" "flat 0x12 0 [0xFF, 0xFF, 0, 0, 0, 0x92, 0xCF, 0]"
    "flat 0x1A 3 [0xFF, 0xFF, 0, 0, 0, 0xFA, 0xCF, 0]" "flat 0x12 3 [0xFF, 0xFF, 0, 0, 0, 0xF2, 0xCF, 0]"
    by code_simp+
  have d: "descriptor (GdtTable ?s) (ucast GdtKernelCode) = [0xFF, 0xFF, 0, 0, 0, 0x9A, 0xCF, 0]"
    "descriptor (GdtTable ?s) (ucast GdtKernelData) = [0xFF, 0xFF, 0, 0, 0, 0x92, 0xCF, 0]"
    "descriptor (GdtTable ?s) (ucast (GdtUserCode + 3)) = [0xFF, 0xFF, 0, 0, 0, 0xFA, 0xCF, 0]"
    "descriptor (GdtTable ?s) (ucast (GdtUserData + 3)) = [0xFF, 0xFF, 0, 0, 0, 0xF2, 0xCF, 0]"
    "descriptor (GdtTable ?s) GdtTss = [104, 0, ucast addr_TSS, ucast (drop_bit 8 addr_TSS), ucast (drop_bit 16 addr_TSS), 0xEB, 0x40,
       ucast (drop_bit 24 addr_TSS)]"
    by (simp_all add: descriptor_def GdtInit_table GdtKernelCode_def GdtKernelData_def GdtUserCode_def GdtUserData_def GdtTss_def)
  have regs: "seg_cs ?s = ucast GdtKernelCode" "set (data_segments ?s) = {ucast GdtKernelData}" "gdtr ?s = (addr_GdtTable, 48)"
    "task_register ?s = GdtTss" "TSS ?s ! 1 = StackTop" "TSS ?s ! 2 = GdtKernelData"
    by (simp_all add: TSS_after GdtKernelCode_def GdtKernelData_def GdtTss_def) 
      (simp_all add: GdtInit_def segments_at_boot_def table_data TssSetEsp_def ltr_def Let_def)
  show ?thesis unfolding Let_def d
    using flat regs base_bytes [of addr_TSS] by (simp add: d_defs)
qed

lemma tss_bytes:
  assumes "k < 376"
  shows "tss_byte ([0, e, 0x10] @ replicate 91 0 @ [push_bit 16 104]) k =
    (if k div 4 = 1 then ucast (drop_bit (8 * (k mod 4)) e) else if k = 8 then 0x10 else 0)"
proof -
  have "([0, e, 0x10] @ replicate 91 0 @ [push_bit 16 104]) ! i = (if i = 1 then e else if i = 2 then 0x10 else 0 :: u32)" if "i < 94" for i
    using that by (auto simp: nth_append nth_Cons')
  moreover have "k div 4 < 94" using assms by simp
  moreover have "ucast (drop_bit (8 * (k mod 4)) (0x10 :: u32)) = (if k mod 4 = 0 then 0x10 else 0 :: u8)"
  proof -
    have "k mod 4 \<in> {0, 1, 2, 3}" by auto
    then show ?thesis by auto
  qed
  ultimately show ?thesis unfolding tss_byte_def by auto
qed

text \<open>
  C34. User code may program the devices. The map of ports is meant to be past the end of the task
  state segment, which would deny user code every port. But \<open>.iomapBase\<close> is not where the processor
  reads it, so the map is the segment itself, nearly all zeros: user code may access every port
  below 832 but port 68 and those among 32 to 63 whose bit is set in the address of the stack. As
  that is page aligned, both interrupt controllers, the timer and the keyboard are open to it.
\<close>

theorem user_code_may_program_devices:
  assumes "unat StackTop mod 4096 = 0"
  shows "let s = GdtInit addr_GdtTable addr_TSS StackTop segments_at_boot;
      allowed = port_allowed (TSS s) (d_limit (descriptor (GdtTable s) (task_register s))) in
    (\<forall>port. allowed port \<longleftrightarrow> port < 832 \<and> port \<noteq> 68 \<and> \<not> (32 \<le> port \<and> port < 64 \<and> bit StackTop (unat port - 32))) \<and>
    allowed 0x20 \<and> allowed 0x21 \<and> allowed 0xA0 \<and> allowed 0xA1 \<and> allowed 0x40 \<and> allowed 0x43 \<and> allowed 0x60 \<and> allowed 0x64"
proof -
  let ?s = "GdtInit addr_GdtTable addr_TSS StackTop segments_at_boot"
  let ?allowed = "port_allowed (TSS ?s) (d_limit (descriptor (GdtTable ?s) (task_register ?s)))"
  have t: "task_register ?s = 0x28" by (simp add: GdtInit_def segments_at_boot_def TssSetEsp_def ltr_def Let_def)
  have limit: "d_limit (descriptor (GdtTable ?s) (task_register ?s)) = 104"
    by (simp add: t descriptor_def GdtInit_table d_limit_def)
  have base: "io_map_base (TSS ?s) = 0"
    using tss_bytes [of 102 StackTop] tss_bytes [of 103 StackTop] unfolding io_map_base_def TSS_after by (simp only:) simp
  have bit4: "bit (0x10 :: int) r \<longleftrightarrow> r = 4" for r using bit_exp_int [of 4 r] by simp
  have all: "?allowed port \<longleftrightarrow> port < 832 \<and> port \<noteq> 68 \<and> \<not> (32 \<le> port \<and> port < 64 \<and> bit StackTop (unat port - 32))" for port
  proof (cases "port < 832")
    case True
    define k r where "k = unat port div 8" and "r = unat port mod 8"
    have p: "unat port = 8 * k + r" "r < 8" by (simp_all add: k_def r_def)
    then have k: "k < 104" using True by (simp add: word_less_nat_alt)
    have "?allowed port \<longleftrightarrow> \<not> bit (tss_byte (TSS ?s) k) r"
      using k unfolding limit port_allowed_def base Let_def by (simp add: k_def r_def)
    moreover have "tss_byte (TSS ?s) k = (if k div 4 = 1 then ucast (drop_bit (8 * (k mod 4)) StackTop) else if k = 8 then 0x10 else 0)"
      unfolding TSS_after using k by (intro tss_bytes) simp
    moreover have "32 \<le> port \<and> port < 64 \<longleftrightarrow> k div 4 = 1" using p by (auto simp: word_le_nat_alt word_less_nat_alt)
    moreover have "bit (ucast (drop_bit (8 * (k mod 4)) StackTop) :: u8) r \<longleftrightarrow> bit StackTop (unat port - 32)" if "k div 4 = 1"
    proof -
      have "8 * (k mod 4) + r = unat port - 32" using p that by presburger
      then show ?thesis using p(2) by (simp add: bit_ucast_iff bit_drop_bit_eq comp_def)
    qed
    moreover have "port = 68 \<longleftrightarrow> k = 8 \<and> r = 4"
    proof -
      have "port = 68 \<longleftrightarrow> 8 * k + r = 68" by (simp add: word_unat_eq_iff p(1))
      then show ?thesis using p(2) by presburger
    qed
    ultimately show ?thesis using True by (auto simp: bit4)
  next
    case False
    then have "104 \<le> unat port div 8" by (simp add: word_less_nat_alt)
    then show ?thesis using False unfolding limit port_allowed_def base Let_def by simp
  qed
  have "\<not> bit StackTop n" if "n < 12" for n
  proof -
    have "\<not> bit (take_bit 12 (unat StackTop)) n" using assms by (simp add: take_bit_eq_mod)
    then have "\<not> bit (unat StackTop) n" using that by (simp add: bit_take_bit_iff)
    then show ?thesis using that by (simp add: bit_unsigned_iff)
  qed
  then have "?allowed 0x20 \<and> ?allowed 0x21 \<and> ?allowed 0xA0 \<and> ?allowed 0xA1 \<and> ?allowed 0x40 \<and> ?allowed 0x43 \<and> ?allowed 0x60 \<and> ?allowed 0x64"
    unfolding all by simp
  then show ?thesis unfolding Let_def using all by blast
qed

theorem user_code_may_program_devices_witness:
  "let s = GdtInit 0xE0008000 0xE0008100 0xE00F0000 segments_at_boot in
    port_allowed (TSS s) (d_limit (descriptor (GdtTable s) (task_register s))) 0x20"
  using user_code_may_program_devices [of "0xE00F0000" "0xE0008000" "0xE0008100"] by (simp add: Let_def)

end
