(* ===== verification/EntryCode.thy ===== *)
theory EntryCode
  imports Segments
begin

unbundle bit_operations_syntax

text \<open>
  The way into and out of an interrupt handler (\<open>kernel/src/CPU/IDTAsm.asm\<close>): the entry stubs as lists
  of instructions, what the processor does before and after them, and the frame that the C code
  is given. The stack is a map from addresses to the double words stored there; everything here
  keeps its alignment. Arithmetic flags are left out: the last instruction reloads them.
\<close>

section \<open>The processor\<close>

record processor =
  r_eax :: u32
  r_ecx :: u32
  r_edx :: u32
  r_ebx :: u32
  r_esp :: u32
  r_ebp :: u32
  r_esi :: u32
  r_edi :: u32
  r_eip :: u32
  r_eflags :: u32
  r_cs :: u16
  r_ss :: u16
  r_ds :: u16
  r_es :: u16
  r_fs :: u16
  r_gs :: u16
  stack :: "ptr \<Rightarrow> u32"

definition rpl :: "u16 \<Rightarrow> u16" where "rpl sel = sel AND 3"

definition push :: "u32 \<Rightarrow> processor \<Rightarrow> processor" where
  "push v c = c\<lparr>r_esp := r_esp c - 4, stack := (stack c)(r_esp c - 4 := v)\<rparr>"

text \<open>\<open>top k c\<close> is the double word \<open>k\<close> places above the top of the stack; \<open>drop_words k\<close> leaves \<open>k\<close> behind.\<close>

definition top :: "u32 \<Rightarrow> processor \<Rightarrow> u32" where "top k c = stack c (r_esp c + 4 * k)"
definition drop_words :: "u32 \<Rightarrow> processor \<Rightarrow> processor" where "drop_words k c = c\<lparr>r_esp := r_esp c + 4 * k\<rparr>"

text \<open>
  An interrupt through an interrupt gate into ring 0. From ring 0 the handler uses the stack of what
  it interrupts; from a less privileged ring the processor first takes the stack of the task state
  segment (given by its selector and pointer) and stores the old one on it. Trap, nested task,
  resume, virtual-8086 and interrupt flags are cleared.
\<close>

definition deliver :: "u16 \<times> ptr \<Rightarrow> u64 \<Rightarrow> u32 option \<Rightarrow> processor \<Rightarrow> processor" where
  "deliver tss_stack e err c =
     (let c1 = (if rpl (r_cs c) = 0 then c
          else push (r_esp c) (push (ucast (r_ss c)) (c\<lparr>r_ss := fst tss_stack, r_esp := snd tss_stack\<rparr>)));
          c1 = push (r_eip c) (push (ucast (r_cs c)) (push (r_eflags c) c1));
          c1 = (case err of None \<Rightarrow> c1 | Some v \<Rightarrow> push v c1)
      in c1\<lparr>r_cs := gate_selector e, r_eip := gate_offset e, r_eflags := r_eflags c AND NOT 0x34300\<rparr>)"

text \<open>
  The return. Code of a less privileged ring gets its stack back, and loses the data segments it may
  not use; \<open>dpl\<close> gives the privilege of the segment that a selector names.
\<close>

definition iret :: "(u16 \<Rightarrow> u8) \<Rightarrow> processor \<Rightarrow> processor" where
  "iret dpl c =
     (let cs = ucast (top 1 c) :: u16; c1 = drop_words 3 (c\<lparr>r_eip := top 0 c, r_cs := cs, r_eflags := top 2 c\<rparr>);
          keep = (\<lambda>sel. if dpl sel < ucast (rpl cs) then 0 else sel) in
      if rpl cs = 0 then c1
      else c1\<lparr>r_esp := top 0 c1, r_ss := ucast (top 1 c1),
        r_ds := keep (r_ds c), r_es := keep (r_es c), r_fs := keep (r_fs c), r_gs := keep (r_gs c)\<rparr>)"

section \<open>The entry code\<close>

datatype segment = ds | es | fs | gs

datatype instruction = Push u32 | Pushad | PushSegment segment | PushEsp | CallIdtGlobalIntHandler | MovEspEax
  | PopSegment segment | Popad | AddEsp u32 | Iret

text \<open>The stubs end in a jump to \<open>IntCommon\<close>; here its instructions follow.\<close>

definition IntCommon :: "instruction list" where
  "IntCommon = [Pushad, PushSegment ds, PushSegment es, PushSegment fs, PushSegment gs,
     PushEsp, CallIdtGlobalIntHandler, MovEspEax,
     PopSegment gs, PopSegment fs, PopSegment es, PopSegment ds, Popad, AddEsp 8, Iret]"

definition InterruptHandler :: "u8 \<Rightarrow> u8 \<times> instruction list" where
  "InterruptHandler n = (n, [Push 0, Push (ucast n)] @ IntCommon)"

definition ExceptionHandler :: "u8 \<Rightarrow> u8 \<times> instruction list" where
  "ExceptionHandler n = (n, [Push (ucast n)] @ IntCommon)"

definition IntDefault :: "instruction list" where "IntDefault = [Iret]"

definition entry_table :: "(u8 \<times> instruction list) list" where
  "entry_table =
     [InterruptHandler 0x00, InterruptHandler 0x01, InterruptHandler 0x02, InterruptHandler 0x03,
      InterruptHandler 0x04, InterruptHandler 0x05, InterruptHandler 0x06, InterruptHandler 0x07,
      ExceptionHandler 0x08, InterruptHandler 0x0A, ExceptionHandler 0x0B, ExceptionHandler 0x0C,
      ExceptionHandler 0x0D, ExceptionHandler 0x0E, InterruptHandler 0x10, ExceptionHandler 0x11,
      InterruptHandler 0x12, InterruptHandler 0x13, InterruptHandler 0x14, ExceptionHandler 0x1E] @
     map InterruptHandler [0x20, 0x21, 0x22, 0x23, 0x24, 0x25, 0x26, 0x27,
      0x28, 0x29, 0x2A, 0x2B, 0x2C, 0x2D, 0x2E, 0x2F, 0x83]"

text \<open>\<open>IdtLoad\<close> gives the processor the table and its limit, the offset of the last byte of it; it is one too large.\<close>

definition IdtLoad :: "ptr \<Rightarrow> ptr \<times> u16" where
  "IdtLoad addr_IdtTable = (addr_IdtTable, 256 * 8)"

lemma every_gate_within_the_limit: "8 * unat (n :: u8) + 7 < unat (snd (IdtLoad p))"
proof -
  have "unat n < 256" using unsigned_less [of n, where 'a = nat] by simp
  then show ?thesis by (simp add: IdtLoad_def)
qed

text \<open>The frame as it lies in memory, in the order of the fields of \<open>IdtFrame\<close>.\<close>

definition frame_at :: "(ptr \<Rightarrow> u32) \<Rightarrow> ptr \<Rightarrow> IdtFrame" where
  "frame_at m p = \<lparr>Gs = m p, Fs = m (p + 4), Es = m (p + 8), Ds = m (p + 12), Edi = m (p + 16), Esi = m (p + 20),
     Ebp = m (p + 24), unused = m (p + 28), Ebx = m (p + 32), Edx = m (p + 36), Ecx = m (p + 40), Eax = m (p + 44),
     InterruptNumber = m (p + 48), ErrorCode = m (p + 52), Eip = m (p + 56), Cs = m (p + 60), Eflags = m (p + 64),
     UserEsp = m (p + 68), Ss = m (p + 72)\<rparr>"

definition put_frame :: "ptr \<Rightarrow> IdtFrame \<Rightarrow> (ptr \<Rightarrow> u32) \<Rightarrow> (ptr \<Rightarrow> u32)" where
  "put_frame p f m = m(p := Gs f, p + 4 := Fs f, p + 8 := Es f, p + 12 := Ds f, p + 16 := Edi f, p + 20 := Esi f,
     p + 24 := Ebp f, p + 28 := unused f, p + 32 := Ebx f, p + 36 := Edx f, p + 40 := Ecx f, p + 44 := Eax f,
     p + 48 := InterruptNumber f, p + 52 := ErrorCode f, p + 56 := Eip f, p + 60 := Cs f, p + 64 := Eflags f,
     p + 68 := UserEsp f, p + 72 := Ss f)"

text \<open>
  What an instruction does to the processor and the state \<open>k\<close> of the kernel, with \<open>H\<close> for the C code.
  That code is given the address of the frame and returns it; it keeps \<open>ebx\<close>, \<open>esi\<close>, \<open>edi\<close>, \<open>ebp\<close> and
  \<open>esp\<close>, and \<open>junk\<close> is what it leaves in \<open>ecx\<close> and \<open>edx\<close>. If it hangs, the code here does not go on.
\<close>

fun selector :: "segment \<Rightarrow> processor \<Rightarrow> u16" where
  "selector ds c = r_ds c" | "selector es c = r_es c" | "selector fs c = r_fs c" | "selector gs c = r_gs c"

fun set_selector :: "segment \<Rightarrow> u16 \<Rightarrow> processor \<Rightarrow> processor" where
  "set_selector ds v c = c\<lparr>r_ds := v\<rparr>" | "set_selector es v c = c\<lparr>r_es := v\<rparr>"
| "set_selector fs v c = c\<lparr>r_fs := v\<rparr>" | "set_selector gs v c = c\<lparr>r_gs := v\<rparr>"

fun instr :: "(u16 \<Rightarrow> u8) \<Rightarrow> (IdtFrame \<Rightarrow> 'k \<Rightarrow> 'k handled run) \<Rightarrow> u32 \<times> u32 \<Rightarrow> instruction \<Rightarrow> processor \<times> 'k
    \<Rightarrow> (processor \<times> 'k) run" where
  "instr dpl H junk (Push v) (c, k) = ret (push v c, k)"
| "instr dpl H junk Pushad (c, k) = ret (push (r_edi c) (push (r_esi c) (push (r_ebp c) (push (r_esp c)
     (push (r_ebx c) (push (r_edx c) (push (r_ecx c) (push (r_eax c) c))))))), k)"
| "instr dpl H junk (PushSegment r) (c, k) = ret (push (ucast (selector r c)) c, k)"
| "instr dpl H junk PushEsp (c, k) = ret (push (r_esp c) c, k)"
| "instr dpl H junk CallIdtGlobalIntHandler (c, k) =
     (let p = top 0 c in
      mbind (H (frame_at (stack c) p) k) (\<lambda>r. case r of
         Resume f k \<Rightarrow> ret (c\<lparr>stack := put_frame p f (stack c), r_eax := p, r_ecx := fst junk, r_edx := snd junk\<rparr>, k)
       | Hang k \<Rightarrow> None))"
| "instr dpl H junk MovEspEax (c, k) = ret (c\<lparr>r_esp := r_eax c\<rparr>, k)"
| "instr dpl H junk (PopSegment r) (c, k) = ret (drop_words 1 (set_selector r (ucast (top 0 c)) c), k)"
| "instr dpl H junk Popad (c, k) = ret (drop_words 8 (c\<lparr>r_edi := top 0 c, r_esi := top 1 c, r_ebp := top 2 c,
     r_ebx := top 4 c, r_edx := top 5 c, r_ecx := top 6 c, r_eax := top 7 c\<rparr>), k)"
| "instr dpl H junk (AddEsp v) (c, k) = ret (c\<lparr>r_esp := r_esp c + v\<rparr>, k)"
| "instr dpl H junk Iret (c, k) = ret (iret dpl c, k)"

primrec exec :: "(u16 \<Rightarrow> u8) \<Rightarrow> (IdtFrame \<Rightarrow> 'k \<Rightarrow> 'k handled run) \<Rightarrow> u32 \<times> u32 \<Rightarrow> instruction list \<Rightarrow> processor \<times> 'k
    \<Rightarrow> (processor \<times> 'k) run" where
  "exec dpl H junk [] x = ret x"
| "exec dpl H junk (i # is) x = mbind (instr dpl H junk i x) (exec dpl H junk is)"

text \<open>
  An interrupt from end to end: the gate of its vector in the kernel's table, the code at the
  address the gate holds, and whatever that runs. \<open>err\<close> is the error code the processor pushes, if any.
\<close>

definition code_at :: "stubs \<Rightarrow> ptr \<Rightarrow> instruction list" where
  "code_at S p = (case find (\<lambda>e. addr_Int S (fst e) = p) entry_table of Some (n, c) \<Rightarrow> c | None \<Rightarrow> IntDefault)"

definition interrupt :: "stubs \<Rightarrow> u16 \<times> ptr \<Rightarrow> (u16 \<Rightarrow> u8) \<Rightarrow> u32 \<times> u32 \<Rightarrow>
    (IdtFrame \<Rightarrow> 'z intr_state_scheme \<Rightarrow> 'z intr_state_scheme handled run) \<Rightarrow>
    u8 \<Rightarrow> u32 option \<Rightarrow> processor \<times> 'z intr_state_scheme \<Rightarrow> (processor \<times> 'z intr_state_scheme) run" where
  "interrupt S tss_stack dpl junk H n err ck =
     (let c = deliver tss_stack (IdtTable (snd ck) n) err (fst ck)
      in exec dpl H junk (code_at S (r_eip c)) (c, snd ck))"

section \<open>The frame\<close>

text \<open>The common code, on a stack with the vector, an error code and what the processor stored.\<close>

definition saved :: "processor \<Rightarrow> ptr \<Rightarrow> IdtFrame" where
  "saved c p = \<lparr>Gs = ucast (r_gs c), Fs = ucast (r_fs c), Es = ucast (r_es c), Ds = ucast (r_ds c), Edi = r_edi c, Esi = r_esi c,
      Ebp = r_ebp c, unused = p + 48, Ebx = r_ebx c, Edx = r_edx c, Ecx = r_ecx c, Eax = r_eax c,
      InterruptNumber = stack c (p + 48), ErrorCode = stack c (p + 52), Eip = stack c (p + 56), Cs = stack c (p + 60),
      Eflags = stack c (p + 64), UserEsp = stack c (p + 68), Ss = stack c (p + 72)\<rparr>"

definition returned :: "(u16 \<Rightarrow> u8) \<Rightarrow> ptr \<Rightarrow> IdtFrame \<Rightarrow> processor \<Rightarrow> processor" where
  "returned dpl p f c =
     (let cs = ucast (Cs f) :: u16; user = (rpl cs \<noteq> 0);
          keep = (\<lambda>v. let sel = ucast v in if user \<and> dpl sel < ucast (rpl cs) then 0 else sel) in
      \<lparr>r_eax = Eax f, r_ecx = Ecx f, r_edx = Edx f, r_ebx = Ebx f, r_esp = (if user then UserEsp f else p + 68),
       r_ebp = Ebp f, r_esi = Esi f, r_edi = Edi f, r_eip = Eip f, r_eflags = Eflags f, r_cs = cs,
       r_ss = (if user then ucast (Ss f) else r_ss c),
       r_ds = keep (Ds f), r_es = keep (Es f), r_fs = keep (Fs f), r_gs = keep (Gs f),
       stack = put_frame p f ((stack c)(p - 4 := p))\<rparr>)"

lemma mbind_assoc: "mbind (mbind m f) g = mbind m (\<lambda>x. mbind (f x) g)"
  by (simp add: mbind_def split: option.split sum.split)

lemma exec_append: "exec dpl H junk (is @ js) = (\<lambda>x. mbind (exec dpl H junk is x) (exec dpl H junk js))"
proof (induction "is")
  case (Cons i "is")
  show ?case by (rule ext) (simp add: Cons mbind_assoc)
qed (simp add: fun_eq_iff)

definition pushed :: "processor \<Rightarrow> ptr \<Rightarrow> processor" where
  "pushed c p = c\<lparr>r_esp := p - 4, stack := (stack c)(p + 44 := r_eax c, p + 40 := r_ecx c, p + 36 := r_edx c, p + 32 := r_ebx c,
     p + 28 := p + 48, p + 24 := r_ebp c, p + 20 := r_esi c, p + 16 := r_edi c, p + 12 := ucast (r_ds c), p + 8 := ucast (r_es c),
     p + 4 := ucast (r_fs c), p := ucast (r_gs c), p - 4 := p)\<rparr>"

lemma save_instructions:
  assumes "r_esp c = p + 48"
  shows "exec dpl H junk [Pushad, PushSegment ds, PushSegment es, PushSegment fs, PushSegment gs, PushEsp] (c, k) = ret (pushed c p, k)"
  using assms by (simp add: push_def pushed_def) (simp add: add.commute)

definition frame_cells :: "ptr \<Rightarrow> ptr set" where
  "frame_cells p = {p, p + 4, p + 8, p + 12, p + 16, p + 20, p + 24, p + 28, p + 32, p + 36, p + 40, p + 44, p + 48, p + 52,
     p + 56, p + 60, p + 64, p + 68, p + 72}"

lemma put_frame_cong: "(\<And>a. a \<notin> frame_cells p \<Longrightarrow> m a = m' a) \<Longrightarrow> put_frame p f m = put_frame p f m'"
  by (auto simp: put_frame_def frame_cells_def fun_eq_iff)

lemma put_frame_other: "a \<notin> frame_cells p \<Longrightarrow> put_frame p f m a = m a"
  by (simp add: put_frame_def frame_cells_def)

lemma frame_at_put_frame: "frame_at (put_frame p f m) p = f"
  by (simp add: frame_at_def put_frame_def)

lemma pushed_frame: "frame_at (stack (pushed c p)) p = saved c p"
  by (simp add: frame_at_def pushed_def saved_def)

lemma pushed_top: "top 0 (pushed c p) = p"
  by (simp add: top_def pushed_def)

lemma put_frame_pushed: "put_frame p f (stack (pushed c p)) = put_frame p f ((stack c)(p - 4 := p))"
  by (rule put_frame_cong) (simp add: pushed_def frame_cells_def)

lemma frame_fields:
  assumes "frame_at m p = f"
  shows "m p = Gs f" "m (p + 4) = Fs f" "m (p + 8) = Es f" "m (p + 12) = Ds f" "m (p + 16) = Edi f" "m (p + 20) = Esi f"
    "m (p + 24) = Ebp f" "m (p + 32) = Ebx f" "m (p + 36) = Edx f" "m (p + 40) = Ecx f" "m (p + 44) = Eax f"
    "m (p + 56) = Eip f" "m (p + 60) = Cs f" "m (p + 64) = Eflags f" "m (p + 68) = UserEsp f" "m (p + 72) = Ss f"
  by (simp_all add: frame_at_def flip: assms)

lemma restore_instructions:
  assumes "frame_at (stack c) p = f" "r_eax c = p"
  shows "exec dpl H junk [MovEspEax, PopSegment gs, PopSegment fs, PopSegment es, PopSegment ds, Popad, AddEsp 8] (c, k) =
    ret (c\<lparr>r_esp := p + 56, r_gs := ucast (Gs f), r_fs := ucast (Fs f), r_es := ucast (Es f), r_ds := ucast (Ds f),
      r_edi := Edi f, r_esi := Esi f, r_ebp := Ebp f, r_ebx := Ebx f, r_edx := Edx f, r_ecx := Ecx f, r_eax := Eax f\<rparr>, k)"
  using assms(2) by (simp add: top_def drop_words_def frame_fields [OF assms(1)] add.assoc)

lemma iret_frame:
  assumes "frame_at (stack c) p = f" "r_esp c = p + 56" "c = d\<lparr>r_esp := p + 56, r_gs := ucast (Gs f), r_fs := ucast (Fs f),
      r_es := ucast (Es f), r_ds := ucast (Ds f), r_edi := Edi f, r_esi := Esi f, r_ebp := Ebp f, r_ebx := Ebx f, r_edx := Edx f,
      r_ecx := Ecx f, r_eax := Eax f\<rparr>"
  shows "iret dpl c = (returned dpl p f d)\<lparr>stack := stack c\<rparr>"
proof -
  have t: "top 0 c = Eip f" "top 1 c = Cs f" "top 2 c = Eflags f"
    using frame_fields(12-14) [OF assms(1)] by (simp_all add: top_def assms(2) add.assoc)
  have u: "stack c (r_esp c + 12) = UserEsp f" "stack c (r_esp c + 16) = Ss f"
    using frame_fields(15,16) [OF assms(1)] by (simp_all add: assms(2) add.assoc)
  show ?thesis
  proof (cases "rpl (ucast (Cs f)) = 0")
    case True
    then show ?thesis unfolding iret_def t returned_def Let_def drop_words_def
      by (intro processor.equality) (simp_all add: assms(3) add.assoc)
  next
    case False
    have "top 0 (drop_words 3 (c\<lparr>r_eip := e, r_cs := cs, r_eflags := fl\<rparr>)) = UserEsp f"
      "top 1 (drop_words 3 (c\<lparr>r_eip := e, r_cs := cs, r_eflags := fl\<rparr>)) = Ss f" for e cs fl
      using u by (simp_all add: top_def drop_words_def add.assoc)
    with False show ?thesis unfolding iret_def t returned_def Let_def
      by (intro processor.equality) (simp_all add: assms(3) drop_words_def)
  qed
qed

lemma exec_IntCommon:
  assumes "r_esp c = p + 48"
  shows "exec dpl H junk IntCommon (c, k) = mbind (H (saved c p) k) (\<lambda>r. case r of
    Resume f k \<Rightarrow> ret (returned dpl p f c, k) | Hang k \<Rightarrow> None)"
proof -
  let ?save = "[Pushad, PushSegment ds, PushSegment es, PushSegment fs, PushSegment gs, PushEsp]"
  let ?rest = "[MovEspEax, PopSegment gs, PopSegment fs, PopSegment es, PopSegment ds, Popad, AddEsp 8]"
  define rest where "rest = ?rest @ [Iret]"
  have split: "IntCommon = ?save @ [CallIdtGlobalIntHandler] @ rest"
    by (simp add: IntCommon_def rest_def)
  have after: "exec dpl H junk rest
      ((pushed c p)\<lparr>stack := put_frame p f (stack (pushed c p)), r_eax := p, r_ecx := fst junk, r_edx := snd junk\<rparr>, k) =
      ret (returned dpl p f c, k)" (is "_ (?d, k) = _") for f k
  proof -
    have d: "frame_at (stack ?d) p = f" "r_eax ?d = p" by (simp_all add: frame_at_put_frame)
    let ?e = "?d\<lparr>r_esp := p + 56, r_gs := ucast (Gs f), r_fs := ucast (Fs f), r_es := ucast (Es f), r_ds := ucast (Ds f),
      r_edi := Edi f, r_esi := Esi f, r_ebp := Ebp f, r_ebx := Ebx f, r_edx := Edx f, r_ecx := Ecx f, r_eax := Eax f\<rparr>"
    have "iret dpl ?e = (returned dpl p f ?d)\<lparr>stack := stack ?e\<rparr>"
      by (rule iret_frame) (use d in simp_all)
    also have "\<dots> = returned dpl p f c"
      by (simp add: returned_def Let_def put_frame_pushed) (simp add: pushed_def)
    finally show ?thesis unfolding rest_def exec_append restore_instructions [OF d] by simp
  qed
  show ?thesis
    unfolding split exec_append [of _ _ _ ?save] save_instructions [OF assms]
    by (auto simp: pushed_top pushed_frame Let_def mbind_def ret_def after [unfolded ret_def] split: option.split sum.split handled.split)
qed


section \<open>The stubs\<close>

lemma entry_vectors: "map fst entry_table = map fst vectors"
  by (simp add: entry_table_def vectors_def InterruptHandler_def ExceptionHandler_def)

definition pushes_error_code :: "u8 \<Rightarrow> bool" where
  "pushes_error_code n \<longleftrightarrow> n \<in> {0x08, 0x0B, 0x0C, 0x0D, 0x0E, 0x11, 0x1E}"

lemma entry_stub:
  assumes "(n, c) \<in> set entry_table"
  shows "c = (if pushes_error_code n then [] else [Push 0]) @ Push (ucast n) # IntCommon"
  using assms by (auto simp: entry_table_def InterruptHandler_def ExceptionHandler_def pushes_error_code_def)

text \<open>The linker gives every stub an address of its own.\<close>

definition linked :: "stubs \<Rightarrow> bool" where
  "linked S \<longleftrightarrow> inj_on (addr_Int S) (fst ` set vectors) \<and> addr_IntDefault S \<notin> addr_Int S ` fst ` set vectors"

lemma stub_code:
  assumes "linked S" "n \<in> fst ` set vectors"
  shows "code_at S (addr_Int S n) = (if pushes_error_code n then [] else [Push 0]) @ Push (ucast n) # IntCommon"
proof -
  have v: "fst ` set entry_table = fst ` set vectors"
    using entry_vectors by (metis list.set_map)
  have "n \<in> fst ` set entry_table" using assms(2) by (simp add: v)
  then obtain c where c: "(n, c) \<in> set entry_table" by force
  let ?P = "\<lambda>e :: u8 \<times> instruction list. addr_Int S (fst e) = addr_Int S n"
  obtain x where x: "find ?P entry_table = Some x"
    using c by (cases "find ?P entry_table") (auto simp: find_None_iff)
  then obtain i where "i < length entry_table" "?P (entry_table ! i)" "x = entry_table ! i"
    by (auto simp: find_Some_iff)
  then have y: "x \<in> set entry_table" "addr_Int S (fst x) = addr_Int S n" by auto
  then have "fst x \<in> fst ` set vectors" using v by blast
  then have "fst x = n" using y(2) assms by (auto simp: linked_def dest: inj_onD)
  then show ?thesis using x entry_stub [of n "snd x"] y(1) by (cases x) (simp add: code_at_def)
qed

text \<open>Where the frame is, what the C code reads in it, and what runs on when it returns a frame \<open>f\<close>.\<close>

definition frame_base :: "u16 \<times> ptr \<Rightarrow> processor \<Rightarrow> ptr" where
  "frame_base tss_stack c = (if rpl (r_cs c) = 0 then r_esp c - 68 else snd tss_stack - 76)"

definition interrupted_frame :: "u16 \<times> ptr \<Rightarrow> u8 \<Rightarrow> u32 \<Rightarrow> processor \<Rightarrow> IdtFrame" where
  "interrupted_frame tss_stack n err c =
     \<lparr>Gs = ucast (r_gs c), Fs = ucast (r_fs c), Es = ucast (r_es c), Ds = ucast (r_ds c), Edi = r_edi c, Esi = r_esi c,
      Ebp = r_ebp c, unused = frame_base tss_stack c + 48, Ebx = r_ebx c, Edx = r_edx c, Ecx = r_ecx c, Eax = r_eax c,
      InterruptNumber = ucast n, ErrorCode = err, Eip = r_eip c, Cs = ucast (r_cs c), Eflags = r_eflags c,
      UserEsp = (if rpl (r_cs c) = 0 then stack c (r_esp c) else r_esp c),
      Ss = (if rpl (r_cs c) = 0 then stack c (r_esp c + 4) else ucast (r_ss c))\<rparr>"

definition resumed :: "u16 \<times> ptr \<Rightarrow> (u16 \<Rightarrow> u8) \<Rightarrow> IdtFrame \<Rightarrow> processor \<Rightarrow> processor" where
  "resumed tss_stack dpl f c =
     (let p = frame_base tss_stack c; cs = ucast (Cs f) :: u16; user = (rpl cs \<noteq> 0);
          keep = (\<lambda>v. let sel = ucast v in if user \<and> dpl sel < ucast (rpl cs) then 0 else sel) in
      \<lparr>r_eax = Eax f, r_ecx = Ecx f, r_edx = Edx f, r_ebx = Ebx f, r_esp = (if user then UserEsp f else p + 68),
       r_ebp = Ebp f, r_esi = Esi f, r_edi = Edi f, r_eip = Eip f, r_eflags = Eflags f, r_cs = cs,
       r_ss = (if user then ucast (Ss f) else if rpl (r_cs c) = 0 then r_ss c else fst tss_stack),
       r_ds = keep (Ds f), r_es = keep (Es f), r_fs = keep (Fs f), r_gs = keep (Gs f),
       stack = put_frame p f ((stack c)(p - 4 := p))\<rparr>)"



text \<open>What the processor stored, in the upper part of the frame.\<close>

definition stored :: "ptr \<Rightarrow> u32 option \<Rightarrow> processor \<Rightarrow> (ptr \<Rightarrow> u32) \<Rightarrow> (ptr \<Rightarrow> u32)" where
  "stored p err c m = (case err of None \<Rightarrow> id | Some v \<Rightarrow> \<lambda>m. m(p + 52 := v))
     (m(p + 64 := r_eflags c, p + 60 := ucast (r_cs c), p + 56 := r_eip c))"

lemma deliver_eq:
  assumes "p = frame_base tss_stack c"
  shows "deliver tss_stack e err c = c\<lparr>r_esp := (if err = None then p + 56 else p + 52), r_cs := gate_selector e, r_eip := gate_offset e,
     r_eflags := r_eflags c AND NOT 0x34300, r_ss := (if rpl (r_cs c) = 0 then r_ss c else fst tss_stack),
     stack := stored p err c (if rpl (r_cs c) = 0 then stack c else (stack c)(p + 72 := ucast (r_ss c), p + 68 := r_esp c))\<rparr>"
proof (cases "rpl (r_cs c) = 0")
  case True
  then have "r_esp c = p + 68" by (simp add: assms frame_base_def)
  with True show ?thesis by (cases err) (simp_all add: deliver_def push_def stored_def Let_def, simp_all add: add.commute)
next
  case False
  then have "snd tss_stack = p + 76" by (simp add: assms frame_base_def)
  with False show ?thesis by (cases err) (simp_all add: deliver_def push_def stored_def Let_def, simp_all add: add.commute)
qed


text \<open>The C code as the interrupted code sees it: a function of the frame, between two loads of all registers.\<close>

lemma entered:
  assumes "p = frame_base tss_stack c" "\<And>a. a \<notin> frame_cells p \<Longrightarrow> stack d a = stack c a"
    "r_ss d = (if rpl (r_cs c) = 0 then r_ss c else fst tss_stack)"
  shows "returned dpl p f d = resumed tss_stack dpl f c"
proof -
  have "put_frame p f ((stack d)(p - 4 := p)) = put_frame p f ((stack c)(p - 4 := p))"
    by (rule put_frame_cong) (simp add: assms(2))
  then show ?thesis by (simp add: returned_def resumed_def Let_def assms(3) flip: assms(1))
qed

lemma stored_other: "a \<notin> frame_cells p \<Longrightarrow> stored p err c m a = m a"
  by (cases err) (simp_all add: stored_def frame_cells_def)

lemma interrupt_refines:
  assumes "linked S" "n \<in> fst ` set vectors" "IdtTable k = IdtTable (IdtInit S k0)" "err \<noteq> None \<longleftrightarrow> pushes_error_code n"
  shows "interrupt S tss_stack dpl junk H n err (c, k) =
    mbind (H (interrupted_frame tss_stack n (case err of None \<Rightarrow> 0 | Some v \<Rightarrow> v) c) k)
      (\<lambda>r. case r of Resume f k \<Rightarrow> ret (resumed tss_stack dpl f c, k) | Hang k \<Rightarrow> None)"
proof -
  define p where "p = frame_base tss_stack c"
  define d where "d = deliver tss_stack (IdtTable k n) err c"
  define m where "m = stored p err c (if rpl (r_cs c) = 0 then stack c else (stack c)(p + 72 := ucast (r_ss c), p + 68 := r_esp c))"
  define m' where "m' = m(p + 52 := (case err of None \<Rightarrow> 0 | Some v \<Rightarrow> v), p + 48 := ucast n)"
  define d' where "d' = d\<lparr>r_esp := p + 48, stack := m'\<rparr>"
  have d: "d = c\<lparr>r_esp := (if err = None then p + 56 else p + 52), r_cs := gate_selector (IdtTable k n),
     r_eip := gate_offset (IdtTable k n), r_eflags := r_eflags c AND NOT 0x34300,
     r_ss := (if rpl (r_cs c) = 0 then r_ss c else fst tss_stack), stack := m\<rparr>"
    using deliver_eq [OF p_def] by (simp add: d_def m_def)
  have "gate_offset (IdtTable k n) = addr_Int S n"
    using assms(2) IdtInit_eq [of S k0] by (simp add: assms(3) int_gate_def gate_fields)
  then have code: "code_at S (r_eip d) = (if err = None then [Push 0] else []) @ Push (ucast n) # IntCommon"
    using stub_code [OF assms(1,2)] assms(4) by (auto simp: d)
  have other: "m' a = stack c a" if "a \<notin> frame_cells p" for a
    using that stored_other [OF that] by (auto simp: m'_def m_def frame_cells_def)
  have "exec dpl H junk (code_at S (r_eip d)) (d, k) = exec dpl H junk IntCommon (d', k)"
  proof (cases err)
    case None
    then show ?thesis unfolding code by (simp add: push_def d'_def d m'_def) (simp add: add.commute)
  next
    case (Some v)
    then have "m(p + 52 := v) = m" by (simp add: m_def stored_def)
    with Some show ?thesis unfolding code by (simp add: push_def d'_def d m'_def) (simp add: add.commute)
  qed
  moreover have "saved d' p = interrupted_frame tss_stack n (case err of None \<Rightarrow> 0 | Some v \<Rightarrow> v) c"
  proof -
    have "r_esp c = p + 68" if "rpl (r_cs c) = 0" using that by (simp add: p_def frame_base_def)
    then show ?thesis
      by (cases err; cases "rpl (r_cs c) = 0")
        (simp_all add: saved_def interrupted_frame_def d'_def d m'_def m_def stored_def add.assoc flip: p_def)
  qed
  moreover have "returned dpl p f d' = resumed tss_stack dpl f c" for f
    by (rule entered [OF p_def]) (simp_all add: d'_def d other)
  ultimately show ?thesis
    using exec_IntCommon [of d' p dpl H junk k] by (simp add: interrupt_def Let_def d'_def flip: d_def)
qed


text \<open>A vector without a stub of its own leads to \<open>_IntDefault\<close>, which returns at once.\<close>

lemma default_code:
  assumes "linked S"
  shows "code_at S (addr_IntDefault S) = IntDefault"
proof -
  have v: "fst ` set entry_table = fst ` set vectors" using entry_vectors by (metis list.set_map)
  have "addr_IntDefault S \<noteq> addr_Int S n" if "n \<in> fst ` set vectors" for n
    using assms that by (auto simp only: linked_def)
  then have "\<not> (\<exists>e. e \<in> set entry_table \<and> addr_Int S (fst e) = addr_IntDefault S)"
    unfolding v [symmetric] by (metis imageI)
  then have "find (\<lambda>e. addr_Int S (fst e) = addr_IntDefault S) entry_table = None"
    by (simp only: find_None_iff simp_thms)
  then show ?thesis by (simp add: code_at_def)
qed

lemma default_interrupt:
  assumes "linked S" "n \<notin> fst ` set vectors" "IdtTable k = IdtTable (IdtInit S k0)"
  shows "interrupt S tss_stack dpl junk H n err (c, k) = ret (iret dpl (deliver tss_stack (IdtTable k n) err c), k)"
proof -
  have "gate_offset (IdtTable k n) = addr_IntDefault S"
    using assms(2) IdtInit_eq [of S k0] by (simp add: assms(3) int_gate_def gate_fields)
  then show ?thesis using default_code [OF assms(1)]
    by (simp add: interrupt_def deliver_eq [OF refl] IntDefault_def Let_def)
qed

section \<open>Properties\<close>

text \<open>The part of the stack an interrupt writes: below the stack pointer, or below the stack of interrupts.\<close>

definition interrupt_cells :: "u16 \<times> ptr \<Rightarrow> processor \<Rightarrow> ptr set" where
  "interrupt_cells tss_stack c = (if rpl (r_cs c) = 0 then (\<lambda>i. r_esp c - 4 * of_nat i) ` {1..18}
     else (\<lambda>i. snd tss_stack - 4 * of_nat i) ` {1..20})"

lemma interrupt_cells_eq:
  assumes "p = frame_base tss_stack c"
  shows "interrupt_cells tss_stack c = insert (p - 4) (frame_cells p) - (if rpl (r_cs c) = 0 then {p + 68, p + 72} else {})"
proof -
  have n: "{1..18} = {1, 2, 3, 4, 5, 6, 7, 8, 9, 10, 11, 12, 13, 14, 15, 16, 17, 18 :: nat}"
    unfolding atLeastAtMost_upt by (simp add: upt_rec) (simp add: eval_nat_numeral)
  have m: "{1..20} = {1, 2, 3, 4, 5, 6, 7, 8, 9, 10, 11, 12, 13, 14, 15, 16, 17, 18, 19, 20 :: nat}"
    unfolding atLeastAtMost_upt by (simp add: upt_rec) (simp add: eval_nat_numeral)
  show ?thesis
  proof (cases "rpl (r_cs c) = 0")
    case True
    then have q: "r_esp c = p + 68" by (simp add: assms frame_base_def)
    show ?thesis using True unfolding interrupt_cells_def n frame_cells_def q by auto
  next
    case False
    then have q: "snd tss_stack = p + 76" by (simp add: assms frame_base_def)
    show ?thesis using False unfolding interrupt_cells_def m frame_cells_def q by auto
  qed
qed


lemma selector_back: "ucast (ucast (x :: u16) :: u32) = x"
  by (rule bit_word_eqI) (auto simp: bit_simps)

lemma resumed_interrupted:
  assumes "\<And>sel. rpl (r_cs c) \<noteq> 0 \<Longrightarrow> sel \<in> {r_ds c, r_es c, r_fs c, r_gs c} \<Longrightarrow> sel = 0 \<or> ucast (rpl (r_cs c)) \<le> dpl sel"
    and "f = interrupted_frame tss_stack n e c" "p = frame_base tss_stack c"
  shows "resumed tss_stack dpl f c = c\<lparr>stack := put_frame p f ((stack c)(p - 4 := p))\<rparr>"
proof -
  let ?ring = "rpl (r_cs c)"
  have keep: "(if ?ring \<noteq> 0 \<and> dpl sel < ucast ?ring then 0 else sel) = sel" if "sel \<in> {r_ds c, r_es c, r_fs c, r_gs c}" for sel
    using assms(1) [OF _ that] by auto
  have esp: "(if ?ring \<noteq> 0 then UserEsp f else p + 68) = r_esp c"
    by (simp add: assms(2,3) interrupted_frame_def frame_base_def)
  have ss: "(if ?ring \<noteq> 0 then ucast (Ss f) else if ?ring = 0 then r_ss c else fst tss_stack) = r_ss c"
    by (simp add: assms(2) interrupted_frame_def selector_back)
  have "ucast (Cs f) = r_cs c" "ucast (Ds f) = r_ds c" "ucast (Es f) = r_es c" "ucast (Fs f) = r_fs c" "ucast (Gs f) = r_gs c"
    by (simp_all add: assms(2) interrupted_frame_def selector_back)
  then show ?thesis
    unfolding resumed_def Let_def assms(3) [symmetric] by (simp only: keep esp ss insertI1 insertI2) (simp add: assms(2) interrupted_frame_def)
qed

lemma interrupted_stack:
  assumes "f = interrupted_frame tss_stack n e c" "p = frame_base tss_stack c" "a \<notin> interrupt_cells tss_stack c"
  shows "put_frame p f ((stack c)(p - 4 := p)) a = stack c a"
proof (cases "rpl (r_cs c) = 0 \<and> a \<in> {p + 68, p + 72}")
  case True
  then have "r_esp c = p + 68" by (simp add: assms(2) frame_base_def)
  with True have f: "UserEsp f = stack c (p + 68)" "Ss f = stack c (p + 72)" by (simp_all add: assms(1) interrupted_frame_def add.assoc)
  show ?thesis using True by (auto simp: put_frame_def f)
next
  case False
  then have "a \<noteq> p - 4 \<and> a \<notin> frame_cells p" using assms(3) unfolding interrupt_cells_eq [OF assms(2)] by (auto split: if_splits)
  then show ?thesis by (simp add: put_frame_other)
qed

text \<open>
  C6. An interrupt is invisible to what it interrupts. Take any vector with a stub of its own, with
  the error code exactly where the stub expects one, and C code that is given the frame and
  returns it unchanged. Then the interrupted code goes on with every register as it was, selectors and flags
  included, in whatever ring it runs, and with its memory as it was but below its stack pointer
  or, for user code, below the stack of interrupts. The frame the C code sees holds its registers.
\<close>

theorem interrupted_code_goes_on:
  assumes "linked S" "n \<in> fst ` set vectors" "IdtTable k = IdtTable (IdtInit S k0)" "err \<noteq> None \<longleftrightarrow> pushes_error_code n"
    and "rpl (r_cs c) \<noteq> 0 \<longrightarrow> (\<forall>sel \<in> {r_ds c, r_es c, r_fs c, r_gs c}. sel = 0 \<or> ucast (rpl (r_cs c)) \<le> dpl sel)"
    and "f = interrupted_frame tss_stack n (case err of None \<Rightarrow> 0 | Some v \<Rightarrow> v) c" "H f k = ret (Resume f k')"
  shows "\<exists>m. interrupt S tss_stack dpl junk H n err (c, k) = ret (c\<lparr>stack := m\<rparr>, k') \<and>
    (\<forall>a. a \<notin> interrupt_cells tss_stack c \<longrightarrow> m a = stack c a)"
proof -
  have "interrupt S tss_stack dpl junk H n err (c, k) = ret (resumed tss_stack dpl f c, k')"
    using interrupt_refines [OF assms(1-4)] assms(6,7) by simp
  moreover have "resumed tss_stack dpl f c = c\<lparr>stack := put_frame (frame_base tss_stack c) f ((stack c)(frame_base tss_stack c - 4 := frame_base tss_stack c))\<rparr>"
    by (rule resumed_interrupted [OF _ assms(6) refl]) (use assms(5) in blast)
  ultimately show ?thesis using interrupted_stack [OF assms(6) refl] by auto
qed


text \<open>The stack of interrupts and the privilege of segments, from the tables of \<open>Segments\<close>.\<close>

definition interrupt_stack :: "segment_state \<Rightarrow> u16 \<times> ptr" where
  "interrupt_stack T = (ucast (TSS T ! 2), TSS T ! 1)"

definition privilege :: "segment_state \<Rightarrow> u16 \<Rightarrow> u8" where
  "privilege T sel = d_dpl (descriptor (GdtTable T) sel)"

definition sample_stubs :: stubs where
  "sample_stubs = \<lparr>addr_IntDefault = 0xE0001000, addr_Int = (\<lambda>n. 0xE0001100 + 16 * ucast n)\<rparr>"

lemma sample_stubs_linked: "linked sample_stubs"
proof -
  have u: "unat (addr_Int sample_stubs n) = 0xE0001100 + 16 * unat n" for n
  proof -
    have n: "unat (ucast n :: u32) = unat n" "unat n < 256" using unsigned_less [of n, where 'a = nat]
      by (simp_all add: unsigned_ucast_eq take_bit_nat_eq_self del: unsigned_less)
    then have "unat (16 * ucast n :: u32) = 16 * unat n" by (simp add: unat_word_ariths)
    then show ?thesis using n(2) by (simp add: sample_stubs_def unat_plus_if')
  qed
  have "inj_on (addr_Int sample_stubs) A" for A
  proof (rule inj_onI)
    fix m n assume "addr_Int sample_stubs m = addr_Int sample_stubs n"
    then have "unat (addr_Int sample_stubs m) = unat (addr_Int sample_stubs n)" by simp
    then show "m = n" unfolding u by (simp add: word_unat_eq_iff)
  qed
  moreover have "addr_IntDefault sample_stubs \<noteq> addr_Int sample_stubs n" for n
  proof
    assume "addr_IntDefault sample_stubs = addr_Int sample_stubs n"
    then have "unat (addr_IntDefault sample_stubs) = 0xE0001100 + 16 * unat n" unfolding u [symmetric] by simp
    then show False by (simp add: sample_stubs_def)
  qed
  ultimately show ?thesis by (auto simp: linked_def)
qed

text \<open>User code at \<open>0x400000\<close>, on its own stack, with the segments of \<open>GdtUserCode\<close> and \<open>GdtUserData\<close>.\<close>

definition user_processor :: processor where
  "user_processor = \<lparr>r_eax = 1, r_ecx = 2, r_edx = 3, r_ebx = 4, r_esp = 0x500000, r_ebp = 5, r_esi = 6, r_edi = 7,
     r_eip = 0x400000, r_eflags = 0x202, r_cs = 0x1B, r_ss = 0x23, r_ds = 0x23, r_es = 0x23, r_fs = 0x23, r_gs = 0x23, stack = (\<lambda>_. 0)\<rparr>"

theorem interrupted_code_goes_on_witness:
  "\<exists>m k. interrupt sample_stubs (interrupt_stack (GdtInit 0xE0008000 0xE0008100 0xE00F0000 segments_at_boot))
      (privilege (GdtInit 0xE0008000 0xE0008100 0xE00F0000 segments_at_boot)) (8, 9)
      (IdtGlobalIntHandler (\<lambda>cb f s. ret (f, s))) 0x21 None (user_processor, IdtInit sample_stubs bare_machine) =
    ret (user_processor\<lparr>stack := m\<rparr>, k) \<and> m 0x500000 = 0"
proof -
  let ?T = "GdtInit 0xE0008000 0xE0008100 0xE00F0000 segments_at_boot" and ?k = "IdtInit sample_stubs bare_machine"
  let ?f = "interrupted_frame (interrupt_stack ?T) 0x21 0 user_processor"
  have v: "(0x21 :: u8) \<in> fst ` set vectors" by (simp add: vectors_def)
  have st: "interrupt_stack ?T = (0x10, 0xE00F0000)" by (simp add: interrupt_stack_def TSS_after)
  have user: "rpl (r_cs user_processor) = 3" by (simp add: user_processor_def rpl_def)
  have dpl: "privilege ?T 0x23 = 3"
    by (simp add: privilege_def descriptor_def GdtInit_table d_dpl_def)
  let ?H = "IdtGlobalIntHandler (\<lambda>cb f s. ret (f, s))"
  have h: "?H ?f ?k = ret (Resume ?f (PicEOI 1 ?k))"
    by (simp add: IdtGlobalIntHandler_def interrupted_frame_def IdtInit_eq Let_def)
  have f: "?f = interrupted_frame (interrupt_stack ?T) 0x21 (case None of None \<Rightarrow> 0 | Some v \<Rightarrow> v) user_processor" by simp
  have seg: "rpl (r_cs user_processor) \<noteq> 0 \<longrightarrow> (\<forall>sel \<in> {r_ds user_processor, r_es user_processor, r_fs user_processor, r_gs user_processor}.
      sel = 0 \<or> ucast (rpl (r_cs user_processor)) \<le> privilege ?T sel)"
    using dpl by (simp add: user_processor_def rpl_def)
  have e: "None \<noteq> None \<longleftrightarrow> pushes_error_code 0x21" by (simp add: pushes_error_code_def)
  obtain m where m: "interrupt sample_stubs (interrupt_stack ?T) (privilege ?T) (8, 9) ?H 0x21 None (user_processor, ?k) =
      ret (user_processor\<lparr>stack := m\<rparr>, PicEOI 1 ?k)"
    "\<forall>a. a \<notin> interrupt_cells (interrupt_stack ?T) user_processor \<longrightarrow> m a = stack user_processor a"
    using interrupted_code_goes_on [where H = ?H and f = ?f and k' = "PicEOI 1 ?k" and junk = "(8, 9)",
        OF sample_stubs_linked v refl e seg f h] by (elim exE conjE)
  have "0x500000 \<notin> interrupt_cells (interrupt_stack ?T) user_processor"
  proof
    assume "0x500000 \<in> interrupt_cells (interrupt_stack ?T) user_processor"
    then obtain i :: nat where i: "i \<le> 20" "(0x500000 :: u32) = 0xE00F0000 - 4 * of_nat i"
      by (auto simp: interrupt_cells_def user st)
    then have "(of_nat (4 * i) :: u32) = 0xDFBF0000" by (simp add: algebra_simps)
    then have "unat (of_nat (4 * i) :: u32) = unat (0xDFBF0000 :: u32)" by simp
    moreover have "unat (of_nat (4 * i) :: u32) = 4 * i" by (rule unat_of_nat32) (use i(1) in simp)
    ultimately show False using i(1) by simp
  qed
  then show ?thesis using m by (auto simp: user_processor_def)
qed

text \<open>
  The stub of vector \<open>0x0A\<close> pushes an error code although the processor has pushed one: what the C
  code takes for the frame is off by a word, with the error code for the instruction pointer.
\<close>

lemma stub_0A_shifts_the_frame:
  assumes "r_esp c = p + 52" "stack c (p + 52) = v"
  shows "exec dpl H junk (snd (InterruptHandler 0x0A)) (c, k) =
    exec dpl H junk IntCommon (c\<lparr>r_esp := (p - 4) + 48, stack := (stack c)(p + 48 := 0, p + 44 := 0x0A)\<rparr>, k) \<and>
    Eip (saved (c\<lparr>stack := (stack c)(p + 48 := 0, p + 44 := 0x0A)\<rparr>) (p - 4)) = v"
proof -
  have shift: "(p - 4) + 48 = p + 44" "(p - 4) + 56 = p + 52" by simp_all
  have "(p + 52) - 4 = p + 48" "(p + 48) - 4 = p + 44" by simp_all
  then show ?thesis using assms by (simp add: InterruptHandler_def push_def saved_def shift) (simp add: add.commute)
qed

end
