(* ===== verification/Machine.thy ===== *)
theory Machine
  imports KernelSafety StartCode EntryCode
begin

text \<open>
  The machine: \<open>_start\<close>, \<open>KMain\<close> and the processor's interrupts composed. The stacks are apart from the
  memory of the kernel, which never reads them but through the frames of interrupts.
\<close>

section \<open>Switching threads on the processor\<close>

text \<open>The interrupt of vector \<open>n\<close> on the processor and the kernel, after \<open>IdtInit\<close>.\<close>

definition gates_set :: "stubs \<Rightarrow> 'z intr_state_scheme \<Rightarrow> bool" where
  "gates_set S s \<longleftrightarrow> (\<exists>s0 :: 'z intr_state_scheme. IdtTable s = IdtTable (IdtInit S s0))"

definition kernel_interrupt :: "stubs \<Rightarrow> segment_state \<Rightarrow> u32 \<times> u32 \<Rightarrow> linker \<Rightarrow> u8 \<Rightarrow> u32 option \<Rightarrow>
    processor \<times> 'z syscall_state_scheme \<Rightarrow> (processor \<times> 'z syscall_state_scheme) run" where
  "kernel_interrupt S T junk L = interrupt S (interrupt_stack T) (privilege T) junk (IdtGlobalIntHandler (kernel_call L))"

text \<open>What of a thread's registers reaches the processor, whatever its mode.\<close>

definition runs :: "processor \<Rightarrow> CPUFrame \<Rightarrow> bool" where
  "runs c t \<longleftrightarrow> r_eax c = EaxT t \<and> r_ecx c = EcxT t \<and> r_edx c = EdxT t \<and> r_ebx c = EbxT t \<and> r_ebp c = EbpT t \<and>
     r_esi c = EsiT t \<and> r_edi c = EdiT t \<and> r_eip c = EipT t \<and> r_eflags c = EflagsT t \<and> r_cs c = ucast (CsT t)"

lemma timer_interrupt_switches:
  assumes "linked S" "gates_set S s" "sched_view s ps ths i" "kernel_only s" "IdtIntHandlers s 0x20 = Some SchedIrqHandler_cb"
    and "F = interrupted_frame (interrupt_stack T) 0x20 0 c" "tick_spec (if initialized s then Some F else None) ths i = Some (ths', j)"
  shows "\<exists>s'. kernel_interrupt S T junk L 0x20 None (c, s) =
      ret (resumed (interrupt_stack T) (privilege T) (SchedLoadFrame F (ths' ! j)) c, s') \<and>
    sched_view s' ps ths' j \<and> kernel_only s' \<and> IdtIntHandlers s' 0x20 = Some SchedIrqHandler_cb \<and> initialized s' \<and> gates_set S s' \<and>
    thread_of s' = thread_of s"
proof -
  obtain s0 :: "'a syscall_state_scheme" where gates: "IdtTable s = IdtTable (IdtInit S s0)" using assms(2) by (auto simp: gates_set_def)
  have n: "(0x20 :: u8) \<in> fst ` set vectors" "InterruptNumber F = 0x20" by (simp_all add: vectors_def assms(6) interrupted_frame_def)
  obtain s' where s': "IdtGlobalIntHandler (kernel_call L) F s = ret (Resume (SchedLoadFrame F (ths' ! j)) s')" "sched_view s' ps ths' j"
    "kernel_only s'" "IdtIntHandlers s' 0x20 = Some SchedIrqHandler_cb" "initialized s'" "thread_of s' = thread_of s" "IdtTable s' = IdtTable s"
    using timer_tick [OF assms(3-5) n(2) assms(7), of L] by blast
  have "kernel_interrupt S T junk L 0x20 None (c, s) = ret (resumed (interrupt_stack T) (privilege T) (SchedLoadFrame F (ths' ! j)) c, s')"
    using s'(1) unfolding kernel_interrupt_def
    by (subst interrupt_refines [OF assms(1) n(1) gates]) (simp_all add: pushes_error_code_def flip: assms(6))
  moreover have "gates_set S s'" using s'(7) assms(2) by (simp add: gates_set_def)
  ultimately show ?thesis using s'(2-6) by blast
qed

lemma resumed_thread:
  "runs (resumed ts dpl (SchedLoadFrame F th) c) (CPUFrame th)"
  "rpl (ucast (CsT (CPUFrame th))) \<noteq> 0 \<Longrightarrow> r_esp (resumed ts dpl (SchedLoadFrame F th) c) = EspT (CPUFrame th)"
  "rpl (ucast (CsT (CPUFrame th))) \<noteq> 0 \<Longrightarrow> r_ss (resumed ts dpl (SchedLoadFrame F th) c) = ucast (SsT (CPUFrame th))"
  by (simp_all add: runs_def resumed_def SchedLoadFrame_def Let_def)

lemma resumed_kernel_thread:
  assumes "rpl (ucast (CsT (CPUFrame th))) = 0" "c' = resumed ts dpl (SchedLoadFrame F th) c"
  shows "r_esp c' = (if rpl (r_cs c) = 0 then r_esp c else snd ts - 8)" "stack c' (r_esp c') = EspT (CPUFrame th)"
    "stack c' (r_esp c' + 4) = SsT (CPUFrame th)" "r_ss c' = (if rpl (r_cs c) = 0 then r_ss c else fst ts)"
proof -
  let ?p = "frame_base ts c"
  have "r_esp c' = ?p + 68" using assms by (simp add: resumed_def SchedLoadFrame_def Let_def)
  moreover have "stack c' (?p + 68) = EspT (CPUFrame th)" "stack c' (?p + 72) = SsT (CPUFrame th)"
    by (simp_all add: assms(2) resumed_def SchedLoadFrame_def put_frame_def Let_def)
  ultimately show "r_esp c' = (if rpl (r_cs c) = 0 then r_esp c else snd ts - 8)" "stack c' (r_esp c') = EspT (CPUFrame th)"
    "stack c' (r_esp c' + 4) = SsT (CPUFrame th)"
    by (simp_all add: frame_base_def add.assoc)
  show "r_ss c' = (if rpl (r_cs c) = 0 then r_ss c else fst ts)" using assms by (simp add: resumed_def SchedLoadFrame_def Let_def)
qed

lemma kernel_interrupt_returns:
  assumes "linked S" "gates_set S s" "kernel_interrupt S T junk L 0x20 None (c, s) = ret (c', s')"
  shows "\<exists>f. IdtGlobalIntHandler (kernel_call L) (interrupted_frame (interrupt_stack T) 0x20 0 c) s = ret (Resume f s') \<and>
    c' = resumed (interrupt_stack T) (privilege T) f c"
proof -
  obtain s0 :: "'a syscall_state_scheme" where gates: "IdtTable s = IdtTable (IdtInit S s0)" using assms(2) by (auto simp: gates_set_def)
  let ?F = "interrupted_frame (interrupt_stack T) 0x20 0 c"
  have n: "(0x20 :: u8) \<in> fst ` set vectors" by (simp add: vectors_def)
  have r: "mbind (IdtGlobalIntHandler (kernel_call L) ?F s)
      (\<lambda>r. case r of Resume f k \<Rightarrow> ret (resumed (interrupt_stack T) (privilege T) f c, k) | Hang k \<Rightarrow> None) = ret (c', s')"
    using assms(3) unfolding kernel_interrupt_def
    by (subst (asm) interrupt_refines [OF assms(1) n gates]) (simp_all add: pushes_error_code_def)
  then show ?thesis
    by (cases "IdtGlobalIntHandler (kernel_call L) ?F s") (auto simp: mbind_def ret_def split: sum.splits handled.splits)
qed

lemma kernel_interrupt_ok:
  assumes "linked S" "gates_set S s" "kernel_ok L s ps" "kernel_interrupt S T junk L 0x20 None (c, s) = ret (c', s')"
  shows "kernel_ok L s' ps"
proof -
  obtain f where "IdtGlobalIntHandler (kernel_call L) (interrupted_frame (interrupt_stack T) 0x20 0 c) s = ret (Resume f s')"
    using kernel_interrupt_returns [OF assms(1,2,4)] by blast
  then show ?thesis using interrupt_safe [OF assms(3), of "interrupted_frame (interrupt_stack T) 0x20 0 c"] by (auto simp: ret_def)
qed

text \<open>
  C7. A thread switch on the processor. When the timer interrupt returns, whatever it interrupted,
  the processor runs the thread the scheduler chose, with its general registers, instruction pointer, flags
  and code segment. A user thread also gets its stack. A kernel thread does not: the return to
  ring 0 takes no stack from the frame, so it goes on with the stack of what was interrupted, and
  the two words there, which belong to that code, now hold the thread's own stack pointer and segment.
\<close>

theorem kernel_threads_run_on_the_interrupted_stack:
  assumes "linked S" "gates_set S s" "kernel_ok L s ps" "kernel_interrupt S T junk L 0x20 None (c, s) = ret (c', s')"
  shows "\<exists>ths j. sched_view s' ps ths j \<and> kernel_ok L s' ps \<and> runs c' (CPUFrame (ths ! j)) \<and>
    (if rpl (ucast (CsT (CPUFrame (ths ! j)))) = 0
     then r_esp c' = (if rpl (r_cs c) = 0 then r_esp c else snd (interrupt_stack T) - 8) \<and>
       r_ss c' = (if rpl (r_cs c) = 0 then r_ss c else fst (interrupt_stack T)) \<and>
       stack c' (r_esp c') = EspT (CPUFrame (ths ! j)) \<and> stack c' (r_esp c' + 4) = SsT (CPUFrame (ths ! j))
     else r_esp c' = EspT (CPUFrame (ths ! j)) \<and> r_ss c' = ucast (SsT (CPUFrame (ths ! j))))"
proof -
  define F where "F = interrupted_frame (interrupt_stack T) 0x20 0 c"
  obtain ths i where v: "sched_view s ps ths i" "kernel_only s" "IdtIntHandlers s 0x20 = Some SchedIrqHandler_cb"
    using assms(3) by (auto simp: kernel_ok_def)
  have n: "InterruptNumber F = 0x20" by (simp add: F_def interrupted_frame_def)
  obtain f where f: "IdtGlobalIntHandler (kernel_call L) F s = ret (Resume f s')" using kernel_interrupt_returns [OF assms(1,2,4)] by (auto simp: F_def)
  show ?thesis
  proof (cases "tick_spec (if initialized s then Some F else None) ths i")
    case None
    then have "SchedIrqHandler L F s = None" using SchedIrqHandler_view [OF v(1), where frame = F and L = L] by simp
    then show ?thesis using f n v(3) by (simp add: IdtGlobalIntHandler_def kernel_call_def Let_def ret_def)
  next
    case (Some x)
    obtain ths' j where x: "x = (ths', j)" by (cases x)
    obtain s1 where s1: "kernel_interrupt S T junk L 0x20 None (c, s) =
        ret (resumed (interrupt_stack T) (privilege T) (SchedLoadFrame F (ths' ! j)) c, s1)" "sched_view s1 ps ths' j"
      using timer_interrupt_switches [OF assms(1,2) v F_def Some [unfolded x], of junk L] by blast
    then have c': "c' = resumed (interrupt_stack T) (privilege T) (SchedLoadFrame F (ths' ! j)) c" "s1 = s'" using assms(4) by auto
    show ?thesis
      using s1(2) kernel_interrupt_ok [OF assms] resumed_kernel_thread [OF _ c'(1)]
        resumed_thread [where th = "ths' ! j" and F = F and ts = "interrupt_stack T" and dpl = "privilege T" and c = c]
      unfolding c'(2) by (intro exI [of _ ths'] exI [of _ j]) (simp add: c'(1))
  qed
qed

text \<open>The first timer interrupt after \<open>KMain\<close>.\<close>

lemma first_tick:
  assumes "power_on I s" "linked (entry_stubs I)" "f = interrupted_frame (interrupt_stack T) 0x20 0 c"
  shows "\<exists>s0 s1 e t1 t2. KMain I dev s = ret s0 \<and> gates_set (entry_stubs I) s0 \<and>
    kernel_interrupt (entry_stubs I) T junk (lk I) 0x20 None (c, s0) =
      ret (resumed (interrupt_stack T) (privilege T) (SchedLoadFrame f ((thread_at s0 t1)\<lparr>RemainingCpuTime := 1\<rparr>)) c, s1) \<and>
    sched_view s1 [(e, [t1, t2])] [(thread_at s0 t1)\<lparr>RemainingCpuTime := 1\<rparr>, thread_at s0 t2] 0 \<and> kernel_only s1 \<and>
    IdtIntHandlers s1 0x20 = Some SchedIrqHandler_cb \<and> initialized s1 \<and> gates_set (entry_stubs I) s1 \<and>
    ready [thread_at s0 t1, thread_at s0 t2] 0 \<and>
    EipT (CPUFrame (thread_at s0 t1)) = addr_SchedIdle I \<and> EipT (CPUFrame (thread_at s0 t2)) = addr_SchedSleepTest I \<and>
    CsT (CPUFrame (thread_at s0 t1)) = 0x08 \<and> CsT (CPUFrame (thread_at s0 t2)) = 0x08"
proof -
  obtain s0 e t1 t2 where s0: "KMain I dev s = ret s0" "IdtIntHandlers s0 0x20 = Some SchedIrqHandler_cb" "\<not> initialized s0"
    "sched_view s0 [(e, [t1, t2])] [thread_at s0 t1, thread_at s0 t2] 0" "ready [thread_at s0 t1, thread_at s0 t2] 0" "kernel_only s0"
    "EipT (CPUFrame (thread_at s0 t1)) = addr_SchedIdle I" "EipT (CPUFrame (thread_at s0 t2)) = addr_SchedSleepTest I"
    "CsT (CPUFrame (thread_at s0 t1)) = 0x08" "CsT (CPUFrame (thread_at s0 t2)) = 0x08"
    "IdtTable s0 = IdtTable (IdtInit (entry_stubs I) s)"
    using KMain_reaches [OF assms(1), of dev] by blast
  let ?u = "thread_at s0 t1" and ?v = "thread_at s0 t2"
  have gates: "gates_set (entry_stubs I) s0" using s0(11) by (auto simp: gates_set_def)
  have "tick_spec (if initialized s0 then Some f else None) [?u, ?v] 0 = Some ([?u\<lparr>RemainingCpuTime := 1\<rparr>, ?v], 0)"
    using two_threads_spec(1) [OF s0(5)] s0(3) by simp
  from timer_interrupt_switches [OF assms(2) gates s0(4,6,2) assms(3) this, of junk "lk I"] obtain s1 where
    "kernel_interrupt (entry_stubs I) T junk (lk I) 0x20 None (c, s0) =
      ret (resumed (interrupt_stack T) (privilege T) (SchedLoadFrame f (?u\<lparr>RemainingCpuTime := 1\<rparr>)) c, s1)"
    "sched_view s1 [(e, [t1, t2])] [?u\<lparr>RemainingCpuTime := 1\<rparr>, ?v] 0" "kernel_only s1"
    "IdtIntHandlers s1 0x20 = Some SchedIrqHandler_cb" "initialized s1" "gates_set (entry_stubs I) s1" by auto
  then show ?thesis using s0(1,5,7-10) gates
    by - (rule exI [of _ s0], rule exI [of _ s1], rule exI [of _ e], rule exI [of _ t1], rule exI [of _ t2], simp)
qed



text \<open>The processor in \<open>KMain\<close>: ring 0, with the segments of \<open>GdtInit\<close>.\<close>

definition kernel_processor :: processor where
  "kernel_processor = user_processor\<lparr>r_cs := 0x08, r_ss := 0x10, r_ds := 0x10, r_es := 0x10, r_fs := 0x10, r_gs := 0x10, r_esp := 0xE00D0000\<rparr>"

definition sample_segments :: segment_state where
  "sample_segments = GdtInit 0xE0008000 0xE0008100 0xE00F0000 segments_at_boot"

lemma driver_stubs: "entry_stubs driver_image = sample_stubs" "lk driver_image = sample_image"
  by (simp_all add: driver_image_def sample_stubs_def)


theorem kernel_threads_run_on_the_interrupted_stack_witness:
  "\<exists>s0 s1 c1 ps ths j. kernel_interrupt sample_stubs sample_segments (8, 9) sample_image 0x20 None (kernel_processor, s0) = ret (c1, s1) \<and>
    sched_view (s1 :: syscall_state) ps ths j \<and> runs c1 (CPUFrame (ths ! j))"
proof -
  have l: "linked (entry_stubs driver_image)" by (simp add: driver_stubs sample_stubs_linked)
  obtain s0 s1 :: syscall_state and c1 where s0: "KMain driver_image (\<lambda>h p. 0) boot_machine = ret s0" "gates_set sample_stubs s0"
    and r: "kernel_interrupt sample_stubs sample_segments (8, 9) sample_image 0x20 None (kernel_processor, s0) = ret (c1, s1)"
    using first_tick [OF boot_machine_power_on l refl, of "\<lambda>h p. 0" sample_segments "(8, 9)" kernel_processor] unfolding driver_stubs by blast
  obtain ps where ok: "kernel_ok sample_image s0 ps" using KMain_kernel_ok [OF boot_machine_power_on s0(1)] by (auto simp: driver_stubs)
  from kernel_threads_run_on_the_interrupted_stack [OF sample_stubs_linked s0(2) ok r] r show ?thesis by blast
qed

section \<open>The machine as a whole\<close>

text \<open>
  An interrupt of any vector on a well-formed kernel: it does not return for an exception that has a stub, or
  when the scheduler finds every thread asleep; otherwise the kernel is well formed again.
\<close>

lemma kernel_interrupt_safe:
  assumes "linked S" "gates_set S s" "kernel_ok L s ps" "err \<noteq> None \<longleftrightarrow> pushes_error_code n"
  shows "case kernel_interrupt S T junk L n err (c, s) of
      None \<Rightarrow> n \<le> 0x1E \<and> n \<in> fst ` set vectors \<or> IdtIntHandlers s n = Some SchedIrqHandler_cb \<and> all_asleep s ps
    | Some (Inl e) \<Rightarrow> False
    | Some (Inr (c', s')) \<Rightarrow> kernel_ok L s' ps \<and> gates_set S s'"
proof -
  obtain s0 :: "'a syscall_state_scheme" where gates: "IdtTable s = IdtTable (IdtInit S s0)" using assms(2) by (auto simp: gates_set_def)
  let ?F = "interrupted_frame (interrupt_stack T) n (case err of None \<Rightarrow> 0 | Some v \<Rightarrow> v) c"
  show ?thesis
  proof (cases "n \<in> fst ` set vectors")
    case True
    have vec: "(ucast (InterruptNumber ?F) :: u8) = n" "InterruptNumber ?F \<le> 0x1E \<longleftrightarrow> n \<le> 0x1E"
    proof -
      have u: "unat (ucast n :: u32) = unat n" using unsigned_less [of n, where 'a = nat]
        by (simp add: unsigned_ucast_eq take_bit_nat_eq_self del: unsigned_less)
      have "(ucast (ucast n :: u32) :: u8) = n" by (rule bit_word_eqI) (auto simp: bit_simps)
      then show "(ucast (InterruptNumber ?F) :: u8) = n" by (simp add: interrupted_frame_def)
      show "InterruptNumber ?F \<le> 0x1E \<longleftrightarrow> n \<le> 0x1E" by (simp add: interrupted_frame_def word_le_nat_alt u)
    qed
    have r: "kernel_interrupt S T junk L n err (c, s) = mbind (IdtGlobalIntHandler (kernel_call L) ?F s)
        (\<lambda>r. case r of Resume f k \<Rightarrow> ret (resumed (interrupt_stack T) (privilege T) f c, k) | Hang k \<Rightarrow> None)"
      unfolding kernel_interrupt_def by (rule interrupt_refines [OF assms(1) True gates assms(4)])
    have g: "gates_set S s'" if "IdtTable s' = IdtTable s" for s' :: "'a syscall_state_scheme"
      using that assms(2) by (simp add: gates_set_def)
    show ?thesis
      using interrupt_safe [OF assms(3), of ?F] True g unfolding r vec
      by (auto simp: mbind_def ret_def split: option.splits sum.splits handled.splits)
  next
    case False
    then show ?thesis unfolding kernel_interrupt_def default_interrupt [OF assms(1) False gates]
      using assms(2,3) by (simp add: ret_def)
  qed
qed

text \<open>
  What may happen to the machine between two states: code runs that leaves the processor and the stacks in any
  state but writes no data of the kernel; an operation of the kernel changes them; or an interrupt arrives and returns.
\<close>

inductive machine_step :: "stubs \<Rightarrow> segment_state \<Rightarrow> u32 \<times> u32 \<Rightarrow> linker \<Rightarrow> processor \<times> 'z syscall_state_scheme \<Rightarrow>
    processor \<times> 'z syscall_state_scheme \<Rightarrow> bool" for S T junk L where
  code: "machine_step S T junk L (c, s) (c', s)"
| kernel: "kernel_step L s s' \<Longrightarrow> machine_step S T junk L (c, s) (c', s')"
| interrupted: "err \<noteq> None \<longleftrightarrow> pushes_error_code n \<Longrightarrow> kernel_interrupt S T junk L n err (c, s) = ret (c', s') \<Longrightarrow>
    machine_step S T junk L (c, s) (c', s')"

definition machine_ok :: "stubs \<Rightarrow> linker \<Rightarrow> processor \<times> 'z syscall_state_scheme \<Rightarrow> bool" where
  "machine_ok S L m \<longleftrightarrow> linked S \<and> gates_set S (snd m) \<and> (\<exists>ps. kernel_ok L (snd m) ps)"

lemma machine_step_ok:
  assumes "machine_step S T junk L m m'" "machine_ok S L m"
  shows "machine_ok S L m'"
  using assms(1)
proof cases
  case (code c s c')
  then show ?thesis using assms(2) by (simp add: machine_ok_def)
next
  case (kernel s s' c c')
  then show ?thesis using assms(2) step_safe [OF kernel(3)] by (auto simp: machine_ok_def gates_set_def)
next
  case (interrupted err n c s c' s')
  obtain ps where "kernel_ok L s ps" "linked S" "gates_set S s" using assms(2) interrupted(1) by (auto simp: machine_ok_def)
  from kernel_interrupt_safe [OF this(2,3,1) interrupted(3), of T junk c] interrupted(2,4) this(2) show ?thesis
    by (auto simp: machine_ok_def ret_def)
qed

interpretation running: preserved "machine_step S T junk L" "machine_ok S L" for S T junk L
  by unfold_locales (rule machine_step_ok)



section \<open>From the entry point to the idle thread\<close>

text \<open>
  What the boot loader leaves: the image in its place with its data and literals, none of which lies in
  the buffer for the Multiboot tags, and room in the address space for the pages booting takes.
\<close>

definition in_image :: "linker \<Rightarrow> ptr \<Rightarrow> bool" where
  "in_image L a \<longleftrightarrow> KernelStart \<le> a \<and> a < KernelEnd L"

definition loaded :: "image \<Rightarrow> ptr \<Rightarrow> 'z syscall_state_scheme \<Rightarrow> bool" where
  "loaded I MultibootTags s \<longleftrightarrow> image_layout (lk I) \<and> tables_loaded (lk I) s \<and> image_ok (lk I) \<and> KernelStart \<le> addr_VirtualAddress (lk I) \<and>
     unat (KernelSizePages (lk I)) + 192 \<le> KERNEL_PAGES \<and>
     unat (addr_VirtualAddress (lk I)) + (unat (KernelSizePages (lk I)) + 192) * 4096 + 8192 < 4294967296 \<and> initial_data I s \<and>
     (\<forall>p \<in> literals I. \<exists>str. p \<noteq> NULL \<and> cstr (bmem s) p str \<and>
        (\<forall>i \<le> length str. in_image (lk I) (p + of_nat i) \<and> 4096 \<le> unat (p + of_nat i - MultibootTags)))"

lemma image_settled:
  assumes "image_layout L" "KernelStart \<le> addr_VirtualAddress L" "\<forall>j < KERNEL_PAGES. kernel_present L s j \<longleftrightarrow> j < unat (KernelSizePages L)"
    and "in_image L a"
  shows "settled L s a"
proof -
  let ?d = "unat (a - addr_VirtualAddress L)" and ?n = "unat (KernelSizePages L)"
  show ?thesis
  proof (cases "?d div 4096 < ?n")
    case True
    then have "owned L s a" using assms(1,3) by (simp add: owned_def Let_def image_layout_def)
    then show ?thesis by (simp add: settled_def)
  next
    case False
    have n: "?n < 131072" using assms(1) by (simp add: image_layout_def KERNEL_PAGES_def)
    have st: "unat KernelStart = 0xE0000000" by (simp add: KernelStart_def VirtualAddress_def)
    have "unat (4096 * KernelSizePages L) = 4096 * ?n" using n by (simp add: unat_word_ariths)
    then have "unat (KernelEnd L) = 0xE0000000 + 4096 * ?n" using n st by (simp add: KernelEnd_def unat_plus_if')
    then have a: "0xE0000000 \<le> unat a" "unat a < 0xE0000000 + 4096 * ?n" "0xE0000000 \<le> unat (addr_VirtualAddress L)"
      using assms(2,4) st by (simp_all add: in_image_def word_le_nat_alt word_less_nat_alt)
    have v: "unat (addr_VirtualAddress L) < 4294967296" using unsigned_less [of "addr_VirtualAddress L", where 'a = nat] by simp
    have "?d = unat a + 4294967296 - unat (addr_VirtualAddress L)"
    proof (cases "addr_VirtualAddress L \<le> a")
      case True
      then have "?d = unat a - unat (addr_VirtualAddress L)" by (simp add: unat_sub)
      then have "?d < 4096 * ?n" using a by linarith
      then have "?d div 4096 < ?n" by (simp add: less_mult_imp_div_less mult.commute)
      with False show ?thesis by blast
    next
      case False
      then show ?thesis by (simp add: unat_sub_if_size word_size word_le_nat_alt)
    qed
    then have "0xE0000000 \<le> ?d" using a(1) v by linarith
    then have "KERNEL_PAGES \<le> ?d div 4096" by (simp add: KERNEL_PAGES_def)
    then show ?thesis by (simp add: settled_def)
  qed
qed


lemma start_powers_on:
  assumes "loaded I MultibootTags s" "unat tagsize \<le> 4096"
  shows "\<exists>s1. start (lk I) MultibootTags False src tagsize ebx s = ret s1 \<and> power_on I s1"
proof -
  let ?L = "lk I"
  note l = assms(1) [unfolded loaded_def]
  have size: "tagsize \<le>s 4096" using accepted_size [of tagsize] assms(2) by simp
  obtain m where m: "start ?L MultibootTags False src tagsize ebx s =
      ret (s\<lparr>bmem := rep_movsb (unat tagsize) False src ebx MultibootTags (bmem s), pmem := m, cr3 := table_word ?L 132096,
        CurrentPageDirectory := addr_TemporaryPageDirectory ?L, CurrentPageDirectoryPhys := table_word ?L 132096\<rparr>)" (is "_ = ret ?s")
    and tables: "booted_tables ?L m"
    using start_tables [of ?L s tagsize MultibootTags False src ebx] l size by blast
  have present: "\<forall>j < KERNEL_PAGES. kernel_present ?L ?s j \<longleftrightarrow> j < unat (KernelSizePages ?L)"
    using kpt_booted [of ?L ?s] tables l by simp
  have n: "1 \<le> unat (KernelSizePages ?L)" "unat (KernelSizePages ?L) < 200000" using l by (simp_all add: image_layout_def KERNEL_PAGES_def)
  have lits: "\<exists>str. text_at ?L ?s p str" if p: "p \<in> literals I" for p
  proof -
    obtain str where str: "p \<noteq> NULL" "cstr (bmem s) p str"
      "\<And>i. i \<le> length str \<Longrightarrow> in_image ?L (p + of_nat i) \<and> 4096 \<le> unat (p + of_nat i - MultibootTags)"
      using l p by blast
    have "bmem ?s (p + of_nat i) = bmem s (p + of_nat i)" if "i \<le> length str" for i
    proof -
      have "unat tagsize < 4294967296" using assms(2) by simp
      from rep_movsb_up [OF this] str(3) [OF that] assms(2) show ?thesis by simp
    qed
    then have "cstr (bmem ?s) p str" using str(2) cstr_cong [of str "bmem ?s" p "bmem s"] by blast
    moreover have "settled ?L ?s (p + of_nat i)" if "i \<le> length str" for i
      using image_settled [OF _ _ present] str(3) [OF that] l by blast
    ultimately show ?thesis using str(1) by (auto simp: text_at_def)
  qed
  have "\<exists>t \<ge> 1. t + 192 \<le> KERNEL_PAGES \<and> unat (addr_VirtualAddress ?L) + (t + 192) * 4096 + 8192 < 4294967296 \<and>
        (\<forall>j < KERNEL_PAGES. t \<le> j \<longrightarrow> \<not> kernel_present ?L ?s j)"
    by (rule exI [of _ "unat (KernelSizePages ?L)"]) (use l n present in auto)
  moreover have "initial_data I ?s" using l by (simp add: initial_data_def)
  ultimately have "power_on I ?s" using l n(2) lits unfolding power_on_def by blast
  with m show ?thesis by blast
qed



definition loaded_machine :: syscall_state where
  "loaded_machine = boot_machine\<lparr>pmem := loaded_tables sample_image\<rparr>"

lemma loaded_machine_loaded: "loaded driver_image 0xE00E0000 loaded_machine"
proof -
  note lk = driver_stubs(2)
  have on: "power_on driver_image boot_machine" by (rule boot_machine_power_on)
  have tables: "tables_loaded sample_image loaded_machine"
    by (rule loaded_tables_ok [OF sample_layout]) (simp add: loaded_machine_def)
  have "initial_data driver_image loaded_machine" using on by (simp add: power_on_def initial_data_def loaded_machine_def)
  moreover have "\<exists>str. p \<noteq> NULL \<and> cstr (bmem loaded_machine) p str \<and>
      (\<forall>i \<le> length str. in_image sample_image (p + of_nat i) \<and> 4096 \<le> unat (p + of_nat i - 0xE00E0000))"
    if "p \<in> literals driver_image" for p
  proof -
    have m: "bmem loaded_machine = bmem boot_machine" by (simp add: loaded_machine_def)
    have p: "p \<in> {0xE0003030, 0xE0003040, 0xE0003000, 0xE0003010}" using that by (auto simp: literals_def driver_image_def)
    note defs = boot_machine_def sched_machine_defs syscall_state.defs empty_heap_def
    have "cstr (bmem boot_machine) 0xE0003030 [100]" "cstr (bmem boot_machine) 0xE0003040 []"
      "cstr (bmem boot_machine) 0xE0003000 []" "cstr (bmem boot_machine) 0xE0003010 []"
      by (simp_all add: defs)
    then have "\<exists>str. cstr (bmem boot_machine) p str \<and> length str \<le> 1"
      using p by (elim insertE emptyE) (rule exI [of _ "[100]"], simp, rule exI [of _ "[]"], simp, rule exI [of _ "[]"], simp, rule exI [of _ "[]"], simp)
    then obtain str where str: "cstr (bmem boot_machine) p str" "length str \<le> 1" by blast
    have i: "in_image sample_image (p + of_nat i) \<and> 4096 \<le> unat (p + of_nat i - 0xE00E0000)" if "i \<le> length str" for i
    proof -
      have "i = 0 \<or> i = 1" using that str(2) by linarith
      then show ?thesis using p by (auto simp: in_image_def KernelStart_def KernelEnd_def VirtualAddress_def)
    qed
    show ?thesis using str(1) i p by (intro exI [of _ str]) (auto simp: m)
  qed
  ultimately show ?thesis
    using tables sample_layout sample_image_ok unfolding loaded_def lk
    by (simp add: KERNEL_PAGES_def KernelStart_def VirtualAddress_def)
qed


end
