(* ===== verification/Spec2Isabelle.thy ===== *)
theory Spec2Isabelle
  imports Machine
begin

text \<open>
  A model of the mcpgos kernel (\<open>kernel/src\<close>, \<open>kernel/include\<close>, \<open>libc/src\<close>): a small 32-bit x86
  operating system kernel in C, with its entry point and interrupt stubs in assembly. The theories
  follow the source files; a definition named after a C function or an assembly label is a
  translation of it.

  How the program is modelled. Machine integers are words of their width and wrap as in C;
  pointers are 32-bit words. A function that may panic or go wrong returns \<open>halt + 'a\<close>; one that
  may also run for ever returns \<open>(halt + 'a) option\<close>, where \<open>None\<close> is that it never returns
  (\<open>Kernel_Prelude\<close>). A panic ends the run, as \<open>KPanic\<close> halts for ever. The state is a chain of
  records, each component extending that of the components it uses: bytes of memory and the
  allocators' tables first, then the interrupt table, drivers, disks, filesystems, devices, the
  scheduler and the system calls. Objects that the code only reaches through typed pointers
  (list elements, threads, processes, inodes) are maps from addresses; buffers, strings and the
  page tables are bytes and words of memory.

  The theories, with the source they model.
  \<^item> \<open>Kernel_Prelude\<close>: results, link-time constants, generic lemmas on words. \<open>Libc\<close>: the string
    functions of \<open>libc/src/string\<close>.
  \<^item> \<open>Frame_Source\<close>, the interface of an allocator of page frames, and \<open>PhysicalMemory\<close>
    (\<open>MM/PhysicalMemory.c\<close>), which provides it. \<open>PageTables\<close> and \<open>Paging\<close> (\<open>MM/Paging.h\<close>,
    \<open>MM/Paging.c\<close>), with the processor's page walk written out to compare with.
    \<open>VirtualMemory\<close> (\<open>MM/VirtualMemory.c\<close>), a client of the frame source, which provides the
    interface \<open>Page_Provider\<close>.
  \<^item> \<open>LibAlloc\<close> (\<open>MM/LibAlloc.c\<close>, \<open>LibAllocStubs.c\<close>), \<open>Heap_Invariant\<close> (what \<open>malloc\<close>, \<open>calloc\<close> and
    \<open>realloc\<close> do on a well-formed heap), \<open>Allocator\<close> (the interface of the heap) and
    \<open>Heap_Clients\<close> (the contract the rest of the kernel uses: an allocation keeps the memory
    and the state of everybody else, and succeeds while there is \<open>room\<close>).
  \<^item> \<open>LinkedList\<close> (\<open>Utils/LinkedList.c\<close>) on a heap of list elements, with the interface
    \<open>registry\<close> of the lists the kernel keeps.
  \<^item> \<open>IOStream\<close> (\<open>IOStream.h\<close>, \<open>CPU/IO.h\<close>), \<open>TTY\<close> (\<open>Drivers/TTY.c\<close>) and \<open>Kprintf\<close> (\<open>Kprintf.c\<close>,
    \<open>KPanic.c\<close>): streams, ports, the text console and formatted output.
  \<^item> \<open>Interrupts\<close> (\<open>CPU/IDT.c\<close>, \<open>PIC.c\<close>, \<open>Pit.c\<close>): descriptors, dispatch, the interrupt controller.
  \<^item> \<open>Drivers\<close> (\<open>Drivers/DriverManager.c\<close>, \<open>PS2Keyboard.c\<close>), \<open>RamDisk\<close> (\<open>Drivers/RamDisk.c\<close>),
    \<open>Vfs\<close> (\<open>Vfs/Vfs.c\<close>) and \<open>Devfs\<close> (\<open>Vfs/Devfs.c\<close>, \<open>TTYInit\<close>).
  \<^item> \<open>Scheduler\<close> (\<open>Scheduler/Scheduler.c\<close>), \<open>RoundRobin\<close> (its refinement of a round robin on a list of
    threads), \<open>Processes\<close> (creating processes and threads, \<open>SchedInit\<close>) and \<open>Threads\<close> (the
    scheduler's properties).
  \<^item> \<open>Syscalls\<close> (\<open>Syscalls/Syscalls.c\<close>) and \<open>Kernel\<close> (\<open>KMain.c\<close>): the whole boot sequence, and
    the two threads it starts under the first timer interrupts. \<open>KernelSafety\<close>: the booted kernel as
    a state machine, whose data stay well formed and whose interrupt handler never faults.
  \<^item> \<open>StartCode\<close> (\<open>_start.asm\<close>, \<open>mcpgos.ld\<close>): the first page tables, on the physical memory that
    \<open>PageTables\<close> also uses, and the copy of the Multiboot tags. \<open>Segments\<close> (\<open>CPU/GDT.asm\<close>): the
    descriptor table and the task state segment as bytes and words, read back as the processor
    reads them. \<open>EntryCode\<close> (\<open>CPU/IDTAsm.asm\<close>): the stubs as lists of instructions on a processor
    with its stack, from the gate of a vector to the return from the interrupt. \<open>Machine\<close>: all of it
    composed, from the state the boot loader leaves to the threads running on the processor, and
    the running machine as a step relation of which the kernel's well-formedness is an invariant.

  What the lemmas show. The allocators of frames, pages and heap blocks are first fit and never
  hand out the same memory twice, with the ways they go wrong stated exactly: frames of the
  kernel image handed out at boot, freeing that frees nothing, addresses that are not where the
  pages were mapped, headers \<open>realloc\<close> cannot find. The page walk agrees with the processor's.
  Lists, registries and the scheduler's two levels of lists refine lists and association lists.
  The timer interrupt implements round robin, every runnable thread has its turn, and a thread
  that sleeps never wakes. \<open>_start\<close> and \<open>KMain\<close> run to their end on any image the loader could leave,
  and the thread \<open>Test\<close> goes to sleep for ever the first time it runs. After that no sequence of
  interrupts, sleeps, creations and allocations makes the kernel panic or follow a bad pointer in
  an interrupt. The stubs save and restore every register, so that an interrupt whose handler keeps
  its frame is invisible; a switch of kernel threads, though, leaves the stack pointer alone, and
  every kernel thread runs on the stack of the one it interrupts.

  Bounds. Loops over memory and arrays end by a measure on their index; loops that follow
  pointers or wait are partial functions, and the properties prove that they return on
  well-formed data. \<open>room L s k\<close> says that \<open>k\<close> more heap blocks of 16 pages can be had: booting
  needs 12 (3 in \<open>TTYInit\<close>, 8 in \<open>SchedInit\<close>, 1 in \<open>DevfsInit\<close>), and \<open>power_on\<close> asks for
  the 192 kernel pages they take; the frames are there whatever the image, as long as it is
  below 200000 pages. \<open>pick_spec\<close> visits each thread at most once, which is enough since
  the states of threads do not change during the search.

  Between assembly and C. The stack is a map of its own, apart from the memory of the C code, which
  reads and writes it only as the frame of an interrupt (\<open>frame_at\<close>, \<open>put_frame\<close>); what a call leaves
  below the stack pointer is left out, so is the return address. The C code of a handler is an argument
  of the instructions: \<open>IdtGlobalIntHandler\<close> with the kernel's handlers in \<open>Machine\<close>. \<open>GdtInit\<close>, which
  \<open>KMain\<close> calls first, acts on the segments alone; the theorems of \<open>Machine\<close> hold for any.

  Not modelled. The translation cache: \<open>cr3\<close> and the tables in memory are the whole state of
  paging. Interrupts are handled one at a time, between the steps of what they interrupt; no
  interrupt arrives while kernel code runs with its state half changed. The arithmetic flags, which
  the return from an interrupt reloads. \<open>SchedIdle\<close> and the endless loops after a panic and at the
  end of \<open>KMain\<close>, which only halt. The 16 and 32-bit port instructions and \<open>IoStream\<close>-typed members never
  used. \<open>Multiboot2.h\<close>, a third-party header no C file uses, and the code of \<open>LibAlloc.c\<close> that is commented
  out or not selected by its configuration (\<open>free\<close>).
\<close>

end
